(* ===== verification/Prelude.thy ===== *)
theory Prelude
  imports Complex_Main "HOL-Library.Monad_Syntax" "HOL-Library.Word"
begin

text \<open>
  What every component of the development shares.

  \<^item> The code of the window manager works on one global state through pointers, and it has no
    error values of its own: following a null or a freed pointer, or shifting a bit mask by
    its whole width, ends the process. Every operation is therefore a function into
    \<open>option\<close>, composed with the library's \<open>do\<close> notation, and \<^term>\<open>None\<close> is the
    crash.
  \<^item> \<open>res Q r\<close> says that a run did not crash and that its result satisfies \<open>Q\<close>. Its rules
    follow the syntax of a program (sequence, branch, loop), so that a proof about an
    operation is one step of \<open>intro\<close> over the lemmas of the operations it calls.
  \<^item> Loops over a list are \<open>each\<close> (a loop with effects), \<open>firstO\<close> (search) and \<open>filterO\<close>.
\<close>

section \<open>Outcomes of a run\<close>

definition res :: "('a \<Rightarrow> bool) \<Rightarrow> 'a option \<Rightarrow> bool" where
  "res Q r = (case r of None \<Rightarrow> False | Some a \<Rightarrow> Q a)"

named_theorems res_intro "rules that decompose an outcome along the program"

lemma res_Some [simp]: "res Q (Some a) = Q a"
  by (simp add: res_def)

lemma res_None [simp]: "\<not> res Q None"
  by (simp add: res_def)

lemma res_iff: "res Q r \<longleftrightarrow> (\<exists>a. r = Some a \<and> Q a)"
  by (cases r) auto

lemma resE: "res Q r \<Longrightarrow> (\<And>a. r = Some a \<Longrightarrow> Q a \<Longrightarrow> P) \<Longrightarrow> P"
  by (auto simp: res_iff)

lemma resD: "res Q r \<Longrightarrow> r = Some a \<Longrightarrow> Q a"
  by simp

lemma res_mono: "res P r \<Longrightarrow> (\<And>a. P a \<Longrightarrow> Q a) \<Longrightarrow> res Q r"
  by (auto simp: res_iff)

lemma res_conj: "res P r \<Longrightarrow> res Q r \<Longrightarrow> res (\<lambda>a. P a \<and> Q a) r"
  by (auto simp: res_iff)

lemma res_bind: "res P r \<Longrightarrow> (\<And>a. P a \<Longrightarrow> res Q (f a)) \<Longrightarrow> res Q (r \<bind> f)"
  by (auto simp: res_iff)

lemma res_if [res_intro]:
  "(b \<Longrightarrow> res Q x) \<Longrightarrow> (\<not> b \<Longrightarrow> res Q y) \<Longrightarrow> res Q (if b then x else y)"
  by simp

lemma res_let: "(\<And>y. y = x \<Longrightarrow> res Q (f y)) \<Longrightarrow> res Q (let y = x in f y)"
  by simp

lemma res_let_pair [res_intro]:
  "(\<And>a b. x = (a, b) \<Longrightarrow> res Q (f a b)) \<Longrightarrow> res Q (let (a, b) = x in f a b)"
  by (cases x) simp

lemma res_option_case [res_intro]:
  "(x = None \<Longrightarrow> res Q a) \<Longrightarrow> (\<And>y. x = Some y \<Longrightarrow> res Q (f y)) \<Longrightarrow>
   res Q (case x of None \<Rightarrow> a | Some y \<Rightarrow> f y)"
  by (cases x) auto

lemma res_prod_case [res_intro]:
  "(\<And>a b. x = (a, b) \<Longrightarrow> res Q (f a b)) \<Longrightarrow> res Q (case x of (a, b) \<Rightarrow> f a b)"
  by (cases x) auto

lemma res_prod_case2 [res_intro]:
  "(\<And>a b. x = (a, b) \<Longrightarrow> res Q (f a b y)) \<Longrightarrow> res Q ((case x of (a, b) \<Rightarrow> f a b) y)"
  by (cases x) auto

declare res_let [res_intro]

section \<open>Loops over lists\<close>

fun each :: "('a \<Rightarrow> 's \<Rightarrow> 's option) \<Rightarrow> 'a list \<Rightarrow> 's \<Rightarrow> 's option" where
  "each f [] s = Some s"
| "each f (x # xs) s = do { s \<leftarrow> f x s; each f xs s }"

lemma each_append: "each f (xs @ ys) s = do { s \<leftarrow> each f xs s; each f ys s }"
  by (induction xs arbitrary: s) (auto split: Option.bind_splits)

lemma res_each:
  assumes "I s" and "\<And>x s. x \<in> set xs \<Longrightarrow> I s \<Longrightarrow> res I (f x s)"
  shows "res I (each f xs s)"
  using assms
proof (induction xs arbitrary: s)
  case Nil
  then show ?case by simp
next
  case (Cons x xs)
  have "res I (f x s)" using Cons.prems by simp
  then show ?case
    by (auto intro!: res_bind [where P = I] Cons.IH Cons.prems)
qed

text \<open>The same for a loop that also counts: the body gets the index of the element.\<close>

fun each_from :: "nat \<Rightarrow> (nat \<Rightarrow> 'a \<Rightarrow> 's \<Rightarrow> 's option) \<Rightarrow> 'a list \<Rightarrow> 's \<Rightarrow> 's option" where
  "each_from i f [] s = Some s"
| "each_from i f (x # xs) s = do { s \<leftarrow> f i x s; each_from (Suc i) f xs s }"

lemma res_each_from:
  assumes "I s" and "\<And>i x s. x \<in> set xs \<Longrightarrow> I s \<Longrightarrow> res I (f i x s)"
  shows "res I (each_from i f xs s)"
  using assms
proof (induction xs arbitrary: i s)
  case Nil
  then show ?case by simp
next
  case (Cons x xs)
  have "res I (f i x s)" using Cons.prems by simp
  then show ?case
    by (auto intro!: res_bind [where P = I] Cons.IH Cons.prems)
qed

fun firstO :: "('a \<Rightarrow> bool option) \<Rightarrow> 'a list \<Rightarrow> 'a option option" where
  "firstO p [] = Some None"
| "firstO p (x # xs) = do { b \<leftarrow> p x; if b then Some (Some x) else firstO p xs }"

fun filterO :: "('a \<Rightarrow> bool option) \<Rightarrow> 'a list \<Rightarrow> 'a list option" where
  "filterO p [] = Some []"
| "filterO p (x # xs) =
     do { b \<leftarrow> p x; ys \<leftarrow> filterO p xs; Some (if b then x # ys else ys) }"

lemma firstO_total:
  "(\<And>x. x \<in> set xs \<Longrightarrow> p x = Some (q x)) \<Longrightarrow> firstO p xs = Some (find q xs)"
  by (induction xs) auto

lemma filterO_total:
  "(\<And>x. x \<in> set xs \<Longrightarrow> p x = Some (q x)) \<Longrightarrow> filterO p xs = Some (filter q xs)"
  by (induction xs) auto

lemma firstO_mem: "firstO p xs = Some (Some x) \<Longrightarrow> x \<in> set xs"
  by (induction xs) (auto split: Option.bind_splits if_splits)

lemma firstO_sound: "firstO p xs = Some (Some x) \<Longrightarrow> p x = Some True"
  by (induction xs) (auto split: Option.bind_splits if_splits)

lemma firstO_none: "firstO p xs = Some None \<Longrightarrow> x \<in> set xs \<Longrightarrow> p x = Some False"
  by (induction xs) (auto split: Option.bind_splits if_splits)

lemma filterO_subset: "filterO p xs = Some ys \<Longrightarrow> set ys \<subseteq> set xs"
  by (induction xs arbitrary: ys) (auto split: Option.bind_splits if_splits)

lemma filterO_distinct: "filterO p xs = Some ys \<Longrightarrow> distinct xs \<Longrightarrow> distinct ys"
  by (induction xs arbitrary: ys)
    (auto split: Option.bind_splits if_splits dest!: filterO_subset)

lemma find_Some_mem: "find p xs = Some x \<Longrightarrow> x \<in> set xs \<and> p x"
  by (induction xs) (auto split: if_splits)

section \<open>Lists read through a pointer\<close>

text \<open>
  \<open>after c cs\<close> is the list that starts at \<open>c->next\<close> when \<open>c\<close> is a member of the linked list
  whose elements are \<open>cs\<close>.
\<close>

fun after :: "'a \<Rightarrow> 'a list \<Rightarrow> 'a list" where
  "after c [] = []"
| "after c (x # xs) = (if x = c then xs else after c xs)"

lemma set_after: "set (after c xs) \<subseteq> set xs"
  by (induction xs) auto

lemma after_append: "c \<notin> set xs \<Longrightarrow> after c (xs @ c # ys) = ys"
  by (induction xs) auto

text \<open>\<open>upto c cs\<close> are the elements before \<open>c\<close>: what a loop up to \<open>c\<close> visits.\<close>

fun before :: "'a \<Rightarrow> 'a list \<Rightarrow> 'a list" where
  "before c [] = []"
| "before c (x # xs) = (if x = c then [] else x # before c xs)"

lemma set_before: "set (before c xs) \<subseteq> set xs"
  by (induction xs) auto

lemma before_after: "c \<in> set xs \<Longrightarrow> before c xs @ c # after c xs = xs"
  by (induction xs) auto

lemma remove1_before_after: "c \<in> set xs \<Longrightarrow> remove1 c xs = before c xs @ after c xs"
  by (induction xs) auto

fun insert_after :: "'a \<Rightarrow> 'a \<Rightarrow> 'a list \<Rightarrow> 'a list" where
  "insert_after a c [] = []"
| "insert_after a c (x # xs) = (if x = a then x # c # xs else x # insert_after a c xs)"

lemma set_insert_after: "a \<in> set xs \<Longrightarrow> set (insert_after a c xs) = insert c (set xs)"
  by (induction xs) auto

lemma distinct_insert_after:
  "distinct xs \<Longrightarrow> c \<notin> set xs \<Longrightarrow> distinct (insert_after a c xs)"
proof (induction xs)
  case (Cons x xs)
  have "set (insert_after a c xs) \<subseteq> insert c (set xs)"
    by (induction xs) auto
  with Cons show ?case by auto
qed simp

fun insert_before :: "'a \<Rightarrow> 'a \<Rightarrow> 'a list \<Rightarrow> 'a list" where
  "insert_before a c [] = []"
| "insert_before a c (x # xs) = (if x = a then c # x # xs else x # insert_before a c xs)"

lemma set_insert_before: "a \<in> set xs \<Longrightarrow> set (insert_before a c xs) = insert c (set xs)"
  by (induction xs) auto

lemma distinct_insert_before:
  "distinct xs \<Longrightarrow> c \<notin> set xs \<Longrightarrow> distinct (insert_before a c xs)"
proof (induction xs)
  case (Cons x xs)
  have "set (insert_before a c xs) \<subseteq> insert c (set xs)"
    by (induction xs) auto
  with Cons show ?case by auto
qed simp

end
