(* ===== verification/CArith.thy ===== *)
theory CArith
  imports Prelude "HOL-Library.Log_Nat"
begin

text \<open>
  The arithmetic of C that the code relies on.

  \<^item> \<open>int\<close> is the mathematical integer: signed overflow is undefined in C, and no geometry
    of a screen comes near it. The places where \<open>dwm.c\<close> mixes \<open>unsigned int\<close> into its
    geometry (the layouts, \<open>fdeck\<close>, \<open>grid\<close>) write the conversion out with \<open>u32\<close>, and the
    conversion of the result back to an \<open>int\<close> argument with \<open>s32\<close>.
  \<^item> Division and remainder of C truncate towards zero (\<open>cdiv\<close>, \<open>cmod\<close>).
  \<^item> \<open>float\<close> and \<open>double\<close> values are rationals, rounded after every operation to 24 or 53
    significant bits, ties to even, as IEEE 754 does for values in the normal range.
  \<^item> Tag masks are \<^typ>\<open>32 word\<close>.
\<close>

unbundle bit_operations_syntax

section \<open>Integers\<close>

definition u32 :: "int \<Rightarrow> int" where
  "u32 x = x mod 2 ^ 32"

definition s32 :: "int \<Rightarrow> int" where
  "s32 x = (let y = x mod 2 ^ 32 in if y < 2 ^ 31 then y else y - 2 ^ 32)"

definition cdiv :: "int \<Rightarrow> int \<Rightarrow> int" where
  "cdiv a b = sgn a * sgn b * (\<bar>a\<bar> div \<bar>b\<bar>)"

definition cmod :: "int \<Rightarrow> int \<Rightarrow> int" where
  "cmod a b = a - b * cdiv a b"

lemma u32_id [simp]: "0 \<le> x \<Longrightarrow> x < 4294967296 \<Longrightarrow> u32 x = x"
  by (simp add: u32_def)

lemma u32_nonneg [simp]: "0 \<le> u32 x"
  by (simp add: u32_def)

lemma u32_less [simp]: "u32 x < 4294967296"
  by (simp add: u32_def)

lemma s32_id [simp]: "- 2147483648 \<le> x \<Longrightarrow> x < 2147483648 \<Longrightarrow> s32 x = x"
proof (cases "0 \<le> x")
  case False
  assume "- 2147483648 \<le> x"
  with False have "x mod 4294967296 = x + 4294967296"
    by (smt (verit) mod_add_self2 mod_pos_pos_trivial)
  with False \<open>- 2147483648 \<le> x\<close> show ?thesis by (simp add: s32_def Let_def)
qed (simp add: s32_def)

lemma s32_u32 [simp]: "s32 (u32 x) = s32 x"
  by (simp add: s32_def u32_def)

lemma cdiv_nonneg: "0 \<le> a \<Longrightarrow> 0 < b \<Longrightarrow> cdiv a b = a div b"
  by (cases "a = 0") (auto simp: cdiv_def)

lemma cmod_nonneg: "0 \<le> a \<Longrightarrow> 0 < b \<Longrightarrow> cmod a b = a mod b"
  by (simp add: cmod_def cdiv_nonneg minus_mult_div_eq_mod)

lemma cmod_bounds: "0 \<le> a \<Longrightarrow> 0 < b \<Longrightarrow> 0 \<le> cmod a b \<and> cmod a b < b"
  by (simp add: cmod_nonneg)

section \<open>Floating point\<close>

type_synonym flt = rat

text \<open>The exponent of the leading bit of a positive rational.\<close>

definition ilog2 :: "rat \<Rightarrow> int" where
  "ilog2 q = (let (n, d) = quotient_of q; k = bitlen n - bitlen d
              in if 2 powi k \<le> q then k else k - 1)"

definition round_even :: "rat \<Rightarrow> int" where
  "round_even q =
     (let f = \<lfloor>q\<rfloor>; r = q - of_int f
      in if r < 1 / 2 then f else if 1 / 2 < r then f + 1 else if even f then f else f + 1)"

definition fround :: "int \<Rightarrow> rat \<Rightarrow> rat" where
  "fround p q =
     (if q = 0 then 0
      else let u = 2 powi (ilog2 \<bar>q\<bar> - (p - 1)) in of_int (round_even (q / u)) * u)"

definition fl32 :: "rat \<Rightarrow> flt" where "fl32 = fround 24"
definition fl64 :: "rat \<Rightarrow> flt" where "fl64 = fround 53"

text \<open>Conversion of a floating-point value to an integer drops the fraction.\<close>

definition ctrunc :: "flt \<Rightarrow> int" where
  "ctrunc q = (if 0 \<le> q then \<lfloor>q\<rfloor> else \<lceil>q\<rceil>)"

text \<open>The product \<open>n * f\<close> of an \<open>int\<close> and a \<open>float\<close>.\<close>

definition imulf :: "int \<Rightarrow> flt \<Rightarrow> flt" where
  "imulf n f = fl32 (fl32 (of_int n) * f)"

text \<open>
  The aspect limits of a client are quotients whose divisor another program chooses: they
  can be infinite or not a number, and are only compared and multiplied.
\<close>

datatype xflt = Fin flt | PInf | NInf | NaN

definition fquot :: "int \<Rightarrow> int \<Rightarrow> xflt" where
  "fquot n d =
     (if d = 0 then (if 0 < n then PInf else if n < 0 then NInf else NaN)
      else Fin (fl32 (fl32 (of_int n) / fl32 (of_int d))))"

fun xless :: "xflt \<Rightarrow> xflt \<Rightarrow> bool" where
  "xless NaN _ = False"
| "xless _ NaN = False"
| "xless (Fin a) (Fin b) = (a < b)"
| "xless NInf NInf = False"
| "xless NInf _ = True"
| "xless (Fin a) PInf = True"
| "xless (Fin a) NInf = False"
| "xless PInf _ = False"

text \<open>\<open>n * a + 0.5\<close> converted to \<open>int\<close>; the code computes it for finite \<open>a\<close> only.\<close>

definition scale_round :: "int \<Rightarrow> xflt \<Rightarrow> int option" where
  "scale_round n a =
     (case a of Fin f \<Rightarrow> Some (ctrunc (fl64 (imulf n f + 1 / 2))) | _ \<Rightarrow> None)"

section \<open>Bits of a tag mask\<close>

text \<open>\<open>for (i = 0; !(w & 1 << i); i++)\<close>: no bit set makes the shift run past the width.\<close>

definition lowbit :: "32 word \<Rightarrow> nat option" where
  "lowbit w = find (\<lambda>i. bit w i) [0..<32]"

text \<open>\<open>while (w >> (i + 1)) i++\<close>, started at 0.\<close>

definition topbit :: "32 word \<Rightarrow> nat" where
  "topbit w = length (takeWhile (\<lambda>i. drop_bit (i + 1) w \<noteq> 0) [0..<32])"

lemma lowbit_Some: "lowbit w = Some i \<Longrightarrow> bit w i \<and> i < 32"
  by (auto simp: lowbit_def dest: find_Some_mem)

lemma lowbit_total: "w \<noteq> 0 \<Longrightarrow> \<exists>i. lowbit w = Some i"
proof -
  assume "w \<noteq> 0"
  then obtain i where i: "bit w i" by (metis bit_eqI bit_0_eq bot_apply bot_bool_def)
  then have "i < 32" using bit_imp_le_length [OF i] by simp
  with i show ?thesis
    by (cases "find (\<lambda>i. bit w i) [0..<32]") (auto simp: lowbit_def find_None_iff)
qed

text \<open>\<open>tagmask n\<close> is \<open>TAGMASK\<close> for \<open>n\<close> tags: \<open>(1 << n) - 1\<close>.\<close>

definition tagmask :: "nat \<Rightarrow> 32 word" where
  "tagmask n = push_bit n 1 - 1"

lemma tagmask_mask: "tagmask n = mask n"
  by (simp add: tagmask_def mask_eq_exp_minus_1 push_bit_of_1)

lemma bit_tagmask [simp]: "bit (tagmask n) i \<longleftrightarrow> i < n \<and> i < 32"
  by (auto simp: tagmask_mask bit_mask_iff)

lemma lowbit_masked: "w AND tagmask n = w \<Longrightarrow> lowbit w = Some i \<Longrightarrow> i < n"
  by (metis bit_and_iff bit_tagmask lowbit_Some)

end
