(* ===== verification/Config.thy ===== *)
theory Config
  imports CArith
begin

text \<open>
  The compile-time configuration (\<open>config.def.h\<close>, copied to \<open>config.h\<close> by the build) and
  the types of \<open>dwm.c\<close> its tables are made of. The window manager is written to be
  recompiled with another configuration, so the operations take it as a record; the record
  \<open>config_def\<close> holds the values of the repository.

  A \<open>Key\<close> or \<open>Button\<close> pairs a function with its \<open>Arg\<close>, a union whose member the function
  knows: such a pair is one constructor of \<open>action\<close> applied to that member. A pointer to an
  entry of \<open>layouts\<close> is its index (\<open>Lt\<close>); \<open>LtFoo\<close> is the local layout of \<open>cleanup\<close>. Key
  symbols are named by the suffix of their \<open>XK_\<close> constant.
\<close>

section \<open>Types of the tables\<close>

datatype (plugins only: code size) arrfn = Tile | Monocle | Grid | Doubledeck | Zetadeck | Bstack | Clear

datatype (plugins only: code size) lptr = Lt nat | LtFoo

record layout =
  symbol :: "string option"
  arrange_fn :: "arrfn option"

record rule =
  r_class :: "string option"
  r_instance :: "string option"
  r_title :: "string option"
  r_tags :: "32 word"
  r_isfloating :: bool
  r_monitor :: int

datatype (plugins only: code size) action =
    Spawn "string list" | Togglebar | Incnmaster int | Resetnmaster "32 word" | Zoom
  | View "32 word" | Killclient "32 word" | Setlayout "lptr option" | Togglefloating
  | Focusmaster | Resetmfact | Togglefullscr | Togglesticky | Swapfocus | Tag "32 word"
  | Setmfact flt | Setsmfact flt | Setgaps int | Focusmon int | Tagmon int | Tagswapmon int
  | Rotatetags int | Rotatestack int | Cyclelayout int | Shiftviewclients int
  | Focusstack int | Fmaximize "32 word" | Setwfact flt | Sethfact flt | Fsnap "32 word"
  | Fdeck "32 word" | Focussame int | Toggleview "32 word" | Swaptag "32 word"
  | Toggletag "32 word" | Quit int | Moveorplace int | Resizemouse | Incfloat int

datatype (plugins only: code size) click = ClkTagBar | ClkLtSymbol | ClkStatusText | ClkWinTitle | ClkClientWin | ClkRootWin

record key =
  k_mod :: "32 word"
  k_keysym :: string
  k_func :: action

record button =
  b_click :: click
  b_mask :: "32 word"
  b_button :: nat
  b_func :: action

text \<open>The modifier bits of the X protocol.\<close>

definition ShiftMask :: "32 word" where "ShiftMask = 1"
definition LockMask :: "32 word" where "LockMask = 2"
definition ControlMask :: "32 word" where "ControlMask = 4"
definition Mod1Mask :: "32 word" where "Mod1Mask = 8"
definition Mod2Mask :: "32 word" where "Mod2Mask = 16"
definition Mod3Mask :: "32 word" where "Mod3Mask = 32"
definition Mod4Mask :: "32 word" where "Mod4Mask = 64"
definition Mod5Mask :: "32 word" where "Mod5Mask = 128"

lemmas modifier_defs = ShiftMask_def LockMask_def ControlMask_def Mod1Mask_def Mod2Mask_def
  Mod3Mask_def Mod4Mask_def Mod5Mask_def

definition GAP_TOGGLE :: int where "GAP_TOGGLE = 100"
definition GAP_RESET :: int where "GAP_RESET = 0"

section \<open>The configuration record\<close>

record config =
  borderpx :: int
  snap :: int
  deftag :: nat
  startwithgaps :: bool
  gappx :: int
  maxgappx :: int
  vertgappx :: int
  showbar :: bool
  topbar :: bool
  barpad :: int
  horizpadbar :: int
  vertpadbar :: int
  focusonwheel :: bool
  viewontag :: bool
  attachmode :: int
  background :: bool
  urgentontag :: bool
  mincellw :: int
  mincellh :: int
  showstatus :: int
  floatoffset :: bool
  centertitle :: bool
  maxtitle :: int
  autoraise :: bool
  minwfact :: flt
  statusfontindex :: nat
  autostart :: "string option list"
  tags :: "string list"
  taglayouts :: "nat list"
  rules :: "rule list"
  mfact :: flt
  smfact :: flt
  dmfact :: flt
  zmfact :: flt
  nmaster :: int
  nmaxmaster :: int
  nminmaster :: int
  resizehints :: bool
  floathints :: bool
  decorhints :: bool
  lockfullscreen :: bool
  refreshrate :: int
  layouts :: "layout list"
  keys :: "key list"
  buttons :: "button list"

definition layouts_def_table :: "layout list" where
  "layouts_def_table =
     [\<lparr>symbol = Some ''[]='', arrange_fn = Some Tile\<rparr>,
      \<lparr>symbol = Some ''><>'', arrange_fn = None\<rparr>,
      \<lparr>symbol = Some ''[M]'', arrange_fn = Some Monocle\<rparr>,
      \<lparr>symbol = Some ''HHH'', arrange_fn = Some Grid\<rparr>,
      \<lparr>symbol = Some ''[D]'', arrange_fn = Some Doubledeck\<rparr>,
      \<lparr>symbol = Some ''[Z]'', arrange_fn = Some Zetadeck\<rparr>,
      \<lparr>symbol = Some ''TTT'', arrange_fn = Some Bstack\<rparr>,
      \<lparr>symbol = Some ''[ ]'', arrange_fn = Some Clear\<rparr>,
      \<lparr>symbol = None, arrange_fn = None\<rparr>]"

definition rules_def_table :: "rule list" where
  "rules_def_table =
     [\<lparr>r_class = Some ''Gimp'', r_instance = None, r_title = None,
       r_tags = 0, r_isfloating = True, r_monitor = -1\<rparr>,
      \<lparr>r_class = Some ''Firefox'', r_instance = None, r_title = None,
       r_tags = push_bit 8 1, r_isfloating = False, r_monitor = -1\<rparr>]"

abbreviation MODKEY :: "32 word" where "MODKEY \<equiv> Mod4Mask"

definition Key :: "32 word \<Rightarrow> string \<Rightarrow> action \<Rightarrow> key" where
  "Key m k f = \<lparr>k_mod = m, k_keysym = k, k_func = f\<rparr>"

text \<open>The macro \<open>TAGKEYS(KEY, TAG)\<close>.\<close>

definition TAGKEYS :: "string \<Rightarrow> nat \<Rightarrow> key list" where
  "TAGKEYS k t =
     [Key MODKEY k (View (push_bit t 1)),
      Key (MODKEY OR ControlMask) k (Toggleview (push_bit t 1)),
      Key (MODKEY OR ShiftMask) k (Tag (push_bit t 1)),
      Key (MODKEY OR Mod1Mask) k (Swaptag (push_bit t 1)),
      Key (MODKEY OR ControlMask OR ShiftMask) k (Toggletag (push_bit t 1))]"

definition termcmd :: "string list" where "termcmd = [''st'']"
definition emacscmd :: "string list" where "emacscmd = [''ec'']"

definition keys_def_table :: "key list" where
  "keys_def_table =
     [Key MODKEY ''c'' (Spawn termcmd),
      Key MODKEY ''e'' (Spawn emacscmd),
      Key (MODKEY OR ShiftMask) ''b'' Togglebar,
      Key MODKEY ''i'' (Incnmaster 1),
      Key MODKEY ''d'' (Incnmaster (-1)),
      Key (MODKEY OR ShiftMask) ''i'' (Resetnmaster 4),
      Key (MODKEY OR ShiftMask) ''d'' (Resetnmaster 0),
      Key MODKEY ''Return'' Zoom,
      Key MODKEY ''Tab'' (View 0),
      Key (MODKEY OR ShiftMask) ''x'' (Killclient 0),
      Key (MODKEY OR ControlMask) ''x'' (Killclient 1),
      Key (MODKEY OR ControlMask OR ShiftMask) ''x'' (Killclient 2),
      Key MODKEY ''t'' (Setlayout (Some (Lt 0))),
      Key MODKEY ''f'' (Setlayout (Some (Lt 1))),
      Key MODKEY ''m'' (Setlayout (Some (Lt 2))),
      Key MODKEY ''g'' (Setlayout (Some (Lt 3))),
      Key MODKEY ''x'' (Setlayout (Some (Lt 4))),
      Key MODKEY ''z'' (Setlayout (Some (Lt 5))),
      Key MODKEY ''b'' (Setlayout (Some (Lt 6))),
      Key MODKEY ''BackSpace'' (Setlayout (Some (Lt 7))),
      Key MODKEY ''space'' (Setlayout None),
      Key (MODKEY OR ShiftMask) ''space'' Togglefloating,
      Key (MODKEY OR ControlMask) ''space'' Focusmaster,
      Key (MODKEY OR ControlMask OR ShiftMask) ''space'' Resetmfact,
      Key MODKEY ''o'' (Setlayout None),
      Key (MODKEY OR ShiftMask) ''o'' Togglefloating,
      Key (MODKEY OR ControlMask) ''o'' Focusmaster,
      Key (MODKEY OR ControlMask OR ShiftMask) ''o'' Resetmfact,
      Key (MODKEY OR ShiftMask) ''f'' Togglefullscr,
      Key (MODKEY OR ShiftMask) ''s'' Togglesticky,
      Key MODKEY ''u'' Swapfocus,
      Key MODKEY ''0'' (View (NOT 0)),
      Key (MODKEY OR ShiftMask) ''0'' (Tag (NOT 0)),
      Key MODKEY ''minus'' (Setmfact (fl32 (- 5 / 100))),
      Key MODKEY ''equal'' (Setmfact (fl32 (5 / 100))),
      Key (MODKEY OR ShiftMask) ''minus'' (Setgaps (-5)),
      Key (MODKEY OR ShiftMask) ''equal'' (Setgaps 5),
      Key (MODKEY OR ControlMask) ''minus'' (Setgaps GAP_RESET),
      Key (MODKEY OR ControlMask) ''equal'' (Setgaps GAP_TOGGLE),
      Key MODKEY ''comma'' (Focusmon (-1)),
      Key MODKEY ''period'' (Focusmon 1),
      Key (MODKEY OR ShiftMask) ''comma'' (Tagmon (-1)),
      Key (MODKEY OR ShiftMask) ''period'' (Tagmon 1),
      Key (MODKEY OR ControlMask) ''comma'' (Tagswapmon (-1)),
      Key (MODKEY OR ControlMask) ''period'' (Tagswapmon 1),
      Key MODKEY ''bracketleft'' (Rotatetags (-1)),
      Key MODKEY ''bracketright'' (Rotatetags 1),
      Key (MODKEY OR ShiftMask) ''bracketleft'' (Rotatestack (-1)),
      Key (MODKEY OR ShiftMask) ''bracketright'' (Rotatestack 1),
      Key (MODKEY OR ControlMask) ''bracketleft'' (Cyclelayout (-1)),
      Key (MODKEY OR ControlMask) ''bracketright'' (Cyclelayout 1),
      Key MODKEY ''h'' (Shiftviewclients (-1)),
      Key MODKEY ''l'' (Shiftviewclients 1),
      Key MODKEY ''j'' (Focusstack 1),
      Key MODKEY ''k'' (Focusstack (-1)),
      Key (MODKEY OR ShiftMask) ''h'' (Setmfact (fl32 (- 5 / 100))),
      Key (MODKEY OR ShiftMask) ''l'' (Setmfact (fl32 (5 / 100))),
      Key (MODKEY OR ShiftMask) ''j'' (Setsmfact (fl32 (5 / 100))),
      Key (MODKEY OR ShiftMask) ''k'' (Setsmfact (fl32 (- 5 / 100))),
      Key (MODKEY OR ShiftMask) ''m'' (Fmaximize 0),
      Key MODKEY ''backslash'' (Fmaximize 1),
      Key (MODKEY OR ShiftMask) ''backslash'' (Fmaximize 2),
      Key (MODKEY OR ControlMask OR ShiftMask) ''h'' (Setwfact (fl32 (- 5 / 100))),
      Key (MODKEY OR ControlMask OR ShiftMask) ''l'' (Setwfact (fl32 (5 / 100))),
      Key (MODKEY OR ControlMask OR ShiftMask) ''j'' (Sethfact (fl32 (5 / 100))),
      Key (MODKEY OR ControlMask OR ShiftMask) ''k'' (Sethfact (fl32 (- 5 / 100))),
      Key (MODKEY OR Mod1Mask) ''h'' (Fsnap 0),
      Key (MODKEY OR Mod1Mask) ''j'' (Fsnap 1),
      Key (MODKEY OR Mod1Mask) ''k'' (Fsnap 2),
      Key (MODKEY OR Mod1Mask) ''l'' (Fsnap 3),
      Key (MODKEY OR ControlMask) ''h'' (Fdeck 0),
      Key (MODKEY OR ControlMask) ''j'' (Fdeck 1),
      Key (MODKEY OR ControlMask) ''k'' (Fdeck 2),
      Key (MODKEY OR ControlMask) ''l'' (Fdeck 3),
      Key MODKEY ''v'' (Focussame 1),
      Key (MODKEY OR ShiftMask) ''v'' (Focussame (-1))]
     @ TAGKEYS ''1'' 0 @ TAGKEYS ''2'' 1 @ TAGKEYS ''3'' 2 @ TAGKEYS ''4'' 3 @ TAGKEYS ''5'' 4
     @ TAGKEYS ''6'' 5 @ TAGKEYS ''7'' 6 @ TAGKEYS ''8'' 7 @ TAGKEYS ''9'' 8
     @ [Key (MODKEY OR ControlMask) ''q'' (Quit 0),
        Key (MODKEY OR ControlMask OR ShiftMask) ''q'' (Quit 1)]"

definition Button :: "click \<Rightarrow> 32 word \<Rightarrow> nat \<Rightarrow> action \<Rightarrow> button" where
  "Button c m b f = \<lparr>b_click = c, b_mask = m, b_button = b, b_func = f\<rparr>"

definition buttons_def_table :: "button list" where
  "buttons_def_table =
     [Button ClkLtSymbol 0 1 (Setlayout None),
      Button ClkLtSymbol 0 3 (Setlayout (Some (Lt 2))),
      Button ClkWinTitle 0 2 Zoom,
      Button ClkStatusText 0 2 (Spawn termcmd),
      Button ClkClientWin MODKEY 1 (Moveorplace 1),
      Button ClkClientWin MODKEY 2 Togglefloating,
      Button ClkClientWin MODKEY 3 Resizemouse,
      Button ClkClientWin (MODKEY OR ShiftMask) 1 (Incfloat 1),
      Button ClkClientWin (MODKEY OR ShiftMask) 3 (Incfloat (-1)),
      Button ClkTagBar 0 1 (View 0),
      Button ClkTagBar 0 3 (Toggleview 0),
      Button ClkTagBar MODKEY 1 (Tag 0),
      Button ClkTagBar MODKEY 3 (Toggletag 0),
      Button ClkTagBar 0 4 (Rotatetags (-1)),
      Button ClkTagBar 0 5 (Rotatetags 1),
      Button ClkTagBar MODKEY 4 (Shiftviewclients (-1)),
      Button ClkTagBar MODKEY 5 (Shiftviewclients 1)]"

definition config_def :: config where
  "config_def =
     \<lparr>borderpx = 1, snap = 32, deftag = 1, startwithgaps = True, gappx = 5, maxgappx = 50,
      vertgappx = 4, showbar = False, topbar = True, barpad = 8, horizpadbar = 4,
      vertpadbar = 0, focusonwheel = False, viewontag = True, attachmode = 0,
      background = True, urgentontag = False, mincellw = 200, mincellh = 120,
      showstatus = 2, floatoffset = True, centertitle = True, maxtitle = 75,
      autoraise = False, minwfact = 2, statusfontindex = 0,
      autostart = [Some ''dwmstatus'', None, None],
      tags = [''1'', ''2'', ''3'', ''4'', ''5'', ''6'', ''7'', ''8'', ''9''],
      taglayouts = [2, 2, 0, 0, 0, 0, 0, 0, 0],
      rules = rules_def_table,
      mfact = fl32 (55 / 100), smfact = 0, dmfact = fl32 (1 / 2), zmfact = fl32 (1 / 2),
      nmaster = 1, nmaxmaster = 4, nminmaster = 0,
      resizehints = False, floathints = False, decorhints = True, lockfullscreen = True,
      refreshrate = 120,
      layouts = layouts_def_table, keys = keys_def_table, buttons = buttons_def_table\<rparr>"

definition ntags :: "config \<Rightarrow> nat" where
  "ntags cf = length (tags cf)"

definition TAGMASK :: "config \<Rightarrow> 32 word" where
  "TAGMASK cf = tagmask (ntags cf)"

text \<open>\<open>deref_layout\<close> follows a \<open>Layout *\<close>; an index past the table is no object.\<close>

definition deref_layout :: "config \<Rightarrow> lptr \<Rightarrow> layout option" where
  "deref_layout cf l =
     (case l of
        Lt i \<Rightarrow> if i < length (layouts cf) then Some (layouts cf ! i) else None
      | LtFoo \<Rightarrow> Some \<lparr>symbol = Some '''', arrange_fn = None\<rparr>)"

text \<open>
  The static requirements on a configuration: between 1 and 31 tags (the code refuses more
  at compile time, \<open>struct NumTags\<close>), one entry of \<open>taglayouts\<close> per tag, at least two
  layouts before the terminating entry, each with a symbol, room for the dots of a
  truncated title, cells with a height, and a gap within its bounds.
\<close>

definition config_ok :: "config \<Rightarrow> bool" where
  "config_ok cf \<longleftrightarrow>
     0 < ntags cf \<and> ntags cf \<le> 31 \<and> length (taglayouts cf) = ntags cf \<and> 1 \<le> deftag cf \<and>
     3 \<le> length (layouts cf) \<and>
     (\<forall>l \<in> set (butlast (layouts cf)). symbol l \<noteq> None) \<and>
     symbol (last (layouts cf)) = None \<and>
     (\<forall>i \<in> set (taglayouts cf). i < length (layouts cf) - 1) \<and>
     (maxtitle cf \<le> 0 \<or> 6 \<le> maxtitle cf) \<and>
     0 < mincellh cf \<and> 0 \<le> gappx cf \<and> gappx cf \<le> maxgappx cf"

text \<open>
  A screen must be high enough for one row of \<open>grid\<close> between the largest gaps, below a bar
  of height \<open>b\<close>: with no row \<open>grid\<close> divides by zero.
\<close>

definition screen_ok :: "config \<Rightarrow> int \<Rightarrow> int \<Rightarrow> bool" where
  "screen_ok cf b h \<longleftrightarrow> 0 \<le> b \<and> b + mincellh cf + 2 * maxgappx cf \<le> h \<and> h < 2147483648"

lemma config_def_ok: "config_ok config_def"
  by (simp add: config_ok_def config_def_def ntags_def layouts_def_table_def)

lemma ntags_config_def [simp]: "ntags config_def = 9"
  by (simp add: ntags_def config_def_def)

end
