(* ===== verification/Text.thy ===== *)
theory Text
  imports CArith
begin

text \<open>
  Strings of bytes: the C string functions the code uses, \<open>utf8trunc\<close> of \<open>util.c\<close> and
  \<open>utf8decode\<close> of \<open>drw.c\<close>. A C string is the list of its bytes without the terminating
  zero, which \<open>cbyte\<close> reads behind the last byte.

  \<open>utf8trunc\<close> backs up over continuation bytes and then writes three dots before the place
  it stopped at; \<open>title_ok\<close> (no four continuation bytes in a row, as in any UTF-8 or ASCII
  text) is what keeps those writes inside the buffer. \<open>utf8decode\<close> is shown to accept
  exactly the encodings of the Unicode scalar values.
\<close>

section \<open>C strings\<close>

definition cstr :: "string \<Rightarrow> string" where
  "cstr t = takeWhile (\<lambda>ch. ch \<noteq> CHR 0x00) t"

text \<open>\<open>strncpy(dst, src, n)\<close> into a zeroed buffer of \<open>n + 1\<close> characters.\<close>

definition strncpy :: "nat \<Rightarrow> string \<Rightarrow> string" where
  "strncpy n t = take n (cstr t)"

definition cbyte :: "string \<Rightarrow> nat \<Rightarrow> nat" where
  "cbyte t i = (if i < length t then of_char (t ! i) else 0)"

text \<open>\<open>strstr(t, p) != NULL\<close>\<close>

fun strstr :: "string \<Rightarrow> string \<Rightarrow> bool" where
  "strstr [] p = (p = [])"
| "strstr (ch # t) p = (take (length p) (ch # t) = p \<or> strstr t p)"

text \<open>The conversion \<open>%d\<close> of a number that is not negative.\<close>

fun dec :: "nat \<Rightarrow> string" where
  "dec n = (if n < 10 then [char_of (48 + n)] else dec (n div 10) @ [char_of (48 + n mod 10)])"

declare dec.simps [simp del]

text \<open>The conversion \<open>%d\<close>.\<close>

definition decint :: "int \<Rightarrow> string" where
  "decint i = (if i < 0 then ''-'' @ dec (nat (- i)) else dec (nat i))"

section \<open>Truncation\<close>

definition is_cont :: "nat \<Rightarrow> bool" where
  "is_cont b \<longleftrightarrow> b AND 0xC0 = 0x80"

text \<open>\<open>while (pos > 0 && (s[pos] & 0xC0) == 0x80) pos--;\<close>\<close>

fun back_up :: "string \<Rightarrow> nat \<Rightarrow> nat" where
  "back_up t 0 = 0"
| "back_up t (Suc p) = (if is_cont (cbyte t (Suc p)) then back_up t p else Suc p)"

definition utf8trunc :: "nat \<Rightarrow> string \<Rightarrow> string option" where
  "utf8trunc bytes t =
     (if bytes = 0 \<or> length t \<le> bytes then Some t
      else let pos = back_up t bytes
           in if pos < 3 then None else Some (take (pos - 3) t @ ''...''))"

definition title_ok :: "string \<Rightarrow> bool" where
  "title_ok t \<longleftrightarrow>
     (\<forall>i. is_cont (cbyte t i) \<and> is_cont (cbyte t (i + 1)) \<and> is_cont (cbyte t (i + 2))
        \<longrightarrow> \<not> is_cont (cbyte t (i + 3)))"

lemma not_cont_0 [simp]: "\<not> is_cont 0"
  by (simp add: is_cont_def)

lemma title_ok_Nil [simp]: "title_ok ''''"
  by (simp add: title_ok_def cbyte_def)

lemma title_ok_take: "title_ok t \<Longrightarrow> title_ok (take n t)"
proof -
  have "is_cont (cbyte (take n t) i) \<Longrightarrow> is_cont (cbyte t i)" for i
    by (cases "i < length (take n t)") (auto simp: cbyte_def)
  moreover assume "title_ok t"
  ultimately show ?thesis unfolding title_ok_def by blast
qed

lemma title_ok_plain: "(\<And>x. x \<in> set t \<Longrightarrow> \<not> is_cont (of_char x)) \<Longrightarrow> title_ok t"
  by (auto simp: title_ok_def cbyte_def)

lemma cstr_take: "\<exists>n. cstr t = take n t"
  unfolding cstr_def by (metis takeWhile_eq_take)

lemma title_ok_strncpy: "title_ok t \<Longrightarrow> title_ok (strncpy n t)"
  unfolding strncpy_def using cstr_take title_ok_take by metis

lemma back_up_le: "back_up t b \<le> b"
  by (induction b) auto

lemma back_up_bound:
  assumes "title_ok t"
  shows "b \<le> back_up t b + 3"
proof (cases "b < 4")
  case False
  define p where "p = b - 4"
  with False have b: "b = Suc (Suc (Suc (Suc p)))" by simp
  have "\<not> (is_cont (cbyte t (Suc p)) \<and> is_cont (cbyte t (Suc (Suc p)))
      \<and> is_cont (cbyte t (Suc (Suc (Suc p)))) \<and> is_cont (cbyte t b))"
    using assms [unfolded title_ok_def, rule_format, of "Suc p"] b
    by (auto simp: eval_nat_numeral)
  then show ?thesis using b by auto
qed simp

lemma utf8trunc_total:
  assumes "title_ok t" "6 \<le> b"
  shows "\<exists>t'. utf8trunc b t = Some t'"
  using back_up_bound [OF assms(1), of b] assms(2) by (auto simp: utf8trunc_def Let_def)

lemma cont_dots: "is_cont (cbyte (t @ ''...'') i) \<Longrightarrow> is_cont (cbyte t i)"
proof (cases "i < length t")
  case True
  then show "is_cont (cbyte (t @ ''...'') i) \<Longrightarrow> is_cont (cbyte t i)"
    by (simp add: cbyte_def nth_append)
next
  case False
  have "\<not> is_cont (cbyte ''...'' j)" for j
    by (cases j rule: nat.exhaust; cases "j - 1"; cases "j - 2")
      (auto simp: cbyte_def is_cont_def nth_Cons split: nat.split)
  moreover have "cbyte (t @ ''...'') i = cbyte ''...'' (i - length t)"
    using False by (auto simp: cbyte_def nth_append)
  ultimately show "is_cont (cbyte (t @ ''...'') i) \<Longrightarrow> is_cont (cbyte t i)" by simp
qed

lemma title_ok_dots: "title_ok t \<Longrightarrow> title_ok (t @ ''...'')"
  using cont_dots unfolding title_ok_def by blast

lemma utf8trunc_title_ok: "utf8trunc b t = Some t' \<Longrightarrow> title_ok t \<Longrightarrow> title_ok t'"
  by (auto simp: utf8trunc_def Let_def split: if_splits intro: title_ok_dots title_ok_take)

lemma utf8trunc_length: "utf8trunc b t = Some t' \<Longrightarrow> 0 < b \<Longrightarrow> length t' \<le> b"
  using back_up_le [of t b] by (auto simp: utf8trunc_def Let_def split: if_splits)

section \<open>Decoding\<close>

text \<open>The table \<open>lens\<close>, indexed by the five high bits of the leading byte.\<close>

definition lens :: "nat list" where
  "lens = [1, 1, 1, 1, 1, 1, 1, 1, 1, 1, 1, 1, 1, 1, 1, 1,
           0, 0, 0, 0, 0, 0, 0, 0, 2, 2, 2, 2, 3, 3, 4, 0]"

definition leading_mask :: "nat list" where
  "leading_mask = [0x7F, 0x1F, 0x0F, 0x07]"

definition overlong :: "nat list" where
  "overlong = [0x0, 0x80, 0x0800, 0x10000]"

definition UTF_INVALID :: nat where "UTF_INVALID = 0xFFFD"

text \<open>The loop over the continuation bytes: the index of a bad one, or the code point.\<close>

fun decode_rest :: "string \<Rightarrow> nat list \<Rightarrow> nat \<Rightarrow> nat + nat" where
  "decode_rest t [] cp = Inr cp"
| "decode_rest t (i # is) cp =
     (if cbyte t i = 0 \<or> cbyte t i AND 0xC0 \<noteq> 0x80 then Inl i
      else decode_rest t is (push_bit 6 cp OR (cbyte t i AND 0x3F)))"

text \<open>The returned length, the code point and the error flag.\<close>

definition utf8decode :: "string \<Rightarrow> nat \<times> nat \<times> bool" where
  "utf8decode t =
     (let len = lens ! (drop_bit 3 (cbyte t 0))
      in if len = 0 then (1, UTF_INVALID, True)
         else case decode_rest t [1..<len] (cbyte t 0 AND leading_mask ! (len - 1)) of
                Inl i \<Rightarrow> (i, UTF_INVALID, True)
              | Inr cp \<Rightarrow>
                  if cp > 0x10FFFF \<or> drop_bit 11 cp = 0x1B \<or> cp < overlong ! (len - 1)
                  then (len, UTF_INVALID, True)
                  else (len, cp, False))"

text \<open>
  The specification: the encoding of a code point, and the code points that have one, which
  are the Unicode scalar values.
\<close>

definition scalar :: "nat \<Rightarrow> bool" where
  "scalar cp \<longleftrightarrow> cp \<le> 0x10FFFF \<and> \<not> (0xD800 \<le> cp \<and> cp \<le> 0xDFFF)"

definition encode_bytes :: "nat \<Rightarrow> nat list" where
  "encode_bytes cp =
     (if cp < 0x80 then [cp]
      else if cp < 0x800 then [0xC0 + cp div 64, 0x80 + cp mod 64]
      else if cp < 0x10000 then [0xE0 + cp div 4096, 0x80 + cp div 64 mod 64, 0x80 + cp mod 64]
      else [0xF0 + cp div 262144, 0x80 + cp div 4096 mod 64, 0x80 + cp div 64 mod 64,
            0x80 + cp mod 64])"

definition utf8_encode :: "nat \<Rightarrow> string" where
  "utf8_encode cp = map char_of (encode_bytes cp)"

section \<open>The bit operations of the decoder in arithmetic\<close>

lemma cbyte_less: "cbyte t i < 256"
proof (cases "i < length t")
  case True
  have "of_char (t ! i) < (256 :: nat)" by (cases "t ! i") (simp add: of_char_def)
  with True show ?thesis by (simp add: cbyte_def)
qed (simp add: cbyte_def)

lemma and_low: "(b :: nat) AND (2 ^ n - 1) = b mod 2 ^ n"
  by (metis mask_eq_exp_minus_1 take_bit_eq_mask take_bit_eq_mod)

lemma and_masks: "(b :: nat) AND 0x7F = b mod 128" "b AND 0x1F = b mod 32" "b AND 0x0F = b mod 16"
  "b AND 0x07 = b mod 8" "b AND 0x3F = b mod 64"
  using and_low [of b 7] and_low [of b 5] and_low [of b 4] and_low [of b 3] and_low [of b 6]
  by simp_all

lemma and_push: "(b :: nat) AND push_bit n c = push_bit n (drop_bit n b AND c)"
  by (auto simp: bit_eq_iff bit_simps)

lemma and_top: "(b :: nat) AND 0xC0 = b div 64 mod 4 * 64"
  using and_push [of b 6 3] and_low [of "drop_bit 6 b" 2]
  by (simp add: push_bit_eq_mult drop_bit_eq_div)

lemma cont_byte: "b < 256 \<Longrightarrow> (b AND 0xC0 = (0x80 :: nat)) = (128 \<le> b \<and> b < 192)"
  unfolding and_top by auto

lemma shift_or: "x < 64 \<Longrightarrow> push_bit 6 cp OR x = cp * 64 + (x :: nat)"
proof -
  assume "x < 64"
  then have "x = take_bit 6 x" by (simp add: take_bit_eq_mod)
  then have "\<not> bit x n" if "6 \<le> n" for n using that by (metis bit_take_bit_iff not_le)
  then have "push_bit 6 cp + x = push_bit 6 cp OR x"
    by (intro disjunctive_add_eq_or) (auto simp: bit_eq_iff bit_simps)
  then show ?thesis by (simp add: push_bit_eq_mult)
qed

lemma lens_table: "\<forall>k \<in> set [0..<32]. lens ! k =
    (if k < 16 then 1 else if k < 24 then 0 else if k < 28 then 2 else if k < 30 then 3
     else if k < 31 then 4 else 0)"
  by code_simp

lemma lens_byte: "b < 256 \<Longrightarrow> lens ! (drop_bit 3 b) =
    (if b < 128 then 1 else if b < 192 then 0 else if b < 224 then 2
     else if b < 240 then 3 else if b < 248 then 4 else 0)"
  using lens_table by (auto simp: drop_bit_eq_div)

lemma mod_sub: "m * k \<le> x \<Longrightarrow> x < m * k + m \<Longrightarrow> x mod m = x - m * (k :: nat)"
  by (rule mod_nat_eqI) auto

lemma digit: "y < 64 \<Longrightarrow> (x * 64 + y) div 64 = (x :: nat)" "y < 64 \<Longrightarrow> (x * 64 + y) mod 64 = (y :: nat)"
  by simp_all

lemma div_digits: "cp div 4096 = cp div 64 div (64 :: nat)" "cp div 262144 = cp div 64 div 64 div (64 :: nat)"
  by (simp_all flip: div_mult2_eq)

lemma join_digits: "cp div 64 * 64 + cp mod 64 = (cp :: nat)"
  by simp

text \<open>The loop in arithmetic, and \<open>utf8decode\<close> by the class of the leading byte.\<close>

lemma decode_rest_step:
  "decode_rest t (i # is) cp =
     (if 128 \<le> cbyte t i \<and> cbyte t i < 192
      then decode_rest t is (cp * 64 + (cbyte t i - 128)) else Inl i)"
proof -
  have "cbyte t i mod 64 = cbyte t i - 128" if "128 \<le> cbyte t i" "cbyte t i < 192"
    using mod_sub [of 64 2 "cbyte t i"] that by simp
  then show ?thesis
    using cont_byte [OF cbyte_less, of t i] shift_or [of "cbyte t i mod 64" cp]
    by (auto simp: and_masks)
qed

declare decode_rest.simps(2) [simp del]

lemma rest_upt: "[1..<1] = []" "[1..<2] = [1]" "[1..<3] = [1, 2]" "[1..<4] = [1, 2, 3]"
  by (simp_all add: upt_rec)

definition bad_point :: "nat \<Rightarrow> nat \<Rightarrow> bool" where
  "bad_point len cp \<longleftrightarrow> \<not> scalar cp \<or> cp < overlong ! (len - 1)"

lemma decode_len:
  assumes "lens ! (drop_bit 3 (cbyte t 0)) = len" "len \<noteq> 0"
  shows "utf8decode t =
    (case decode_rest t [1..<len] (cbyte t 0 AND leading_mask ! (len - 1)) of
       Inl i \<Rightarrow> (i, UTF_INVALID, True)
     | Inr cp \<Rightarrow> if bad_point len cp then (len, UTF_INVALID, True) else (len, cp, False))"
proof -
  have "bad_point len cp = (cp > 0x10FFFF \<or> drop_bit 11 cp = 0x1B \<or> cp < overlong ! (len - 1))" for cp
    by (auto simp: bad_point_def scalar_def drop_bit_eq_div)
  then show ?thesis
    using assms by (simp add: utf8decode_def Let_def split: sum.split)
qed

lemma masks: "leading_mask ! 0 = 0x7F" "leading_mask ! Suc 0 = 0x1F" "leading_mask ! 2 = 0x0F" "leading_mask ! 3 = 0x07"
  "overlong ! 0 = 0" "overlong ! Suc 0 = 0x80" "overlong ! 2 = 0x800" "overlong ! 3 = 0x10000"
  by (simp_all add: leading_mask_def overlong_def)

text \<open>The four lengths, and the leading bytes that no encoding has.\<close>

lemma decode_1:
  assumes "cbyte t 0 < 128"
  shows "utf8decode t = (1, cbyte t 0, False)"
  using assms decode_len [of t 1]
  by (simp add: lens_byte cbyte_less masks and_masks bad_point_def scalar_def)

lemma decode_bad:
  assumes "128 \<le> cbyte t 0 \<and> cbyte t 0 < 192 \<or> 248 \<le> cbyte t 0"
  shows "utf8decode t = (1, UTF_INVALID, True)"
proof -
  have "lens ! (drop_bit 3 (cbyte t 0)) = 0"
    using assms by (subst lens_byte [OF cbyte_less]) auto
  then show ?thesis by (simp add: utf8decode_def Let_def)
qed

lemma decode_more:
  assumes "192 \<le> cbyte t 0" "cbyte t 0 < 248"
  shows "cbyte t 0 < 224 \<Longrightarrow> utf8decode t =
      (case decode_rest t [1] (cbyte t 0 - 192) of Inl i \<Rightarrow> (i, UTF_INVALID, True)
       | Inr cp \<Rightarrow> if bad_point 2 cp then (2, UTF_INVALID, True) else (2, cp, False))"
    "224 \<le> cbyte t 0 \<Longrightarrow> cbyte t 0 < 240 \<Longrightarrow> utf8decode t =
      (case decode_rest t [1, 2] (cbyte t 0 - 224) of Inl i \<Rightarrow> (i, UTF_INVALID, True)
       | Inr cp \<Rightarrow> if bad_point 3 cp then (3, UTF_INVALID, True) else (3, cp, False))"
    "240 \<le> cbyte t 0 \<Longrightarrow> utf8decode t =
      (case decode_rest t [1, 2, 3] (cbyte t 0 - 240) of Inl i \<Rightarrow> (i, UTF_INVALID, True)
       | Inr cp \<Rightarrow> if bad_point 4 cp then (4, UTF_INVALID, True) else (4, cp, False))"
proof -
  let ?b = "cbyte t 0"
  have m: "?b < 224 \<Longrightarrow> ?b mod 32 = ?b - 192" "224 \<le> ?b \<Longrightarrow> ?b < 240 \<Longrightarrow> ?b mod 16 = ?b - 224"
    "240 \<le> ?b \<Longrightarrow> ?b mod 8 = ?b - 240"
    using assms mod_sub [of 32 6 ?b] mod_sub [of 16 14 ?b] mod_sub [of 8 30 ?b] by simp_all
  show "?b < 224 \<Longrightarrow> utf8decode t =
      (case decode_rest t [1] (?b - 192) of Inl i \<Rightarrow> (i, UTF_INVALID, True)
       | Inr cp \<Rightarrow> if bad_point 2 cp then (2, UTF_INVALID, True) else (2, cp, False))"
    using assms m(1) lens_byte [OF cbyte_less, of t 0] decode_len [of t 2]
    by (simp add: masks and_masks rest_upt del: One_nat_def)
  show "224 \<le> ?b \<Longrightarrow> ?b < 240 \<Longrightarrow> utf8decode t =
      (case decode_rest t [1, 2] (?b - 224) of Inl i \<Rightarrow> (i, UTF_INVALID, True)
       | Inr cp \<Rightarrow> if bad_point 3 cp then (3, UTF_INVALID, True) else (3, cp, False))"
    using assms m(2) lens_byte [OF cbyte_less, of t 0] decode_len [of t 3]
    by (simp add: masks and_masks rest_upt del: One_nat_def)
  show "240 \<le> ?b \<Longrightarrow> utf8decode t =
      (case decode_rest t [1, 2, 3] (?b - 240) of Inl i \<Rightarrow> (i, UTF_INVALID, True)
       | Inr cp \<Rightarrow> if bad_point 4 cp then (4, UTF_INVALID, True) else (4, cp, False))"
    using assms m(3) lens_byte [OF cbyte_less, of t 0] decode_len [of t 4]
    by (simp add: masks and_masks rest_upt del: One_nat_def)
qed

section \<open>Decoding inverts encoding\<close>

lemma length_utf8_encode: "length (utf8_encode cp) = length (encode_bytes cp)"
  by (simp add: utf8_encode_def)

lemma encode_bytes_less: "cp \<le> 0x10FFFF \<Longrightarrow> b \<in> set (encode_bytes cp) \<Longrightarrow> b < 256"
  by (auto simp: encode_bytes_def split: if_splits)

lemma cbyte_encode:
  assumes "cp \<le> 0x10FFFF" "i < length (encode_bytes cp)"
  shows "cbyte (utf8_encode cp @ r) i = encode_bytes cp ! i"
proof -
  have "encode_bytes cp ! i < 256" using assms encode_bytes_less by simp
  then show ?thesis using assms(2) by (simp add: cbyte_def utf8_encode_def nth_append)
qed

lemma decode_bytes:
  assumes S: "scalar cp" and b: "\<And>i. i < length (encode_bytes cp) \<Longrightarrow> cbyte t i = encode_bytes cp ! i"
  shows "utf8decode t = (length (encode_bytes cp), cp, False)"
proof -
  consider "cp < 0x80" | "0x80 \<le> cp" "cp < 0x800" | "0x800 \<le> cp" "cp < 0x10000"
    | "0x10000 \<le> cp" "cp \<le> 0x10FFFF"
    using S by (fastforce simp: scalar_def)
  then show ?thesis
  proof cases
    case 1
    then show ?thesis using b [of 0] decode_1 [of t] by (simp add: encode_bytes_def)
  next
    case 2
    then have "cbyte t 0 = 0xC0 + cp div 64" "cbyte t 1 = 0x80 + cp mod 64" "cp div 64 < 32"
      using b [of 0] b [of 1] by (auto simp: encode_bytes_def)
    then show ?thesis
      using 2 S decode_more(1) [of t]
      by (simp add: decode_rest_step bad_point_def masks encode_bytes_def del: One_nat_def)
  next
    case 3
    then have "cbyte t 0 = 0xE0 + cp div 4096" "cbyte t 1 = 0x80 + cp div 64 mod 64"
      "cbyte t 2 = 0x80 + cp mod 64" "cp div 4096 < 16"
      using b [of 0] b [of 1] b [of 2] by (auto simp: encode_bytes_def)
    moreover have "(cp div 4096 * 64 + cp div 64 mod 64) * 64 + cp mod 64 = cp"
      by (simp only: div_digits join_digits)
    ultimately show ?thesis
      using 3 S decode_more(2) [of t]
      by (simp add: decode_rest_step bad_point_def masks encode_bytes_def del: One_nat_def)
  next
    case 4
    then have "cbyte t 0 = 0xF0 + cp div 262144" "cbyte t 1 = 0x80 + cp div 4096 mod 64"
      "cbyte t 2 = 0x80 + cp div 64 mod 64" "cbyte t 3 = 0x80 + cp mod 64" "cp div 262144 < 8"
      using b [of 0] b [of 1] b [of 2] b [of 3] by (auto simp: encode_bytes_def)
    moreover have "((cp div 262144 * 64 + cp div 4096 mod 64) * 64 + cp div 64 mod 64) * 64 + cp mod 64 = cp"
      by (simp only: div_digits join_digits)
    ultimately show ?thesis
      using 4 S decode_more(3) [of t]
      by (simp add: decode_rest_step bad_point_def masks encode_bytes_def del: One_nat_def)
  qed
qed

lemma decode_encoded:
  "scalar cp \<Longrightarrow> utf8decode (utf8_encode cp @ r) = (length (encode_bytes cp), cp, False)"
  by (rule decode_bytes) (simp_all add: cbyte_encode scalar_def)

lemma all_less_4: "(\<forall>i < 4 :: nat. P i) \<longleftrightarrow> P 0 \<and> P 1 \<and> P 2 \<and> P 3"
proof -
  have "i = 0 \<or> i = 1 \<or> i = 2 \<or> i = 3" if "i < 4" for i :: nat using that by linarith
  then show ?thesis by auto
qed

lemma decode_exact:
  assumes "utf8decode t = (n, cp, False)"
  shows "scalar cp \<and> n = length (encode_bytes cp) \<and> (\<forall>i < n. cbyte t i = encode_bytes cp ! i)"
proof -
  let ?b = "cbyte t 0"
  consider "?b < 128" | "128 \<le> ?b \<and> ?b < 192 \<or> 248 \<le> ?b" | "192 \<le> ?b" "?b < 224"
    | "224 \<le> ?b" "?b < 240" | "240 \<le> ?b" "?b < 248" by linarith
  then show ?thesis
  proof cases
    case 1
    then show ?thesis using assms decode_1 [of t] by (auto simp: scalar_def encode_bytes_def)
  next
    case 2
    then show ?thesis using assms decode_bad [of t] by auto
  next
    case 3
    then have d: "decode_rest t [1] (?b - 192) = Inr cp" "n = 2" "\<not> bad_point 2 cp"
      using assms decode_more(1) [of t] by (auto split: sum.splits if_splits)
    then have c: "128 \<le> cbyte t 1" "cbyte t 1 < 192"
      by (auto simp: decode_rest_step split: if_splits)
    have cp: "cp = (?b - 192) * 64 + (cbyte t 1 - 128)"
      using d(1) by (simp only: decode_rest_step decode_rest.simps(1) c simp_thms if_True sum.inject)
    have n: "n = 2" "scalar cp" "128 \<le> cp" using d(2,3) by (simp_all add: bad_point_def masks)
    define x y1 where xy: "x = ?b - 192" "y1 = cbyte t 1 - 128"
    have "x < 32" "y1 < 64" using 3 c by (simp_all add: xy)
    then have "cp div 64 = x" "cp mod 64 = y1" "cp < 2048"
      using cp [folded xy] by simp_all
    then show ?thesis
      using n 3 c xy by (auto simp: encode_bytes_def less_Suc_eq numeral_2_eq_2)
  next
    case 4
    then have d: "decode_rest t [1, 2] (?b - 224) = Inr cp" "n = 3" "\<not> bad_point 3 cp"
      using assms decode_more(2) [of t] by (auto split: sum.splits if_splits)
    then have c: "128 \<le> cbyte t 1" "cbyte t 1 < 192" "128 \<le> cbyte t 2" "cbyte t 2 < 192"
      by (auto simp: decode_rest_step split: if_splits)
    have cp: "cp = ((?b - 224) * 64 + (cbyte t 1 - 128)) * 64 + (cbyte t 2 - 128)"
      using d(1) by (simp only: decode_rest_step decode_rest.simps(1) c simp_thms if_True sum.inject)
    have n: "n = 3" "scalar cp" "2048 \<le> cp" using d(2,3) by (simp_all add: bad_point_def masks)
    define x y1 y2 where xy: "x = ?b - 224" "y1 = cbyte t 1 - 128" "y2 = cbyte t 2 - 128"
    have "x < 16" "y1 < 64" "y2 < 64" using 4 c by (simp_all add: xy)
    moreover from this have "cp div 4096 = x" "cp div 64 mod 64 = y1" "cp mod 64 = y2"
      by (simp_all only: cp [folded xy] div_digits digit)
    moreover have "cp < 65536" using calculation cp [folded xy] by simp
    ultimately show ?thesis
      using n 4 c xy by (auto simp: encode_bytes_def less_Suc_eq numeral_3_eq_3 numeral_2_eq_2)
  next
    case 5
    then have d: "decode_rest t [1, 2, 3] (?b - 240) = Inr cp" "n = 4" "\<not> bad_point 4 cp"
      using assms decode_more(3) [of t] by (auto split: sum.splits if_splits)
    then have c: "128 \<le> cbyte t 1" "cbyte t 1 < 192" "128 \<le> cbyte t 2" "cbyte t 2 < 192"
        "128 \<le> cbyte t 3" "cbyte t 3 < 192"
      by (auto simp: decode_rest_step split: if_splits)
    have cp: "cp = (((?b - 240) * 64 + (cbyte t 1 - 128)) * 64 + (cbyte t 2 - 128)) * 64
        + (cbyte t 3 - 128)"
      using d(1) by (simp only: decode_rest_step decode_rest.simps(1) c simp_thms if_True sum.inject)
    have n: "n = 4" "scalar cp" "65536 \<le> cp" using d(2,3) by (simp_all add: bad_point_def masks)
    define x y1 y2 y3 where xy: "x = ?b - 240" "y1 = cbyte t 1 - 128" "y2 = cbyte t 2 - 128"
      "y3 = cbyte t 3 - 128"
    have "x < 8" "y1 < 64" "y2 < 64" "y3 < 64" using 5 c by (simp_all add: xy)
    then have "cp div 262144 = x" "cp div 4096 mod 64 = y1" "cp div 64 mod 64 = y2" "cp mod 64 = y3"
      by (simp_all only: cp [folded xy] div_digits digit)
    then show ?thesis
      using n 5 c xy
      by (simp add: encode_bytes_def all_less_4)
  qed
qed

section \<open>Properties\<close>



text \<open>
  C36: The first bytes of a longer text may all be continuation bytes, which any client can
  set as its title: then the dots are written before the start of the buffer.
\<close>

theorem utf8trunc_overrun:
  assumes "0 < b" "b < length t" "\<And>i. 3 \<le> i \<Longrightarrow> i \<le> b \<Longrightarrow> is_cont (cbyte t i)"
  shows "utf8trunc b t = None"
proof -
  have "back_up t n < 3" if "n \<le> b" for n
    using that
  proof (induction n)
    case (Suc n)
    then show ?case using assms(3) [of "Suc n"] by (cases "3 \<le> Suc n") auto
  qed simp
  then show ?thesis using assms(1,2) by (simp add: utf8trunc_def Let_def)
qed

theorem utf8trunc_overrun_witness: "utf8trunc 75 (replicate 80 (CHR 0x80)) = None"
  by (rule utf8trunc_overrun) (simp_all add: cbyte_def is_cont_def)

text \<open>
  C33: Decoding inverts encoding: at the start of the encoding of a Unicode scalar value,
  followed by any text, \<open>utf8decode\<close> yields that value and the length of its encoding.
\<close>

theorem utf8decode_encode:
  assumes "scalar cp"
  shows "utf8decode (utf8_encode cp @ r) = (length (utf8_encode cp), cp, False)"
  using decode_encoded [OF assms] by (simp add: length_utf8_encode)

theorem utf8decode_encode_witness:
  "utf8decode (utf8_encode 0x20AC @ ''x'') = (length (utf8_encode 0x20AC), 0x20AC, False)"
  by (rule utf8decode_encode) (simp add: scalar_def)

text \<open>
  C34: \<open>utf8decode\<close> accepts nothing else: when it reports no error, the value is a Unicode
  scalar value and the bytes it read are exactly the (shortest) encoding of that value.
  Overlong forms, surrogates and values past the range are refused.
\<close>

theorem utf8decode_accepts:
  assumes "utf8decode t = (n, cp, False)" "t \<noteq> []"
  shows "scalar cp \<and> take n t = utf8_encode cp"
proof -
  note D = decode_exact [OF assms(1)]
  have "n \<le> length t"
  proof (rule ccontr)
    assume n: "\<not> n \<le> length t"
    then have "cbyte t (length t) = encode_bytes cp ! length t" using D by auto
    then have "encode_bytes cp ! length t = 0" by (simp add: cbyte_def)
    moreover have "length t < length (encode_bytes cp)" "0 < length t" using D n assms(2) by auto
    ultimately show False
      by (auto simp: encode_bytes_def less_Suc_eq numeral_2_eq_2 numeral_3_eq_3 split: if_splits)
  qed
  moreover have "t ! i = utf8_encode cp ! i" if "i < n" for i
  proof -
    have "of_char (t ! i) = encode_bytes cp ! i"
      using D that \<open>n \<le> length t\<close> by (auto simp: cbyte_def)
    then show ?thesis
      using D that by (simp add: utf8_encode_def) (metis char_of_char)
  qed
  ultimately show ?thesis
    using D by (auto simp: list_eq_iff_nth_eq length_utf8_encode)
qed

theorem utf8decode_accepts_witness:
  "scalar 0xE9 \<and> take 2 (utf8_encode 0xE9 @ ''A'') = utf8_encode 0xE9"
proof (rule utf8decode_accepts)
  have "utf8decode (utf8_encode 0xE9 @ ''A'') = (length (encode_bytes 0xE9), 0xE9, False)"
    by (rule decode_encoded) (simp add: scalar_def)
  then show "utf8decode (utf8_encode 0xE9 @ ''A'') = (2, 0xE9, False)"
    by (simp add: encode_bytes_def)
qed simp

end
