(* ===== verification/XProto.thy ===== *)
theory XProto
  imports Config Text
begin

text \<open>
  The X server as the window manager sees it. Xlib, Xinerama and Xft are not part of the
  repository: a request the code sends is recorded in a log (\<open>xreq\<close>, in the order it is
  sent, with the arguments the code passes), and an answer it asks for is a field of the
  environment \<open>xenv\<close>, an arbitrary function of the log so far and of the arguments of the
  query. The answer to a query may change whenever a request has been sent in between.
  Widths of text and the height of the font come from Xft through \<open>drw.c\<close> and are fields too.
\<close>

section \<open>Requests\<close>

type_synonym window = nat
type_synonym atom = int

definition XNone :: window where "XNone = 0"

datatype (plugins only: code size) wchange =
    CWX int | CWY int | CWWidth int | CWHeight int | CWBorderWidth int
  | CWSibling window | CWStackMode nat

text \<open>\<open>Below\<close> is 1 in the protocol.\<close>

definition StackBelow :: nat where "StackBelow = 1"

datatype (plugins only: code size) scheme = SchemeNorm | SchemeSel | SchemeTitle | SchemeStatus
datatype (plugins only: code size) colidx = ColFg | ColBg | ColBorder
datatype (plugins only: code size) cursor = CurNormal | CurResize | CurMove
datatype (plugins only: code size) errhandler = HandlerXerror | HandlerDummy | HandlerStart
datatype (plugins only: code size) target = RootWin | Win window
datatype (plugins only: code size) propmode = Replace | Append

datatype (plugins only: code size) xreq =
    XSync
  | XConfigureWindow window "wchange list"
  | XMoveWindow window int int
  | XMoveResizeWindow window int int int int
  | XRaiseWindow window
  | XLowerWindow window
  | XMapWindow window
  | XUnmapWindow window
  | XDestroyWindow window
  | XSendConfigure window int int int int int
  | XSendProtocol window atom
  | XSetInputFocus target
  | XSetInputFocusPointerRoot
  | XDeleteProperty target atom
  | XChangeProperty target atom propmode "int list"
  | XSetTextProperty atom "string list"
  | XSetWindowBorder window scheme colidx
  | XSelectInput window bool
  | XSelectRedirect
  | XGrabButton window "(nat \<times> 32 word) option"
  | XUngrabButton window
  | XGrabKey nat "32 word"
  | XUngrabKey
  | XGrabServer
  | XUngrabServer
  | XSetErrorHandler errhandler
  | XSetCloseDownMode
  | XKillClient window
  | XWarpPointer target int int
  | XAllowEvents
  | XGrabPointer cursor
  | XUngrabPointer
  | XDropEnterEvents
  | XSetWMHints window bool
  | XRefreshKeyboardMapping
  | XCreateBar window int int int int
  | XCreateCheckWindow window
  | XClearRoot
  | XSelectRoot
  | XCloseDisplay
  | DrwSetScheme scheme
  | DrwText int int int int int string bool nat
  | DrwRect int int int int bool bool
  | DrwMap window int int
  | DrwResize int int
  | ForkExec "string list"
  | KillPid int
  | WaitPid int

section \<open>Answers\<close>

record size_hints =
  PBaseSize :: "(int \<times> int) option"
  PMinSize :: "(int \<times> int) option"
  PMaxSize :: "(int \<times> int) option"
  PResizeInc :: "(int \<times> int) option"
  PAspect :: "((int \<times> int) \<times> (int \<times> int)) option"

record wm_hints =
  XUrgencyHint :: bool
  InputHint :: bool
  hint_input :: bool

record wattr =
  wa_x :: int
  wa_y :: int
  wa_width :: int
  wa_height :: int
  wa_border_width :: int
  wa_override_redirect :: bool
  wa_viewable :: bool

text \<open>
  A text property: its number of items, and its value, which is a Latin-1 string or has to
  be converted (\<open>XmbTextPropertyToTextList\<close>), where conversion can fail.
\<close>

datatype (plugins only: code size) textprop = TextString string | TextList "string option"

datatype (plugins only: code size) netatom =
    NetSupported | NetWMName | NetWMState | NetWMCheck | NetWMFullscreen | NetWMSticky
  | NetActiveWindow | NetWMWindowType | NetWMWindowTypeDesktop | NetWMWindowTypeDialog
  | NetClientList | NetDesktopNames | NetDesktopViewport | NetNumberOfDesktops
  | NetCurrentDesktop | NetWMDesktop | NetCloseWindow

text \<open>The atoms in the order of their enumeration, which is the order of the array \<open>netatom\<close>.\<close>

definition netatoms :: "netatom list" where
  "netatoms =
     [NetSupported, NetWMName, NetWMState, NetWMCheck, NetWMFullscreen, NetWMSticky,
      NetActiveWindow, NetWMWindowType, NetWMWindowTypeDesktop, NetWMWindowTypeDialog,
      NetClientList, NetDesktopNames, NetDesktopViewport, NetNumberOfDesktops,
      NetCurrentDesktop, NetWMDesktop, NetCloseWindow]"

definition netatom_index :: "netatom \<Rightarrow> nat" where
  "netatom_index a = length (takeWhile (\<lambda>b. b \<noteq> a) netatoms)"

lemma netatoms_index: "netatoms ! netatom_index a = a"
  by (cases a) (simp_all add: netatom_index_def netatoms_def)

lemma netatom_index_inject: "netatom_index a = netatom_index b \<Longrightarrow> a = b"
  by (metis netatoms_index)

instantiation netatom :: linorder
begin

definition less_eq_netatom :: "netatom \<Rightarrow> netatom \<Rightarrow> bool" where
  "less_eq_netatom a b \<longleftrightarrow> netatom_index a \<le> netatom_index b"

definition less_netatom :: "netatom \<Rightarrow> netatom \<Rightarrow> bool" where
  "less_netatom a b \<longleftrightarrow> netatom_index a < netatom_index b"

instance
  by standard (auto simp: less_eq_netatom_def less_netatom_def intro: netatom_index_inject)

end

lemma netatoms_all: "sorted netatoms" "distinct netatoms" "set netatoms = UNIV"
proof -
  show "sorted netatoms" "distinct netatoms"
    by (simp_all add: netatoms_def less_eq_netatom_def netatom_index_def)
  have "a \<in> set netatoms" for a by (cases a) (simp_all add: netatoms_def)
  then show "set netatoms = UNIV" by blast
qed

lemma netatoms_sorted: "netatoms = sorted_list_of_set UNIV"
  using sorted_list_of_set.idem_if_sorted_distinct [of netatoms] netatoms_all by simp

datatype (plugins only: code size) wmatom = WMProtocols | WMDelete | WMState | WMTakeFocus

text \<open>The predefined atoms of the protocol.\<close>

definition XA_WM_HINTS :: atom where "XA_WM_HINTS = 35"
definition XA_WM_NAME :: atom where "XA_WM_NAME = 39"
definition XA_WM_NORMAL_HINTS :: atom where "XA_WM_NORMAL_HINTS = 40"
definition XA_WM_TRANSIENT_FOR :: atom where "XA_WM_TRANSIENT_FOR = 68"

definition WithdrawnState :: int where "WithdrawnState = 0"
definition NormalState :: int where "NormalState = 1"
definition IconicState :: int where "IconicState = 3"

section \<open>Events\<close>

record cfgreq =
  cr_x :: "int option"
  cr_y :: "int option"
  cr_width :: "int option"
  cr_height :: "int option"
  cr_border_width :: "int option"
  cr_above :: "window option"
  cr_detail :: "nat option"

datatype (plugins only: code size) xevent =
    ButtonPress window nat int "32 word"
  | ClientMessage window atom "int list"
  | ConfigureRequest window cfgreq
  | ConfigureNotify window int int
  | DestroyNotify window
  | Expose window int
  | FocusIn window
  | KeyPress nat "32 word"
  | MappingNotify bool
  | MapRequest window
  | PropertyNotify window atom bool
  | UnmapNotify window bool
  | MotionNotify int int int int int
  | ButtonRelease int int int int
  | OtherEvent

section \<open>The environment\<close>

type_synonym xlog = "xreq list"

record xenv =
  cfg :: config
  root :: window
  font_h :: int
  textw :: "string \<Rightarrow> nat \<Rightarrow> int"
  netatom :: "netatom \<Rightarrow> atom"
  wmatom :: "wmatom \<Rightarrow> atom"
  motifatom :: atom
  XQueryPointer :: "xlog \<Rightarrow> (int \<times> int) option"
  XGetClassHint :: "xlog \<Rightarrow> window \<Rightarrow> (string option \<times> string option) option"
  XGetTransientForHint :: "xlog \<Rightarrow> window \<Rightarrow> window option"
  XGetWMProtocols :: "xlog \<Rightarrow> window \<Rightarrow> atom list option"
  XGetAtomProperty :: "xlog \<Rightarrow> window \<Rightarrow> atom \<Rightarrow> atom option"
  XGetStateProperty :: "xlog \<Rightarrow> window \<Rightarrow> (nat \<times> int) option"
  XGetTextProperty :: "xlog \<Rightarrow> window \<Rightarrow> atom \<Rightarrow> (nat \<times> textprop) option"
  XGetMotifHints :: "xlog \<Rightarrow> window \<Rightarrow> (32 word \<times> 32 word) option"
  XGetWMHints :: "xlog \<Rightarrow> window \<Rightarrow> wm_hints option"
  XGetWMNormalHints :: "xlog \<Rightarrow> window \<Rightarrow> size_hints option"
  XGetWindowAttributes :: "xlog \<Rightarrow> window \<Rightarrow> wattr option"
  XineramaScreens :: "xlog \<Rightarrow> (int \<times> int \<times> int \<times> int) list option"
  XQueryTree :: "xlog \<Rightarrow> window list option"
  XKeycodeToKeysym :: "nat \<Rightarrow> string"
  XGetModifierMapping :: "xlog \<Rightarrow> nat list list"
  numlock_keycode :: nat
  XGetKeyboardMapping :: "xlog \<Rightarrow> (nat \<times> string) list option"
  XGrabPointerOk :: "xlog \<Rightarrow> bool"
  XMaskEvents :: "xlog \<Rightarrow> xevent list"
  XNewWindow :: "xlog \<Rightarrow> window"
  fork_pid :: "xlog \<Rightarrow> int"
  garbage_attributes :: wattr
  garbage_point :: "int \<times> int"
  fonts_loaded :: bool
  other_wm :: bool
  display_opens :: bool
  exec_works :: bool
  display_width :: int
  display_height :: int

text \<open>
  The property texts of clients and of the root window are without runs of four
  continuation bytes: the condition under which the code may truncate them.
\<close>

definition titles_ok :: "xenv \<Rightarrow> bool" where
  "titles_ok E \<longleftrightarrow>
     (\<forall>l w a n t. XGetTextProperty E l w a = Some (n, TextString t)
        \<or> XGetTextProperty E l w a = Some (n, TextList (Some t)) \<longrightarrow> title_ok t)"

text \<open>\<open>XGetClassHint\<close> yields both strings when it succeeds.\<close>

definition classes_ok :: "xenv \<Rightarrow> bool" where
  "classes_ok E \<longleftrightarrow> (\<forall>l w n c. XGetClassHint E l w = Some (n, c) \<longrightarrow> n \<noteq> None \<and> c \<noteq> None)"

text \<open>
  An active Xinerama extension reports at least one screen, and the screens have a width and
  are high enough for the configuration, where bars have height \<open>b\<close>.
\<close>

definition screens_ok :: "xenv \<Rightarrow> int \<Rightarrow> bool" where
  "screens_ok E b \<longleftrightarrow>
     (\<forall>l ss. XineramaScreens E l = Some ss \<longrightarrow>
        ss \<noteq> [] \<and> (\<forall>(x, y, w, h) \<in> set ss. 0 < w \<and> screen_ok (cfg E) b h))"

text \<open>What the development assumes of the configuration and of the server.\<close>

definition env_ok :: "xenv \<Rightarrow> bool" where
  "env_ok E \<longleftrightarrow> config_ok (cfg E) \<and> titles_ok E \<and> classes_ok E"

lemma env_okD [dest]: "env_ok E \<Longrightarrow> config_ok (cfg E)" "env_ok E \<Longrightarrow> titles_ok E" "env_ok E \<Longrightarrow> classes_ok E"
  by (simp_all add: env_ok_def)

end
