(* ===== verification/WState.thy ===== *)
theory WState
  imports XProto
begin

text \<open>
  The state of the window manager: the structs \<open>Client\<close>, \<open>Monitor\<close> and \<open>Pertag\<close> and the
  static variables of \<open>dwm.c\<close>.

  \<^item> Objects live in two heaps, \<open>clis\<close> and \<open>mmem\<close>, indexed by address. Reading or writing an
    address that is not allocated (a null or a freed pointer) is the crash \<^term>\<open>None\<close>.
  \<^item> A linked list is the list of the addresses met from its head: \<open>mons\<close> for the monitors,
    \<open>m_clients\<close> (links \<open>next\<close>) and \<open>m_stack\<close> (links \<open>snext\<close>) for the clients of a monitor.
    The theory \<open>PtrLists\<close> has the list operations of the code on pointers and the proof
    that they compute the list operations used here.
  \<^item> \<open>xlog\<close> is the log of the requests sent.

  \<open>wfx X\<close> is the structural invariant of the client lists, where the clients in \<open>X\<close> are in
  the hands of the running operation; \<open>wf\<close> is its instance with none. \<open>skel\<close> forgets what
  a step may change without touching that structure.
\<close>

section \<open>Structs\<close>

type_synonym cid = nat
type_synonym mid = nat

record client =
  c_name :: string
  c_mina :: xflt
  c_maxa :: xflt
  c_x :: int
  c_y :: int
  c_w :: int
  c_h :: int
  c_oldx :: int
  c_oldy :: int
  c_oldw :: int
  c_oldh :: int
  c_basew :: int
  c_baseh :: int
  c_incw :: int
  c_inch :: int
  c_maxw :: int
  c_maxh :: int
  c_minw :: int
  c_minh :: int
  c_hintsvalid :: bool
  c_bw :: int
  c_oldbw :: int
  c_tags :: "32 word"
  c_ismax :: bool
  c_wasfloating :: bool
  c_isfixed :: bool
  c_isfloating :: bool
  c_isurgent :: bool
  c_neverfocus :: bool
  c_oldstate :: bool
  c_isfullscreen :: bool
  c_issticky :: bool
  c_beingmoved :: bool
  c_mon :: mid
  c_win :: window

record pertag =
  curtag :: nat
  prevtag :: nat
  nmasters :: "int list"
  mfacts :: "flt list"
  smfacts :: "flt list"
  dmfacts :: "flt list"
  zmfacts :: "flt list"
  sellts :: "nat list"
  ltidxs :: "lptr list list"

record monitor =
  m_ltsymbol :: string
  m_mfact :: flt
  m_smfact :: flt
  m_dmfact :: flt
  m_zmfact :: flt
  m_nmaster :: int
  m_num :: int
  m_by :: int
  m_mx :: int
  m_my :: int
  m_mw :: int
  m_mh :: int
  m_wx :: int
  m_wy :: int
  m_ww :: int
  m_wh :: int
  m_gappx :: int
  m_drawwithgaps :: bool
  m_seltags :: nat
  m_sellt :: nat
  m_tagset :: "32 word list"
  m_showbar :: bool
  m_topbar :: bool
  m_clients :: "cid list"
  m_sel :: "cid option"
  m_stack :: "cid list"
  m_tagmarked :: "cid option list"
  m_barwin :: window
  m_lt :: "lptr list"
  m_pertag :: pertag

record wm =
  clis :: "cid \<Rightarrow> client option"
  mmem :: "mid \<Rightarrow> monitor option"
  mons :: "mid list"
  selmon :: mid
  prevclient :: "cid option"
  stext :: string
  sw :: int
  sh :: int
  bh :: int
  lrpad :: int
  numlockmask :: "32 word"
  restart :: bool
  running :: bool
  lastfocusedwin :: window
  wmcheckwin :: window
  autostart_pids :: "int list"
  nextaddr :: nat
  xlog :: xlog

section \<open>Access\<close>

text \<open>\<open>selm s\<close> is \<open>*selmon\<close>; \<open>selc s\<close> is \<open>*selmon->sel\<close>.\<close>

definition selm :: "wm \<Rightarrow> monitor option" where
  "selm s = mmem s (selmon s)"

definition selid :: "wm \<Rightarrow> cid option" where
  "selid s = do { m \<leftarrow> selm s; m_sel m }"

definition modc :: "cid \<Rightarrow> (client \<Rightarrow> client) \<Rightarrow> wm \<Rightarrow> wm option" where
  "modc c f s = do { k \<leftarrow> clis s c; Some (s\<lparr>clis := (clis s)(c \<mapsto> f k)\<rparr>) }"

definition modm :: "mid \<Rightarrow> (monitor \<Rightarrow> monitor) \<Rightarrow> wm \<Rightarrow> wm option" where
  "modm m f s = do { k \<leftarrow> mmem s m; Some (s\<lparr>mmem := (mmem s)(m \<mapsto> f k)\<rparr>) }"

definition emit :: "xreq \<Rightarrow> wm \<Rightarrow> wm" where
  "emit r s = s\<lparr>xlog := xlog s @ [r]\<rparr>"

section \<open>Macros\<close>

definition tagsel :: "monitor \<Rightarrow> 32 word" where
  "tagsel m = m_tagset m ! m_seltags m"

definition ltsel :: "monitor \<Rightarrow> lptr" where
  "ltsel m = m_lt m ! m_sellt m"

text \<open>\<open>m->lt[m->sellt]->arrange\<close>\<close>

definition arrange_of :: "xenv \<Rightarrow> monitor \<Rightarrow> arrfn option option" where
  "arrange_of E m = do { l \<leftarrow> deref_layout (cfg E) (ltsel m); Some (arrange_fn l) }"

definition WIDTH :: "client \<Rightarrow> int" where
  "WIDTH c = c_w c + 2 * c_bw c"

definition HEIGHT :: "client \<Rightarrow> int" where
  "HEIGHT c = c_h c + 2 * c_bw c"

definition ISVISIBLEONTAG :: "client \<Rightarrow> 32 word \<Rightarrow> bool" where
  "ISVISIBLEONTAG c t \<longleftrightarrow> c_tags c AND t \<noteq> 0 \<or> c_issticky c"

definition ISVISIBLE :: "wm \<Rightarrow> cid \<Rightarrow> bool option" where
  "ISVISIBLE s c =
     do { k \<leftarrow> clis s c; m \<leftarrow> mmem s (c_mon k); Some (ISVISIBLEONTAG k (tagsel m)) }"

definition INTERSECT :: "int \<Rightarrow> int \<Rightarrow> int \<Rightarrow> int \<Rightarrow> monitor \<Rightarrow> int" where
  "INTERSECT x y w h m =
     max 0 (min (x + w) (m_wx m + m_ww m) - max x (m_wx m))
     * max 0 (min (y + h) (m_wy m + m_wh m) - max y (m_wy m))"

definition INTERSECTC :: "int \<Rightarrow> int \<Rightarrow> int \<Rightarrow> int \<Rightarrow> client \<Rightarrow> int" where
  "INTERSECTC x y w h z =
     max 0 (min (x + w) (c_x z + c_w z) - max x (c_x z))
     * max 0 (min (y + h) (c_y z + c_h z) - max y (c_y z))"

definition CLEANMASK :: "wm \<Rightarrow> 32 word \<Rightarrow> 32 word" where
  "CLEANMASK s mk =
     mk AND NOT (numlockmask s OR LockMask)
     AND (ShiftMask OR ControlMask OR Mod1Mask OR Mod2Mask OR Mod3Mask OR Mod4Mask OR Mod5Mask)"

definition TEXTW :: "xenv \<Rightarrow> wm \<Rightarrow> string \<Rightarrow> nat \<Rightarrow> int" where
  "TEXTW E s t f = textw E t f + lrpad s"

section \<open>The skeleton of a state\<close>

type_synonym cskeleton = "mid \<times> window \<times> 32 word \<times> bool \<times> bool \<times> bool \<times> bool \<times> bool"

definition cskel :: "client \<Rightarrow> cskeleton" where
  "cskel c = (c_mon c, c_win c, c_tags c, c_issticky c, c_isfloating c, c_isfullscreen c,
     c_beingmoved c, title_ok (c_name c))"

definition mskel :: "monitor \<Rightarrow> monitor" where
  "mskel m = m\<lparr>m_ltsymbol := ''''\<rparr>"

definition skel ::
  "wm \<Rightarrow> (cid \<Rightarrow> cskeleton option) \<times> (mid \<Rightarrow> monitor option) \<times> mid list \<times> mid \<times> cid option \<times> nat \<times> bool \<times> int \<times> int \<times> int" where
  "skel s = ((\<lambda>c. map_option cskel (clis s c)), (\<lambda>m. map_option mskel (mmem s m)),
     mons s, selmon s, prevclient s, nextaddr s, running s, sw s, bh s, sh s)"

text \<open>\<open>cosm s t\<close>: \<open>t\<close> differs from \<open>s\<close> in appearance only.\<close>

definition cosm :: "wm \<Rightarrow> wm \<Rightarrow> bool" where
  "cosm s t \<longleftrightarrow> skel t = skel s"

named_theorems cosm_intro "operations that change the appearance only"

lemma cosm_refl [simp, intro]: "cosm s s"
  by (simp add: cosm_def)

lemma cosm_trans [trans]: "cosm s t \<Longrightarrow> cosm t u \<Longrightarrow> cosm s u"
  by (simp add: cosm_def)

lemma cosm_sym: "cosm s t \<Longrightarrow> cosm t s"
  by (simp add: cosm_def)

lemma cosm_emit [simp]: "cosm s (emit r t) = cosm s t"
  by (simp add: cosm_def skel_def emit_def)

lemma emit_sel [simp]:
  "clis (emit r s) = clis s" "mmem (emit r s) = mmem s" "mons (emit r s) = mons s"
  "selmon (emit r s) = selmon s" "prevclient (emit r s) = prevclient s"
  "nextaddr (emit r s) = nextaddr s" "bh (emit r s) = bh s" "sw (emit r s) = sw s"
  "sh (emit r s) = sh s" "lrpad (emit r s) = lrpad s" "running (emit r s) = running s"
  "restart (emit r s) = restart s" "numlockmask (emit r s) = numlockmask s"
  "stext (emit r s) = stext s" "lastfocusedwin (emit r s) = lastfocusedwin s"
  "wmcheckwin (emit r s) = wmcheckwin s"
  "autostart_pids (emit r s) = autostart_pids s"
  by (simp_all add: emit_def)

lemma cosm_fields:
  assumes "cosm s t"
  shows "mons t = mons s" "selmon t = selmon s" "nextaddr t = nextaddr s"
    "running t = running s" "sw t = sw s" "bh t = bh s" "sh t = sh s" "prevclient t = prevclient s"
  using assms by (simp_all add: cosm_def skel_def)

lemma cosm_client:
  assumes "cosm s t" "clis s c = Some k"
  obtains k' where "clis t c = Some k'" "cskel k' = cskel k"
proof -
  have "map_option cskel (clis t c) = map_option cskel (clis s c)"
    using assms(1) by (simp add: cosm_def skel_def fun_eq_iff)
  with assms(2) that show ?thesis by (auto simp: map_option_eq_Some)
qed

lemma cosm_clis_None: "cosm s t \<Longrightarrow> clis t c = None \<longleftrightarrow> clis s c = None"
  by (auto simp: cosm_def skel_def fun_eq_iff) (metis option.map_disc_iff)+

lemma cosm_monitor:
  assumes "cosm s t" "mmem s m = Some k"
  obtains k' where "mmem t m = Some k'" "mskel k' = mskel k"
proof -
  have "map_option mskel (mmem t m) = map_option mskel (mmem s m)"
    using assms(1) by (simp add: cosm_def skel_def fun_eq_iff)
  with assms(2) that show ?thesis by (auto simp: map_option_eq_Some)
qed

lemma mskelD:
  assumes "mskel k' = mskel k"
  shows "k' = k\<lparr>m_ltsymbol := m_ltsymbol k'\<rparr>"
  using assms by (cases k; cases k') (simp add: mskel_def)

lemma mskel_fields:
  assumes "mskel k' = mskel k"
  shows "m_clients k' = m_clients k" "m_stack k' = m_stack k" "m_sel k' = m_sel k"
    "tagsel k' = tagsel k" "ltsel k' = ltsel k" "m_tagmarked k' = m_tagmarked k"
    "m_pertag k' = m_pertag k" "m_tagset k' = m_tagset k" "m_seltags k' = m_seltags k"
    "m_lt k' = m_lt k" "m_sellt k' = m_sellt k" "m_barwin k' = m_barwin k"
  by (subst mskelD [OF assms], simp add: tagsel_def ltsel_def)+

lemma cskel_fields:
  assumes "cskel k' = cskel k"
  shows "c_mon k' = c_mon k" "c_win k' = c_win k" "c_tags k' = c_tags k"
    "c_issticky k' = c_issticky k" "c_isfloating k' = c_isfloating k"
    "c_isfullscreen k' = c_isfullscreen k" "c_beingmoved k' = c_beingmoved k"
    "title_ok (c_name k') = title_ok (c_name k)"
  using assms by (simp_all add: cskel_def)

lemma cosm_ISVISIBLE:
  assumes "cosm s t"
  shows "ISVISIBLE t c = ISVISIBLE s c"
proof (cases "clis s c")
  case None
  moreover from None have "clis t c = None" using cosm_clis_None [OF assms] by simp
  ultimately show ?thesis by (simp add: ISVISIBLE_def)
next
  case (Some k)
  obtain k' where k': "clis t c = Some k'" "cskel k' = cskel k"
    using assms Some by (rule cosm_client)
  have m: "map_option mskel (mmem t (c_mon k)) = map_option mskel (mmem s (c_mon k))"
    using assms by (simp add: cosm_def skel_def fun_eq_iff)
  show ?thesis
    using Some k' m
    by (cases "mmem s (c_mon k)"; cases "mmem t (c_mon k)")
      (auto simp: ISVISIBLE_def ISVISIBLEONTAG_def cskel_fields [OF k'(2)]
        dest: mskel_fields(4))
qed

text \<open>An update of one object is cosmetic when it keeps the object's skeleton.\<close>

lemma cosm_modc:
  assumes "clis s c \<noteq> None" "\<And>k. cskel (f k) = cskel k"
  shows "res (cosm s) (modc c f s)"
  using assms by (auto simp: modc_def cosm_def skel_def fun_eq_iff)

lemma cosm_modm:
  assumes "mmem s m \<noteq> None" "\<And>k. mskel (f k) = mskel k"
  shows "res (cosm s) (modm m f s)"
  using assms by (auto simp: modm_def cosm_def skel_def fun_eq_iff)

lemma modc_Some: "clis s c = Some k \<Longrightarrow> modc c f s = Some (s\<lparr>clis := (clis s)(c \<mapsto> f k)\<rparr>)"
  by (simp add: modc_def)

lemma modm_Some: "mmem s m = Some k \<Longrightarrow> modm m f s = Some (s\<lparr>mmem := (mmem s)(m \<mapsto> f k)\<rparr>)"
  by (simp add: modm_def)

section \<open>The structural invariant\<close>

text \<open>
  What a monitor needs of its own fields, where bars have height \<open>b\<close>; while the manager
  is running (\<open>r\<close>) no layout is the local one of \<open>cleanup\<close>.
\<close>

definition lts_proper :: "monitor \<Rightarrow> bool" where
  "lts_proper m \<longleftrightarrow>
     LtFoo \<notin> set (m_lt m) \<and> (\<forall>ls \<in> set (ltidxs (m_pertag m)). LtFoo \<notin> set ls)"

lemma lts_proper_upd [simp]:
  "lts_proper (m\<lparr>m_clients := a\<rparr>) = lts_proper m" "lts_proper (m\<lparr>m_stack := a\<rparr>) = lts_proper m"
  "lts_proper (m\<lparr>m_sel := s\<rparr>) = lts_proper m" "lts_proper (m\<lparr>m_tagmarked := ts\<rparr>) = lts_proper m"
  "lts_proper (m\<lparr>m_ltsymbol := l\<rparr>) = lts_proper m"
  by (simp_all add: lts_proper_def)

definition mon_shape :: "config \<Rightarrow> int \<Rightarrow> bool \<Rightarrow> monitor \<Rightarrow> bool" where
  "mon_shape cf b r m \<longleftrightarrow> (r \<longrightarrow> lts_proper m) \<and>
     screen_ok cf b (m_mh m) \<and> screen_ok cf 0 (m_wh m) \<and> 0 < m_ww m \<and> 0 \<le> m_gappx m \<and> m_gappx m \<le> maxgappx cf \<and>
     length (m_tagset m) = 2 \<and> m_seltags m < 2 \<and> length (m_lt m) = 2 \<and> m_sellt m < 2
     \<and> (\<forall>t \<in> set (m_tagset m). t \<noteq> 0 \<and> t AND TAGMASK cf = t)
     \<and> (\<forall>l \<in> set (m_lt m). deref_layout cf l \<noteq> None \<and> (\<forall>k. deref_layout cf l = Some k \<longrightarrow> symbol k \<noteq> None))
     \<and> length (m_tagmarked m) = 32
     \<and> curtag (m_pertag m) \<le> ntags cf \<and> prevtag (m_pertag m) \<le> ntags cf
     \<and> length (nmasters (m_pertag m)) = Suc (ntags cf)
     \<and> length (mfacts (m_pertag m)) = Suc (ntags cf)
     \<and> length (smfacts (m_pertag m)) = Suc (ntags cf)
     \<and> length (dmfacts (m_pertag m)) = Suc (ntags cf)
     \<and> length (zmfacts (m_pertag m)) = Suc (ntags cf)
     \<and> length (sellts (m_pertag m)) = Suc (ntags cf)
     \<and> (\<forall>i \<in> set (sellts (m_pertag m)). i < 2)
     \<and> length (ltidxs (m_pertag m)) = Suc (ntags cf)
     \<and> (\<forall>ls \<in> set (ltidxs (m_pertag m)). length ls = 2 \<and>
          (\<forall>l \<in> set ls. deref_layout cf l \<noteq> None \<and> (\<forall>k. deref_layout cf l = Some k \<longrightarrow> symbol k \<noteq> None)))"

text \<open>
  What the lists of a monitor need: no client twice, the same clients in both lists, the
  selected client among them, and the marks of all tags but the last among them too. (The
  mark of the last tag may be stale: \<open>detach\<close> does not clear it.)
\<close>

definition mon_lists :: "config \<Rightarrow> monitor \<Rightarrow> bool" where
  "mon_lists cf m \<longleftrightarrow>
     distinct (m_clients m) \<and> distinct (m_stack m) \<and> set (m_stack m) = set (m_clients m)
     \<and> (\<forall>c. m_sel m = Some c \<longrightarrow> c \<in> set (m_clients m))
     \<and> (\<forall>i c. 1 \<le> i \<and> i < ntags cf \<and> m_tagmarked m ! i = Some c \<longrightarrow> c \<in> set (m_clients m))"

definition wfx :: "config \<Rightarrow> cid set \<Rightarrow> wm \<Rightarrow> bool" where
  "wfx cf X s \<longleftrightarrow>
     distinct (mons s) \<and> selmon s \<in> set (mons s) \<and> dom (mmem s) = set (mons s)
     \<and> (\<forall>m k. mmem s m = Some k \<longrightarrow> mon_shape cf (bh s) (running s) k \<and> mon_lists cf k
          \<and> (\<forall>c \<in> set (m_clients k). c \<notin> X \<and> (\<exists>j. clis s c = Some j \<and> c_mon j = m)))
     \<and> (\<forall>c j. clis s c = Some j \<longrightarrow> c_mon j \<in> set (mons s) \<and> title_ok (c_name j)
          \<and> (c \<in> X \<or> (\<exists>k. mmem s (c_mon j) = Some k \<and> c \<in> set (m_clients k))))
     \<and> (\<forall>c \<in> X. clis s c \<noteq> None)
     \<and> (\<forall>a \<ge> nextaddr s. clis s a = None \<and> mmem s a = None)
     \<and> screen_ok cf (bh s) (sh s)"

abbreviation wf :: "config \<Rightarrow> wm \<Rightarrow> bool" where
  "wf cf \<equiv> wfx cf {}"

lemma mon_shape_mskel: "mskel k' = mskel k \<Longrightarrow> mon_shape cf b r k' = mon_shape cf b r k"
  by (subst mskelD [of k' k]) (simp_all add: mon_shape_def)

lemma mon_lists_mskel: "mskel k' = mskel k \<Longrightarrow> mon_lists cf k' = mon_lists cf k"
  by (subst mskelD [of k' k]) (simp_all add: mon_lists_def)

lemma wfx_cosm:
  assumes "cosm s t" "wfx cf X s"
  shows "wfx cf X t"
proof -
  have c: "map_option cskel (clis t c) = map_option cskel (clis s c)"
    and m: "map_option mskel (mmem t m) = map_option mskel (mmem s m)" for c m
    using assms(1) by (simp_all add: cosm_def skel_def fun_eq_iff)
  have dom: "dom (mmem t) = dom (mmem s)"
  proof (intro set_eqI iffI)
    fix i assume "i \<in> dom (mmem t)"
    then show "i \<in> dom (mmem s)" using m [of i] by (cases "mmem s i") auto
  next
    fix i assume "i \<in> dom (mmem s)"
    then show "i \<in> dom (mmem t)" using m [of i] by (cases "mmem t i") auto
  qed
  have mk: "\<exists>k. mmem s i = Some k \<and> mskel k' = mskel k" if "mmem t i = Some k'" for i k'
    using m [of i] that by (cases "mmem s i") auto
  have mk': "\<exists>k'. mmem t i = Some k' \<and> mskel k' = mskel k" if "mmem s i = Some k" for i k
    using m [of i] that by (cases "mmem t i") auto
  have ck: "\<exists>j. clis s i = Some j \<and> cskel j' = cskel j" if "clis t i = Some j'" for i j'
    using c [of i] that by (cases "clis s i") auto
  have ck': "\<exists>j'. clis t i = Some j' \<and> cskel j' = cskel j" if "clis s i = Some j" for i j
    using c [of i] that by (cases "clis t i") auto
  note W = assms(2) [unfolded wfx_def]
  note F = cosm_fields [OF assms(1)]
  show ?thesis
    unfolding wfx_def
  proof (intro conjI allI impI ballI)
    show "distinct (mons t)" "selmon t \<in> set (mons t)" "dom (mmem t) = set (mons t)"
      using W F dom by auto
  next
    fix i k' assume "mmem t i = Some k'"
    then obtain k where k: "mmem s i = Some k" "mskel k' = mskel k" using mk by blast
    show "mon_shape cf (bh t) (running t) k'" "mon_lists cf k'"
      using W k F by (auto simp: mon_shape_mskel [OF k(2)] mon_lists_mskel [OF k(2)])
    fix a assume "a \<in> set (m_clients k')"
    then have a: "a \<in> set (m_clients k)" by (simp add: mskel_fields [OF k(2)])
    then show "a \<notin> X" using W k by blast
    from a obtain j where "clis s a = Some j" "c_mon j = i" using W k by blast
    then show "\<exists>j. clis t a = Some j \<and> c_mon j = i"
      using ck' by (metis cskel_fields(1))
  next
    fix a j' assume "clis t a = Some j'"
    then obtain j where j: "clis s a = Some j" "cskel j' = cskel j" using ck by blast
    note e = cskel_fields(1) [OF j(2)]
    show "c_mon j' \<in> set (mons t)" using W F j e by auto
    show "title_ok (c_name j')" using W j cskel_fields(8) [OF j(2)] by blast
    have "a \<in> X \<or> (\<exists>k. mmem s (c_mon j) = Some k \<and> a \<in> set (m_clients k))"
      using W j by blast
    then show "a \<in> X \<or> (\<exists>k. mmem t (c_mon j') = Some k \<and> a \<in> set (m_clients k))"
      using mk' e by (metis mskel_fields(1))
  next
    fix a assume "a \<in> X"
    then have "clis s a \<noteq> None" using W by blast
    then show "clis t a \<noteq> None" using ck' by blast
  next
    fix a assume "nextaddr t \<le> a"
    then have "clis s a = None \<and> mmem s a = None" using W F by auto
    then show "clis t a = None" "mmem t a = None"
      using c [of a] m [of a] by simp_all
  next
    show "screen_ok cf (bh t) (sh t)" using W F by simp
  qed
qed

lemma wfx_prevclient [simp]: "wfx cf X (s\<lparr>prevclient := p\<rparr>) = wfx cf X s"
  by (simp add: wfx_def)

lemma wfx_emit [simp]: "wfx cf X (emit r s) = wfx cf X s"
  by (simp add: wfx_def emit_def)

lemma wfx_distinct_mons: "wfx cf X s \<Longrightarrow> distinct (mons s)"
  by (simp add: wfx_def)

lemma wfx_selmon_in: "wfx cf X s \<Longrightarrow> selmon s \<in> set (mons s)"
  by (simp add: wfx_def)

lemma wfx_dom: "wfx cf X s \<Longrightarrow> dom (mmem s) = set (mons s)"
  by (simp add: wfx_def)

lemma wfx_monitor: "wfx cf X s \<Longrightarrow> m \<in> set (mons s) \<longleftrightarrow> (\<exists>k. mmem s m = Some k)"
  by (drule wfx_dom) auto

lemma wfx_shape: "wfx cf X s \<Longrightarrow> mmem s m = Some k \<Longrightarrow> mon_shape cf (bh s) (running s) k"
  by (simp add: wfx_def)

lemma wfx_lists: "wfx cf X s \<Longrightarrow> mmem s m = Some k \<Longrightarrow> mon_lists cf k"
  by (simp add: wfx_def)

lemma wfx_clientD:
  assumes "wfx cf X s" "mmem s m = Some k" "c \<in> set (m_clients k)"
  shows "\<exists>j. clis s c = Some j \<and> c_mon j = m"
  using assms unfolding wfx_def by blast

lemma wfx_client:
  assumes "wfx cf X s" "mmem s m = Some k" "c \<in> set (m_clients k)"
  obtains j where "clis s c = Some j" "c_mon j = m"
  using wfx_clientD [OF assms] that by blast

lemma wfx_notin: "wfx cf X s \<Longrightarrow> mmem s m = Some k \<Longrightarrow> c \<in> set (m_clients k) \<Longrightarrow> c \<notin> X"
  unfolding wfx_def by blast

lemma wfx_owner: "wfx cf X s \<Longrightarrow> clis s c = Some j \<Longrightarrow> c_mon j \<in> set (mons s)"
  by (simp add: wfx_def)

lemma wfx_screen: "wfx cf X s \<Longrightarrow> screen_ok cf (bh s) (sh s)"
  by (simp add: wfx_def)

lemma wfx_title: "wfx cf X s \<Longrightarrow> clis s c = Some j \<Longrightarrow> title_ok (c_name j)"
  by (simp add: wfx_def)

lemma wfx_listedD:
  assumes "wfx cf X s" "clis s c = Some j" "c \<notin> X"
  shows "\<exists>k. mmem s (c_mon j) = Some k \<and> c \<in> set (m_clients k)"
  using assms unfolding wfx_def by blast

lemma wfx_listed:
  assumes "wfx cf X s" "clis s c = Some j" "c \<notin> X"
  obtains k where "mmem s (c_mon j) = Some k" "c \<in> set (m_clients k)"
  using wfx_listedD [OF assms] that by blast

lemma wfx_alloc: "wfx cf X s \<Longrightarrow> c \<in> X \<Longrightarrow> clis s c \<noteq> None"
  by (simp add: wfx_def)

lemma wfx_fresh: "wfx cf X s \<Longrightarrow> nextaddr s \<le> a \<Longrightarrow> clis s a = None \<and> mmem s a = None"
  by (simp add: wfx_def)

lemma wfx_selmon:
  assumes "wfx cf X s"
  obtains k where "mmem s (selmon s) = Some k" "selm s = Some k"
  using wfx_selmon_in [OF assms] wfx_monitor [OF assms] that by (auto simp: selm_def)

lemma wfx_c_mon:
  assumes "wfx cf X s" "clis s c = Some j"
  obtains k where "mmem s (c_mon j) = Some k"
  using wfx_owner [OF assms] wfx_monitor [OF assms(1)] that by auto

lemma wfx_ISVISIBLE:
  assumes "wfx cf X s" "clis s c \<noteq> None"
  shows "ISVISIBLE s c \<noteq> None"
  using assms by (auto simp: ISVISIBLE_def elim: wfx_c_mon)

lemma wfx_stack_clients:
  "wfx cf X s \<Longrightarrow> mmem s m = Some k \<Longrightarrow> set (m_stack k) = set (m_clients k)"
  using wfx_lists by (simp add: mon_lists_def)

lemma wfx_sel_client:
  assumes "wfx cf X s" "mmem s m = Some k" "m_sel k = Some c"
  shows "c \<in> set (m_clients k)"
  using wfx_lists [OF assms(1,2)] assms(3) by (simp add: mon_lists_def)

end
