(* ===== verification/ClientLists.thy ===== *)
theory ClientLists
  imports WState
begin

text \<open>
  The two lists of clients of a monitor: \<open>attach\<close>, \<open>detach\<close> and their variants, the search
  for tiled clients, and \<open>wintoclient\<close>. Each operation of the code keeps one of the two
  lists; the lemmas are about the pairs the code runs, which keep the structural
  invariant: a client is taken out of both lists (\<open>detach_both\<close>), put into both
  (\<open>attach_both\<close>), or moved to the front of one.

  \<open>keep s t\<close> frames these operations: \<open>t\<close> has the same monitors and clients as \<open>s\<close> up to
  appearance and to the membership and order of the lists.
\<close>

section \<open>Operations\<close>

definition attach :: "cid \<Rightarrow> wm \<Rightarrow> wm option" where
  "attach c s =
     do { k \<leftarrow> clis s c; modm (c_mon k) (\<lambda>m. m\<lparr>m_clients := c # m_clients m\<rparr>) s }"

definition attachstack :: "cid \<Rightarrow> wm \<Rightarrow> wm option" where
  "attachstack c s =
     do { k \<leftarrow> clis s c; modm (c_mon k) (\<lambda>m. m\<lparr>m_stack := c # m_stack m\<rparr>) s }"

text \<open>The loop of the mode \<open>aside\<close>: the \<open>nmaster\<close>-th tiled client on the new client's tags.\<close>

fun aside_at :: "wm \<Rightarrow> 32 word \<Rightarrow> int \<Rightarrow> int \<Rightarrow> cid list \<Rightarrow> cid option option" where
  "aside_at s t nm n [] = Some None"
| "aside_at s t nm n (a # as) =
     do {
       k \<leftarrow> clis s a;
       if \<not> c_isfloating k \<and> ISVISIBLEONTAG k t
       then (if n + 1 \<ge> nm then Some (Some a) else aside_at s t nm (n + 1) as)
       else aside_at s t nm n as }"

definition attachx :: "xenv \<Rightarrow> cid \<Rightarrow> wm \<Rightarrow> wm option" where
  "attachx E c s =
     do {
       k \<leftarrow> clis s c;
       m \<leftarrow> mmem s (c_mon k);
       if attachmode (cfg E) = 1 then
         (case m_sel m of
            None \<Rightarrow> attach c s
          | Some x \<Rightarrow>
              if m_clients m \<noteq> [] \<and> x = hd (m_clients m) then attach c s
              else do {
                j \<leftarrow> clis s x;
                if c_isfloating j then attach c s
                else if x \<in> set (m_clients m)
                then modm (c_mon k) (\<lambda>m. m\<lparr>m_clients := insert_before x c (m_clients m)\<rparr>) s
                else None })
       else if attachmode (cfg E) = 2 then
         do {
           r \<leftarrow> aside_at s (c_tags k) (m_nmaster m) 0 (m_clients m);
           case r of
             None \<Rightarrow> attach c s
           | Some a \<Rightarrow>
               if m_nmaster m = 0 then attach c s
               else modm (c_mon k) (\<lambda>m. m\<lparr>m_clients := insert_after a c (m_clients m)\<rparr>) s }
       else if attachmode (cfg E) = 3 then
         (case m_sel m of
            None \<Rightarrow> attach c s
          | Some x \<Rightarrow> do {
              j \<leftarrow> clis s x;
              if c_isfloating j then attach c s
              else modm (c_mon k) (\<lambda>m. m\<lparr>m_clients := insert_after x c (m_clients m)\<rparr>) s })
       else if attachmode (cfg E) = 4 \<and> m_clients m \<noteq> [] then
         modm (c_mon k) (\<lambda>m. m\<lparr>m_clients := m_clients m @ [c]\<rparr>) s
       else attach c s }"

definition clear_marks :: "nat \<Rightarrow> cid \<Rightarrow> cid option list \<Rightarrow> cid option list" where
  "clear_marks n c ms =
     map (\<lambda>i. if 1 \<le> i \<and> i < n \<and> ms ! i = Some c then None else ms ! i) [0..<length ms]"

definition detach :: "xenv \<Rightarrow> cid \<Rightarrow> wm \<Rightarrow> wm option" where
  "detach E c s =
     do {
       k \<leftarrow> clis s c;
       modm (c_mon k) (\<lambda>m. m\<lparr>m_tagmarked := clear_marks (ntags (cfg E)) c (m_tagmarked m),
                              m_clients := remove1 c (m_clients m)\<rparr>) s }"

definition detachstack :: "cid \<Rightarrow> wm \<Rightarrow> wm option" where
  "detachstack c s =
     do {
       k \<leftarrow> clis s c;
       s \<leftarrow> modm (c_mon k) (\<lambda>m. m\<lparr>m_stack := remove1 c (m_stack m)\<rparr>) s;
       m \<leftarrow> mmem s (c_mon k);
       if m_sel m = Some c then
         do {
           t \<leftarrow> firstO (ISVISIBLE s) (m_stack m);
           modm (c_mon k) (\<lambda>m. m\<lparr>m_sel := t\<rparr>) s }
       else Some s }"

text \<open>\<open>enqueue\<close> and \<open>enqueuestack\<close> append to a list that is not empty, and else do nothing.\<close>

definition enqueue :: "cid \<Rightarrow> wm \<Rightarrow> wm option" where
  "enqueue c s =
     do {
       k \<leftarrow> clis s c;
       modm (c_mon k) (\<lambda>m. if m_clients m = [] then m
                            else m\<lparr>m_clients := m_clients m @ [c]\<rparr>) s }"

definition enqueuestack :: "cid \<Rightarrow> wm \<Rightarrow> wm option" where
  "enqueuestack c s =
     do {
       k \<leftarrow> clis s c;
       modm (c_mon k) (\<lambda>m. if m_stack m = [] then m
                            else m\<lparr>m_stack := m_stack m @ [c]\<rparr>) s }"

text \<open>
  \<open>nexttiled s cs\<close> is \<open>nexttiled(c)\<close> where \<open>cs\<close> is the rest of the client list from \<open>c\<close> on;
  \<open>tiled s cs\<close> is what the loop \<open>for (c = nexttiled(c); c; c = nexttiled(c->next))\<close> visits.
\<close>

definition istiled :: "wm \<Rightarrow> cid \<Rightarrow> bool option" where
  "istiled s c = do { k \<leftarrow> clis s c; if c_isfloating k then Some False else ISVISIBLE s c }"

definition nexttiled :: "wm \<Rightarrow> cid list \<Rightarrow> cid option option" where
  "nexttiled s cs = firstO (istiled s) cs"

definition tiled :: "wm \<Rightarrow> cid list \<Rightarrow> cid list option" where
  "tiled s cs = filterO (istiled s) cs"

fun win_search :: "wm \<Rightarrow> window \<Rightarrow> mid list \<Rightarrow> cid option option" where
  "win_search s w [] = Some None"
| "win_search s w (m # ms) =
     do {
       k \<leftarrow> mmem s m;
       r \<leftarrow> firstO (\<lambda>c. do { j \<leftarrow> clis s c; Some (c_win j = w) }) (m_clients k);
       case r of None \<Rightarrow> win_search s w ms | Some c \<Rightarrow> Some (Some c) }"

definition wintoclient :: "wm \<Rightarrow> window \<Rightarrow> cid option option" where
  "wintoclient s w = win_search s w (mons s)"

section \<open>The frame of list operations\<close>

definition mcore :: "monitor \<Rightarrow> monitor" where
  "mcore m = m\<lparr>m_ltsymbol := '''', m_clients := [], m_sel := None, m_stack := [],
               m_tagmarked := []\<rparr>"

definition keep :: "wm \<Rightarrow> wm \<Rightarrow> bool" where
  "keep s t \<longleftrightarrow>
     (\<forall>c. map_option cskel (clis t c) = map_option cskel (clis s c))
     \<and> (\<forall>m. map_option mcore (mmem t m) = map_option mcore (mmem s m))
     \<and> mons t = mons s \<and> nextaddr t = nextaddr s \<and> running t = running s"

lemma keep_refl [simp, intro]: "keep s s"
  by (simp add: keep_def)

lemma keep_trans [trans]: "keep s t \<Longrightarrow> keep t u \<Longrightarrow> keep s u"
  by (simp add: keep_def)

lemma mcore_mskel:
  assumes "mskel k = mskel k'"
  shows "mcore k = mcore k'"
proof -
  have "mcore (k'\<lparr>m_ltsymbol := x\<rparr>) = mcore k'" for x by (simp add: mcore_def)
  then show ?thesis using mskelD [OF assms] by metis
qed

lemma cosm_keep: "cosm s t \<Longrightarrow> keep s t"
proof -
  assume "cosm s t"
  then have c: "map_option cskel (clis t c) = map_option cskel (clis s c)"
    and m: "map_option mskel (mmem t m) = map_option mskel (mmem s m)"
    and r: "mons t = mons s" "nextaddr t = nextaddr s" "running t = running s" for c m
    by (simp_all add: cosm_def skel_def fun_eq_iff)
  have "map_option mcore (mmem t m) = map_option mcore (mmem s m)" for m
    using m [of m] by (cases "mmem s m"; cases "mmem t m") (auto dest: mcore_mskel)
  with c r show ?thesis by (simp add: keep_def)
qed

lemma mcoreD:
  assumes "mcore k' = mcore k"
  shows "k' = k\<lparr>m_ltsymbol := m_ltsymbol k', m_clients := m_clients k', m_sel := m_sel k',
                m_stack := m_stack k', m_tagmarked := m_tagmarked k'\<rparr>"
  using assms by (cases k; cases k') (simp add: mcore_def)

lemma mcore_fields:
  assumes "mcore k' = mcore k"
  shows "tagsel k' = tagsel k" "ltsel k' = ltsel k" "m_pertag k' = m_pertag k"
    "m_tagset k' = m_tagset k" "m_seltags k' = m_seltags k" "m_lt k' = m_lt k"
    "m_sellt k' = m_sellt k" "m_barwin k' = m_barwin k" "m_nmaster k' = m_nmaster k"
  by (subst mcoreD [OF assms], simp add: tagsel_def ltsel_def)+

lemma keep_mons: "keep s t \<Longrightarrow> mons t = mons s"
  by (simp add: keep_def)

lemma keep_monitor:
  assumes "keep s t" "mmem s m = Some k"
  obtains k' where "mmem t m = Some k'" "mcore k' = mcore k"
proof -
  have "map_option mcore (mmem t m) = map_option mcore (mmem s m)"
    using assms(1) by (simp add: keep_def)
  with assms(2) that show ?thesis by (auto simp: map_option_eq_Some)
qed

lemma keep_client:
  assumes "keep s t" "clis s c = Some k"
  obtains k' where "clis t c = Some k'" "cskel k' = cskel k"
proof -
  have "map_option cskel (clis t c) = map_option cskel (clis s c)"
    using assms(1) by (simp add: keep_def)
  with assms(2) that show ?thesis by (auto simp: map_option_eq_Some)
qed

lemma keep_ISVISIBLE:
  assumes "keep s t"
  shows "ISVISIBLE t c = ISVISIBLE s c"
proof -
  have c: "map_option cskel (clis t c) = map_option cskel (clis s c)"
    and m: "map_option mcore (mmem t m) = map_option mcore (mmem s m)" for c m
    using assms by (simp_all add: keep_def)
  show ?thesis
  proof (cases "clis s c")
    case None
    then show ?thesis using c [of c] by (simp add: ISVISIBLE_def)
  next
    case (Some k)
    then obtain k' where k': "clis t c = Some k'" "cskel k' = cskel k"
      using c [of c] by auto
    show ?thesis
      using Some k' m [of "c_mon k"]
      by (cases "mmem s (c_mon k)"; cases "mmem t (c_mon k)")
        (auto simp: ISVISIBLE_def ISVISIBLEONTAG_def cskel_fields [OF k'(2)]
          dest: mcore_fields(1))
  qed
qed

text \<open>An update of one monitor that leaves its core alone.\<close>

lemma keep_modm:
  assumes "modm m f s = Some t" "\<And>k. mcore (f k) = mcore k"
  shows "keep s t"
  using assms by (auto simp: modm_def keep_def split: bind_splits)

lemma modm_frame:
  assumes "modm m f s = Some t"
  shows "clis t = clis s" "mons t = mons s" "selmon t = selmon s" "nextaddr t = nextaddr s"
    "prevclient t = prevclient s" "xlog t = xlog s"
  using assms by (auto simp: modm_def split: bind_splits)

section \<open>Moving clients between the lists\<close>

lemma mon_shape_lists:
  "mon_shape cf b r (k\<lparr>m_clients := a\<rparr>) = mon_shape cf b r k"
  "mon_shape cf b r (k\<lparr>m_stack := b'\<rparr>) = mon_shape cf b r k"
  "mon_shape cf b r (k\<lparr>m_sel := d\<rparr>) = mon_shape cf b r k"
  "length ms = 32 \<Longrightarrow> mon_shape cf b r k \<Longrightarrow> mon_shape cf b r (k\<lparr>m_tagmarked := ms\<rparr>)"
  by (simp_all add: mon_shape_def)

lemma length_clear_marks [simp]: "length (clear_marks n c ms) = length ms"
  by (simp add: clear_marks_def)

lemma nth_clear_marks:
  "i < length ms \<Longrightarrow> clear_marks n c ms ! i
     = (if 1 \<le> i \<and> i < n \<and> ms ! i = Some c then None else ms ! i)"
  by (simp add: clear_marks_def)

text \<open>
  Replacing one monitor: what has to be checked for the invariant to hold again, with
  another set of clients outside the lists.
\<close>

lemma wfx_update:
  assumes W: "wfx cf X s" and m: "mmem s m = Some k"
    and shape: "mon_shape cf (bh s) (running s) k'" and lists: "mon_lists cf k'"
    and cl: "\<And>c. c \<in> set (m_clients k') \<Longrightarrow> c \<notin> Y \<and> (\<exists>j. clis s c = Some j \<and> c_mon j = m)"
    and Y: "\<And>c. c \<in> Y \<Longrightarrow> clis s c \<noteq> None"
    and other: "\<And>c j. clis s c = Some j \<Longrightarrow> c_mon j \<noteq> m \<Longrightarrow> c \<in> Y \<longleftrightarrow> c \<in> X"
    and own: "\<And>c j. clis s c = Some j \<Longrightarrow> c_mon j = m \<Longrightarrow> c \<in> Y \<or> c \<in> set (m_clients k')"
  shows "wfx cf Y (s\<lparr>mmem := (mmem s)(m \<mapsto> k')\<rparr>)"
proof -
  let ?t = "s\<lparr>mmem := (mmem s)(m \<mapsto> k')\<rparr>"
  have ne: "c \<notin> Y \<and> (\<exists>j. clis s c = Some j \<and> c_mon j = i)"
    if i: "mmem s i = Some l" "i \<noteq> m" "c \<in> set (m_clients l)" for i l c
    using wfx_client [OF W i(1,3)] wfx_notin [OF W i(1,3)] other i(2) by metis
  show ?thesis
    unfolding wfx_def
  proof (intro conjI allI impI ballI)
    show "distinct (mons ?t)" using wfx_distinct_mons [OF W] by simp
    show "selmon ?t \<in> set (mons ?t)" using wfx_selmon_in [OF W] by simp
    show "dom (mmem ?t) = set (mons ?t)"
      using wfx_dom [OF W] m by (auto simp: domI)
  next
    fix i l assume "mmem ?t i = Some l"
    then have il: "i = m \<and> l = k' \<or> i \<noteq> m \<and> mmem s i = Some l"
      by (auto split: if_splits)
    then show "mon_shape cf (bh ?t) (running ?t) l" "mon_lists cf l"
      using shape lists wfx_shape [OF W] wfx_lists [OF W] by auto
    fix c assume "c \<in> set (m_clients l)"
    with il have "c \<notin> Y \<and> (\<exists>j. clis s c = Some j \<and> c_mon j = i)"
      using cl ne by auto
    then show "c \<notin> Y" "\<exists>j. clis ?t c = Some j \<and> c_mon j = i" by auto
  next
    fix c j assume "clis ?t c = Some j"
    then have j: "clis s c = Some j" by simp
    show "c_mon j \<in> set (mons ?t)" using wfx_owner [OF W j] by simp
    show "title_ok (c_name j)" using wfx_title [OF W j] .
    show "c \<in> Y \<or> (\<exists>k. mmem ?t (c_mon j) = Some k \<and> c \<in> set (m_clients k))"
    proof (cases "c_mon j = m")
      case True
      then show ?thesis using own [OF j] by auto
    next
      case False
      show ?thesis
      proof (cases "c \<in> X")
        case True
        then show ?thesis using other [OF j \<open>c_mon j \<noteq> m\<close>] by simp
      next
        case False
        then obtain k where "mmem s (c_mon j) = Some k" "c \<in> set (m_clients k)"
          using wfx_listed [OF W j] by metis
        then show ?thesis using \<open>c_mon j \<noteq> m\<close> by simp
      qed
    qed
  next
    fix c assume "c \<in> Y"
    then show "clis ?t c \<noteq> None" using Y by simp
  next
    fix a assume "nextaddr ?t \<le> a"
    then show "clis ?t a = None" "mmem ?t a = None"
      using wfx_fresh [OF W, of a] m by auto
  next
    show "screen_ok cf (bh ?t) (sh ?t)" using wfx_screen [OF W] by simp
  qed
qed

lemma ISVISIBLE_lists:
  assumes "mmem s m = Some k" "tagsel k' = tagsel k"
  shows "ISVISIBLE (s\<lparr>mmem := (mmem s)(m \<mapsto> k')\<rparr>) c = ISVISIBLE s c"
  using assms by (cases "clis s c") (auto simp: ISVISIBLE_def)

lemma firstO_visible:
  assumes "wfx cf X s" "\<And>c. c \<in> set cs \<Longrightarrow> clis s c \<noteq> None"
  obtains t where "firstO (ISVISIBLE s) cs = Some t" "\<And>c. t = Some c \<Longrightarrow> c \<in> set cs"
proof -
  have "ISVISIBLE s c = Some (the (ISVISIBLE s c))" if "c \<in> set cs" for c
    using wfx_ISVISIBLE [OF assms(1) assms(2) [OF that]] by simp
  then have "firstO (ISVISIBLE s) cs = Some (find (\<lambda>c. the (ISVISIBLE s c)) cs)"
    by (rule firstO_total)
  with that show ?thesis using find_Some_mem by metis
qed

text \<open>Taking a client out of both lists of its monitor.\<close>

lemma detach_Some:
  assumes "clis s c = Some j" "mmem s (c_mon j) = Some k"
  shows "detach E c s = Some (s\<lparr>mmem := (mmem s)(c_mon j \<mapsto>
     k\<lparr>m_tagmarked := clear_marks (ntags (cfg E)) c (m_tagmarked k),
       m_clients := remove1 c (m_clients k)\<rparr>)\<rparr>)"
  using assms by (simp add: detach_def modm_def)

lemma detachstack_Some:
  assumes "wfx cf X s'" "s = s'\<lparr>mmem := (mmem s')(c_mon j \<mapsto> k)\<rparr>"
    and "clis s c = Some j" "mmem s' (c_mon j) = Some k'" "tagsel k = tagsel k'"
    and "\<And>c. c \<in> set (m_stack k) \<Longrightarrow> clis s c \<noteq> None"
  obtains t where
    "detachstack c s = Some (s\<lparr>mmem := (mmem s)(c_mon j \<mapsto>
       k\<lparr>m_stack := remove1 c (m_stack k), m_sel := t\<rparr>)\<rparr>)"
    "m_sel k = Some c \<Longrightarrow> t = None \<or> (\<exists>a. t = Some a \<and> a \<in> set (remove1 c (m_stack k))
        \<and> ISVISIBLE s a = Some True)"
    "m_sel k \<noteq> Some c \<Longrightarrow> t = m_sel k"
proof -
  let ?k = "k\<lparr>m_stack := remove1 c (m_stack k)\<rparr>"
  let ?s = "s\<lparr>mmem := (mmem s)(c_mon j \<mapsto> ?k)\<rparr>"
  have vis: "ISVISIBLE ?s a = ISVISIBLE s' a" "ISVISIBLE s a = ISVISIBLE s' a" for a
    using assms(2-5) ISVISIBLE_lists [OF assms(4), of ?k a] ISVISIBLE_lists [OF assms(4), of k a]
    by (simp_all add: tagsel_def)
  have alloc: "clis s' a \<noteq> None" if "a \<in> set (remove1 c (m_stack k))" for a
    using that assms(2,6) notin_set_remove1 by (force dest: set_remove1_subset [THEN subsetD])
  obtain t where t: "firstO (ISVISIBLE s') (remove1 c (m_stack k)) = Some t"
    "\<And>a. t = Some a \<Longrightarrow> a \<in> set (remove1 c (m_stack k))"
    using firstO_visible [OF assms(1) alloc] by metis
  have eq: "ISVISIBLE ?s = ISVISIBLE s'" using vis(1) by blast
  have ms: "mmem s (c_mon j) = Some k" using assms(2) by simp
  show ?thesis
  proof (cases "m_sel k = Some c")
    case True
    have "t = None \<or> (\<exists>a. t = Some a \<and> a \<in> set (remove1 c (m_stack k))
        \<and> ISVISIBLE s a = Some True)"
      using t firstO_sound [of "ISVISIBLE s'"] vis(2) by (cases t) auto
    with True that [of t] t(1) eq assms(3) ms show ?thesis
      by (simp add: detachstack_def modm_def)
  next
    case False
    with that [of "m_sel k"] assms(3) ms show ?thesis
      by (simp add: detachstack_def modm_def)
  qed
qed

lemma set_remove1_distinct: "distinct xs \<Longrightarrow> set (remove1 c xs) = set xs - {c}"
  by simp

text \<open>The lists of a monitor after a client has been removed from both.\<close>

lemma mon_lists_remove:
  assumes L: "mon_lists cf k" and len: "length (m_tagmarked k) = 32" and n: "ntags cf \<le> 32"
    and sel: "\<And>a. t = Some a \<Longrightarrow> a \<in> set (remove1 c (m_stack k))"
  shows "mon_lists cf (k\<lparr>m_tagmarked := clear_marks (ntags cf) c (m_tagmarked k),
    m_clients := remove1 c (m_clients k), m_stack := remove1 c (m_stack k), m_sel := t\<rparr>)"
  unfolding mon_lists_def
proof (intro conjI allI impI)
  let ?k = "k\<lparr>m_tagmarked := clear_marks (ntags cf) c (m_tagmarked k),
    m_clients := remove1 c (m_clients k), m_stack := remove1 c (m_stack k), m_sel := t\<rparr>"
  note L' = L [unfolded mon_lists_def]
  show "distinct (m_clients ?k)" "distinct (m_stack ?k)" using L' by simp_all
  show "set (m_stack ?k) = set (m_clients ?k)" using L' by simp
  fix a
  show "a \<in> set (m_clients ?k)" if "m_sel ?k = Some a"
    using sel [of a] that L' by simp
  fix i
  assume "1 \<le> i \<and> i < ntags cf \<and> m_tagmarked ?k ! i = Some a"
  then have i: "1 \<le> i" "i < ntags cf" "clear_marks (ntags cf) c (m_tagmarked k) ! i = Some a"
    by simp_all
  moreover have "i < length (m_tagmarked k)" using i(2) len n by simp
  ultimately have "m_tagmarked k ! i = Some a" "a \<noteq> c"
    by (auto simp: nth_clear_marks split: if_splits)
  with i L' show "a \<in> set (m_clients ?k)" by auto
qed

lemma detach_both:
  assumes W: "wfx (cfg E) X s" and n: "ntags (cfg E) \<le> 31"
    and j: "clis s c = Some j" and c: "c \<notin> X"
  obtains k k' where
    "mmem s (c_mon j) = Some k" "c \<in> set (m_clients k)"
    "do { s \<leftarrow> detach E c s; detachstack c s } = Some (s\<lparr>mmem := (mmem s)(c_mon j \<mapsto> k')\<rparr>)"
    "mcore k' = mcore k" "m_clients k' = remove1 c (m_clients k)"
    "m_stack k' = remove1 c (m_stack k)"
    "m_sel k \<noteq> Some c \<Longrightarrow> m_sel k' = m_sel k"
    "wfx (cfg E) (insert c X) (s\<lparr>mmem := (mmem s)(c_mon j \<mapsto> k')\<rparr>)"
proof -
  obtain k where k: "mmem s (c_mon j) = Some k" "c \<in> set (m_clients k)"
    using wfx_listed [OF W j c] by metis
  note L = wfx_lists [OF W k(1)]
  note L' = L [unfolded mon_lists_def]
  have len: "length (m_tagmarked k) = 32"
    using wfx_shape [OF W k(1)] by (simp add: mon_shape_def)
  let ?k1 = "k\<lparr>m_tagmarked := clear_marks (ntags (cfg E)) c (m_tagmarked k),
       m_clients := remove1 c (m_clients k)\<rparr>"
  let ?s1 = "s\<lparr>mmem := (mmem s)(c_mon j \<mapsto> ?k1)\<rparr>"
  have d: "detach E c s = Some ?s1" by (rule detach_Some [OF j k(1)])
  have al: "clis ?s1 a \<noteq> None" if "a \<in> set (m_stack ?k1)" for a
    using that L' wfx_clientD [OF W k(1), of a] by auto
  obtain t where t: "detachstack c ?s1 = Some (?s1\<lparr>mmem := (mmem ?s1)(c_mon j \<mapsto>
       ?k1\<lparr>m_stack := remove1 c (m_stack ?k1), m_sel := t\<rparr>)\<rparr>)"
    "m_sel ?k1 = Some c \<Longrightarrow> t = None \<or> (\<exists>a. t = Some a \<and> a \<in> set (remove1 c (m_stack ?k1))
        \<and> ISVISIBLE ?s1 a = Some True)"
    "m_sel ?k1 \<noteq> Some c \<Longrightarrow> t = m_sel ?k1"
  proof (rule detachstack_Some [OF W refl, where c = c and j = j and k = ?k1 and k' = k])
    show "clis ?s1 c = Some j" using j by simp
    show "mmem s (c_mon j) = Some k" by (rule k(1))
    show "tagsel ?k1 = tagsel k" by (simp add: tagsel_def)
  qed (use al in auto)
  let ?k2 = "?k1\<lparr>m_stack := remove1 c (m_stack k), m_sel := t\<rparr>"
  let ?s2 = "s\<lparr>mmem := (mmem s)(c_mon j \<mapsto> ?k2)\<rparr>"
  have run: "do { s \<leftarrow> detach E c s; detachstack c s } = Some ?s2"
    using d t(1) by simp
  have sel: "a \<in> set (remove1 c (m_stack k))" if "t = Some a" for a
  proof (cases "m_sel k = Some c")
    case True
    with t(2) that show ?thesis by auto
  next
    case False
    with t(3) that have "m_sel k = Some a" by simp
    moreover from this False have "a \<noteq> c" by simp
    ultimately show ?thesis using L' by simp
  qed
  have lists: "mon_lists (cfg E) ?k2"
    using mon_lists_remove [OF L len _ sel] n by simp
  have shape: "mon_shape (cfg E) (bh s) (running s) ?k2"
    using wfx_shape [OF W k(1)] len by (simp add: mon_shape_def)
  have "wfx (cfg E) (insert c X) ?s2"
  proof (rule wfx_update [OF W k(1) shape lists])
    fix a assume "a \<in> set (m_clients ?k2)"
    then have "a \<in> set (m_clients k)" "a \<noteq> c" using L' by auto
    then show "a \<notin> insert c X \<and> (\<exists>i. clis s a = Some i \<and> c_mon i = c_mon j)"
      using wfx_notin [OF W k(1)] wfx_clientD [OF W k(1)] by auto
  next
    fix a assume "a \<in> insert c X"
    then show "clis s a \<noteq> None" using wfx_alloc [OF W] j by auto
  next
    fix a i assume "clis s a = Some i" "c_mon i \<noteq> c_mon j"
    then show "a \<in> insert c X \<longleftrightarrow> a \<in> X" using j by auto
  next
    fix a i assume a: "clis s a = Some i" "c_mon i = c_mon j"
    show "a \<in> insert c X \<or> a \<in> set (m_clients ?k2)"
      using wfx_listedD [OF W a(1)] a(2) k(1) L' by (cases "a \<in> X") auto
  qed
  moreover have "mcore ?k2 = mcore k" by (simp add: mcore_def)
  ultimately show ?thesis
    using that [OF k run] t(3) by simp
qed

text \<open>Putting a client that is in no list into both lists of its monitor.\<close>

lemma mon_lists_add:
  assumes "mon_lists cf k" "c \<notin> set (m_clients k)"
    "set cs = insert c (set (m_clients k))" "distinct cs"
    "set ss = insert c (set (m_stack k))" "distinct ss"
  shows "mon_lists cf (k\<lparr>m_clients := cs, m_stack := ss\<rparr>)"
  using assms unfolding mon_lists_def by auto

lemma wfx_add:
  assumes W: "wfx cf X s" and j: "clis s c = Some j" "c \<in> X" and k: "mmem s (c_mon j) = Some k"
    and cs: "set cs = insert c (set (m_clients k))" "distinct cs"
  shows "wfx cf (X - {c}) (s\<lparr>mmem := (mmem s)(c_mon j \<mapsto>
           k\<lparr>m_clients := cs, m_stack := c # m_stack k\<rparr>)\<rparr>)"
proof -
  let ?k = "k\<lparr>m_clients := cs, m_stack := c # m_stack k\<rparr>"
  have nc: "c \<notin> set (m_clients k)" using wfx_notin [OF W k] j(2) by blast
  note L = wfx_lists [OF W k]
  have "c \<notin> set (m_stack k)" using L nc by (simp add: mon_lists_def)
  moreover have "distinct (m_stack k)" using L by (simp add: mon_lists_def)
  ultimately have lists: "mon_lists cf ?k"
    using mon_lists_add [OF L nc cs, of "c # m_stack k"] by simp
  have shape: "mon_shape cf (bh s) (running s) ?k" using wfx_shape [OF W k] by (simp add: mon_shape_def)
  show ?thesis
  proof (rule wfx_update [OF W k shape lists])
    fix a assume "a \<in> set (m_clients ?k)"
    then have "a = c \<or> a \<in> set (m_clients k)" using cs by auto
    then show "a \<notin> X - {c} \<and> (\<exists>i. clis s a = Some i \<and> c_mon i = c_mon j)"
      using wfx_notin [OF W k] wfx_clientD [OF W k] j by auto
  next
    fix a assume "a \<in> X - {c}"
    then show "clis s a \<noteq> None" using wfx_alloc [OF W] by auto
  next
    fix a i assume "clis s a = Some i" "c_mon i \<noteq> c_mon j"
    then show "a \<in> X - {c} \<longleftrightarrow> a \<in> X" using j by auto
  next
    fix a i assume a: "clis s a = Some i" "c_mon i = c_mon j"
    show "a \<in> X - {c} \<or> a \<in> set (m_clients ?k)"
      using wfx_listedD [OF W a(1)] a(2) k cs by (cases "a \<in> X") auto
  qed
qed

lemma attach_Some:
  assumes "clis s c = Some j" "mmem s (c_mon j) = Some k"
  shows "attach c s = Some (s\<lparr>mmem := (mmem s)(c_mon j \<mapsto> k\<lparr>m_clients := c # m_clients k\<rparr>)\<rparr>)"
  using assms by (simp add: attach_def modm_def)

lemma attachstack_Some:
  assumes "clis s c = Some j" "mmem s (c_mon j) = Some k"
  shows "attachstack c s = Some (s\<lparr>mmem := (mmem s)(c_mon j \<mapsto> k\<lparr>m_stack := c # m_stack k\<rparr>)\<rparr>)"
  using assms by (simp add: attachstack_def modm_def)

lemma aside_at_total:
  assumes "\<And>a. a \<in> set as \<Longrightarrow> clis s a \<noteq> None"
  shows "\<exists>r. aside_at s t nm n as = Some r \<and> (\<forall>a. r = Some a \<longrightarrow> a \<in> set as)"
  using assms
proof (induction as arbitrary: n)
  case (Cons a as)
  obtain k where k: "clis s a = Some k" using Cons.prems by fastforce
  have IH: "\<exists>r. aside_at s t nm n as = Some r \<and> (\<forall>a. r = Some a \<longrightarrow> a \<in> set as)" for n
    using Cons.IH Cons.prems by simp
  show ?case
    using IH [of n] IH [of "n + 1"] k by (auto simp del: split_paired_Ex)
qed simp

lemma attachx_Some:
  assumes W: "wfx (cfg E) X s" and j: "clis s c = Some j" "c \<in> X"
    and k: "mmem s (c_mon j) = Some k"
  obtains cs where
    "attachx E c s = Some (s\<lparr>mmem := (mmem s)(c_mon j \<mapsto> k\<lparr>m_clients := cs\<rparr>)\<rparr>)"
    "set cs = insert c (set (m_clients k))" "distinct cs"
proof -
  have nc: "c \<notin> set (m_clients k)" using wfx_notin [OF W k] j(2) by blast
  have dist: "distinct (m_clients k)"
    using wfx_lists [OF W k] by (simp add: mon_lists_def)
  have al: "clis s a \<noteq> None" if "a \<in> set (m_clients k)" for a
    using wfx_clientD [OF W k that] by auto
  have sel: "\<exists>i. clis s a = Some i" "a \<in> set (m_clients k)" if "m_sel k = Some a" for a
    using wfx_sel_client [OF W k that] al by auto
  note at = attach_Some [OF j(1) k]
  let ?P = "\<lambda>cs. attachx E c s = Some (s\<lparr>mmem := (mmem s)(c_mon j \<mapsto> k\<lparr>m_clients := cs\<rparr>)\<rparr>)
    \<and> set cs = insert c (set (m_clients k)) \<and> distinct cs"
  have base: "?P (c # m_clients k)" if "attachx E c s = attach c s"
    using that at nc dist by simp
  consider (above) "attachmode (cfg E) = 1" | (aside) "attachmode (cfg E) = 2"
    | (below) "attachmode (cfg E) = 3" | (bottom) "attachmode (cfg E) = 4"
    | (other) "attachmode (cfg E) \<notin> {1, 2, 3, 4}" by blast
  then have "\<exists>cs. ?P cs"
  proof cases
    case above
    show ?thesis
    proof (cases "m_sel k")
      case None
      then have "attachx E c s = attach c s" using above j k by (simp add: attachx_def)
      with base show ?thesis by blast
    next
      case (Some a)
      obtain i where i: "clis s a = Some i" using sel(1) Some by blast
      show ?thesis
      proof (cases "m_clients k \<noteq> [] \<and> a = hd (m_clients k) \<or> c_isfloating i")
        case True
        then have "attachx E c s = attach c s"
          using above j k Some i by (auto simp: attachx_def)
        with base show ?thesis by blast
      next
        case False
        then have "?P (insert_before a c (m_clients k))"
          using above j k Some i sel(2) [OF Some] nc dist
          by (auto simp: attachx_def modm_def set_insert_before distinct_insert_before)
        then show ?thesis by blast
      qed
    qed
  next
    case aside
    obtain r where r: "aside_at s (c_tags j) (m_nmaster k) 0 (m_clients k) = Some r"
      "\<And>a. r = Some a \<Longrightarrow> a \<in> set (m_clients k)"
      using aside_at_total al by metis
    show ?thesis
    proof (cases "r = None \<or> m_nmaster k = 0")
      case True
      then have "attachx E c s = attach c s"
        using aside j k r(1) by (auto simp: attachx_def split: option.splits)
      with base show ?thesis by blast
    next
      case False
      then obtain a where "r = Some a" by auto
      then have "?P (insert_after a c (m_clients k))"
        using False aside j k r nc dist
        by (auto simp: attachx_def modm_def set_insert_after distinct_insert_after)
      then show ?thesis by blast
    qed
  next
    case below
    show ?thesis
    proof (cases "m_sel k")
      case None
      then have "attachx E c s = attach c s" using below j k by (simp add: attachx_def)
      with base show ?thesis by blast
    next
      case (Some a)
      obtain i where i: "clis s a = Some i" using sel(1) Some by blast
      show ?thesis
      proof (cases "c_isfloating i")
        case True
        then have "attachx E c s = attach c s"
          using below j k Some i by (auto simp: attachx_def)
        with base show ?thesis by blast
      next
        case False
        then have "?P (insert_after a c (m_clients k))"
          using below j k Some i sel(2) [OF Some] nc dist
          by (auto simp: attachx_def modm_def set_insert_after distinct_insert_after)
        then show ?thesis by blast
      qed
    qed
  next
    case bottom
    show ?thesis
    proof (cases "m_clients k")
      case Nil
      then have "attachx E c s = attach c s" using bottom j k by (simp add: attachx_def)
      with base show ?thesis by blast
    next
      case (Cons a as)
      then have "?P (m_clients k @ [c])"
        using bottom j k nc dist by (auto simp: attachx_def modm_def)
      then show ?thesis by blast
    qed
  next
    case other
    then have "attachx E c s = attach c s" using j k by (simp add: attachx_def)
    with base show ?thesis by blast
  qed
  with that show ?thesis by blast
qed

text \<open>\<open>placed X s c t\<close>: the client \<open>c\<close> has been put into both lists of its monitor.\<close>

lemma attachx_both:
  assumes W: "wfx (cfg E) X s" and j: "clis s c = Some j" "c \<in> X"
  obtains k cs where
    "mmem s (c_mon j) = Some k"
    "do { s \<leftarrow> attachx E c s; attachstack c s } = Some (s\<lparr>mmem := (mmem s)(c_mon j \<mapsto>
       k\<lparr>m_clients := cs, m_stack := c # m_stack k\<rparr>)\<rparr>)"
    "set cs = insert c (set (m_clients k))"
    "wfx (cfg E) (X - {c}) (s\<lparr>mmem := (mmem s)(c_mon j \<mapsto>
       k\<lparr>m_clients := cs, m_stack := c # m_stack k\<rparr>)\<rparr>)"
proof -
  obtain k where k: "mmem s (c_mon j) = Some k" using wfx_c_mon [OF W j(1)] by metis
  obtain cs where cs: "attachx E c s = Some (s\<lparr>mmem := (mmem s)(c_mon j \<mapsto> k\<lparr>m_clients := cs\<rparr>)\<rparr>)"
    "set cs = insert c (set (m_clients k))" "distinct cs"
    using attachx_Some [OF W j k] by metis
  have "do { s \<leftarrow> attachx E c s; attachstack c s } = Some (s\<lparr>mmem := (mmem s)(c_mon j \<mapsto>
       k\<lparr>m_clients := cs, m_stack := c # m_stack k\<rparr>)\<rparr>)"
    using cs(1) j(1) by (simp add: attachstack_def modm_def)
  with that [OF k _ cs(2)] wfx_add [OF W j k cs(2,3)] show ?thesis by blast
qed

lemma attach_both:
  assumes W: "wfx cf X s" and j: "clis s c = Some j" "c \<in> X"
  obtains k where
    "mmem s (c_mon j) = Some k"
    "do { s \<leftarrow> attach c s; attachstack c s } = Some (s\<lparr>mmem := (mmem s)(c_mon j \<mapsto>
       k\<lparr>m_clients := c # m_clients k, m_stack := c # m_stack k\<rparr>)\<rparr>)"
    "wfx cf (X - {c}) (s\<lparr>mmem := (mmem s)(c_mon j \<mapsto>
       k\<lparr>m_clients := c # m_clients k, m_stack := c # m_stack k\<rparr>)\<rparr>)"
proof -
  obtain k where k: "mmem s (c_mon j) = Some k" using wfx_c_mon [OF W j(1)] by metis
  have "distinct (c # m_clients k)"
    using wfx_lists [OF W k] wfx_notin [OF W k, of c] j(2) by (auto simp: mon_lists_def)
  moreover have "do { s \<leftarrow> attach c s; attachstack c s } = Some (s\<lparr>mmem := (mmem s)(c_mon j \<mapsto>
       k\<lparr>m_clients := c # m_clients k, m_stack := c # m_stack k\<rparr>)\<rparr>)"
    using j(1) k by (simp add: attach_def attachstack_def modm_def)
  ultimately show ?thesis
    using that [OF k] wfx_add [OF W j k, of "c # m_clients k"] by simp
qed

text \<open>Moving a client to the front of the focus list; the selection is left to the caller.\<close>

lemma wfx_same_clients:
  assumes W: "wfx cf X s" and k: "mmem s m = Some k"
    and k': "mcore k' = mcore k" "set (m_clients k') = set (m_clients k)" "mon_lists cf k'"
      "length (m_tagmarked k') = 32"
  shows "wfx cf X (s\<lparr>mmem := (mmem s)(m \<mapsto> k')\<rparr>)"
proof (rule wfx_update [OF W k _ k'(3)])
  show "mon_shape cf (bh s) (running s) k'"
    using wfx_shape [OF W k] k'(4) by (subst mcoreD [OF k'(1)]) (simp add: mon_shape_def)
  show "c \<notin> X \<and> (\<exists>j. clis s c = Some j \<and> c_mon j = m)" if "c \<in> set (m_clients k')" for c
    using that k'(2) wfx_notin [OF W k] wfx_clientD [OF W k] by simp
  show "c \<in> X \<or> c \<in> set (m_clients k')" if "clis s c = Some j" "c_mon j = m" for c j
    using wfx_listedD [OF W that(1)] that(2) k k'(2) by auto
qed (use wfx_alloc [OF W] in auto)

lemma wfx_tagmarked: "wfx cf X s \<Longrightarrow> mmem s m = Some k \<Longrightarrow> length (m_tagmarked k) = 32"
  by (drule wfx_shape) (auto simp: mon_shape_def)

lemma restack_front:
  assumes W: "wfx cf X s" and j: "clis s c = Some j" "c \<notin> X"
  obtains k t where
    "mmem s (c_mon j) = Some k" "c \<in> set (m_clients k)"
    "do { s \<leftarrow> detachstack c s; attachstack c s } = Some (s\<lparr>mmem := (mmem s)(c_mon j \<mapsto>
       k\<lparr>m_sel := t, m_stack := c # remove1 c (m_stack k)\<rparr>)\<rparr>)"
    "m_sel k \<noteq> Some c \<Longrightarrow> t = m_sel k"
    "wfx cf X (s\<lparr>mmem := (mmem s)(c_mon j \<mapsto>
       k\<lparr>m_sel := t, m_stack := c # remove1 c (m_stack k)\<rparr>)\<rparr>)"
proof -
  obtain k where k: "mmem s (c_mon j) = Some k" "c \<in> set (m_clients k)"
    using wfx_listed [OF W j] by metis
  note L = wfx_lists [OF W k(1), unfolded mon_lists_def]
  have al: "clis s a \<noteq> None" if "a \<in> set (m_stack k)" for a
    using that L wfx_clientD [OF W k(1), of a] by auto
  have ss: "s = s\<lparr>mmem := (mmem s)(c_mon j \<mapsto> k)\<rparr>" using k(1) by (simp add: fun_upd_idem)
  obtain t where t: "detachstack c s = Some (s\<lparr>mmem := (mmem s)(c_mon j \<mapsto>
       k\<lparr>m_stack := remove1 c (m_stack k), m_sel := t\<rparr>)\<rparr>)"
    "m_sel k = Some c \<Longrightarrow> t = None \<or> (\<exists>a. t = Some a \<and> a \<in> set (remove1 c (m_stack k))
        \<and> ISVISIBLE s a = Some True)"
    "m_sel k \<noteq> Some c \<Longrightarrow> t = m_sel k"
    using detachstack_Some [OF W ss j(1) k(1) refl al] by metis
  let ?k = "k\<lparr>m_sel := t, m_stack := c # remove1 c (m_stack k)\<rparr>"
  have "set (c # remove1 c (m_stack k)) = set (m_clients k)" using L k(2) by auto
  moreover have "a \<in> set (m_clients k)" if "t = Some a" for a
    using t(2,3) that L by (cases "m_sel k = Some c") auto
  ultimately have "mon_lists cf ?k" using L by (auto simp: mon_lists_def)
  then have "wfx cf X (s\<lparr>mmem := (mmem s)(c_mon j \<mapsto> ?k)\<rparr>)"
    using wfx_same_clients [OF W k(1), of ?k] wfx_tagmarked [OF W k(1)] by (simp add: mcore_def)
  moreover have "do { s \<leftarrow> detachstack c s; attachstack c s } = Some (s\<lparr>mmem := (mmem s)(c_mon j \<mapsto> ?k)\<rparr>)"
    using t(1) j(1) by (simp add: attachstack_def modm_def)
  ultimately show ?thesis using that [OF k] t(3) by blast
qed

text \<open>Moving a client to the front of the client list.\<close>

lemma detach_attach:
  assumes W: "wfx (cfg E) X s" and n: "ntags (cfg E) \<le> 31"
    and j: "clis s c = Some j" "c \<notin> X"
  obtains k k' where
    "mmem s (c_mon j) = Some k" "c \<in> set (m_clients k)"
    "do { s \<leftarrow> detach E c s; attach c s } = Some (s\<lparr>mmem := (mmem s)(c_mon j \<mapsto> k')\<rparr>)"
    "mcore k' = mcore k" "m_clients k' = c # remove1 c (m_clients k)" "m_stack k' = m_stack k"
    "m_sel k' = m_sel k"
    "wfx (cfg E) X (s\<lparr>mmem := (mmem s)(c_mon j \<mapsto> k')\<rparr>)"
proof -
  obtain k where k: "mmem s (c_mon j) = Some k" "c \<in> set (m_clients k)"
    using wfx_listed [OF W j] by metis
  note L = wfx_lists [OF W k(1), unfolded mon_lists_def]
  note len = wfx_tagmarked [OF W k(1)]
  let ?k = "k\<lparr>m_tagmarked := clear_marks (ntags (cfg E)) c (m_tagmarked k),
       m_clients := c # remove1 c (m_clients k)\<rparr>"
  have set: "set (c # remove1 c (m_clients k)) = set (m_clients k)" using L k(2) by auto
  have "mon_lists (cfg E) ?k"
    unfolding mon_lists_def
  proof (intro conjI allI impI)
    show "distinct (m_clients ?k)" "distinct (m_stack ?k)" using L by simp_all
    show "set (m_stack ?k) = set (m_clients ?k)" using L set by simp
    show "a \<in> set (m_clients ?k)" if "m_sel ?k = Some a" for a using L set that by auto
    fix i a assume i: "1 \<le> i \<and> i < ntags (cfg E) \<and> m_tagmarked ?k ! i = Some a"
    then have "m_tagmarked k ! i = Some a"
      using len n by (auto simp: nth_clear_marks split: if_splits)
    with i L have "a \<in> set (m_clients k)" by blast
    then show "a \<in> set (m_clients ?k)" using set by auto
  qed
  then have "wfx (cfg E) X (s\<lparr>mmem := (mmem s)(c_mon j \<mapsto> ?k)\<rparr>)"
    using wfx_same_clients [OF W k(1), of ?k] len set by (simp add: mcore_def)
  moreover have "do { s \<leftarrow> detach E c s; attach c s } = Some (s\<lparr>mmem := (mmem s)(c_mon j \<mapsto> ?k)\<rparr>)"
    using j(1) k(1) by (simp add: detach_def attach_def modm_def)
  moreover have "mcore ?k = mcore k" by (simp add: mcore_def)
  ultimately show ?thesis using that [OF k] by simp
qed

section \<open>Searching\<close>

lemma istiled_total:
  assumes "wfx cf X s" "clis s c \<noteq> None"
  shows "istiled s c \<noteq> None"
  using assms wfx_ISVISIBLE [OF assms] by (auto simp: istiled_def)

lemma tiled_total:
  assumes W: "wfx cf X s" and cs: "\<And>c. c \<in> set cs \<Longrightarrow> clis s c \<noteq> None"
  shows "tiled s cs = Some (filter (\<lambda>c. the (istiled s c)) cs)"
  unfolding tiled_def by (rule filterO_total) (use istiled_total [OF W cs] in auto)

lemma nexttiled_total:
  assumes W: "wfx cf X s" and cs: "\<And>c. c \<in> set cs \<Longrightarrow> clis s c \<noteq> None"
  shows "nexttiled s cs = Some (find (\<lambda>c. the (istiled s c)) cs)"
  unfolding nexttiled_def by (rule firstO_total) (use istiled_total [OF W cs] in auto)

text \<open>\<open>nexttiled\<close> yields the head of what the loop over tiled clients visits.\<close>

lemma find_filter: "find p xs = (case filter p xs of [] \<Rightarrow> None | x # _ \<Rightarrow> Some x)"
  by (induction xs) auto

lemma win_search_total:
  assumes W: "wfx cf X s" and ms: "set ms \<subseteq> set (mons s)"
  shows "\<exists>r. win_search s w ms = Some r \<and> (\<forall>c. r = Some c \<longrightarrow> (\<exists>j k. clis s c = Some j \<and>
      c_win j = w \<and> c_mon j \<in> set ms \<and> mmem s (c_mon j) = Some k \<and> c \<in> set (m_clients k)))"
  using ms
proof (induction ms)
  case (Cons m ms)
  obtain k where k: "mmem s m = Some k" using Cons.prems wfx_monitor [OF W] by auto
  let ?p = "\<lambda>c. do { j \<leftarrow> clis s c; Some (c_win j = w) }"
  let ?q = "\<lambda>c. c_win (the (clis s c)) = w"
  have first: "firstO ?p (m_clients k) = Some (find ?q (m_clients k))"
  proof (rule firstO_total)
    fix c assume "c \<in> set (m_clients k)"
    then show "?p c = Some (?q c)" using wfx_clientD [OF W k] by fastforce
  qed
  obtain r where r: "win_search s w ms = Some r" "\<forall>c. r = Some c \<longrightarrow> (\<exists>j k. clis s c = Some j \<and>
      c_win j = w \<and> c_mon j \<in> set ms \<and> mmem s (c_mon j) = Some k \<and> c \<in> set (m_clients k))"
    using Cons.IH Cons.prems by auto
  show ?case
  proof (cases "find ?q (m_clients k)")
    case None
    then show ?thesis using k first r by auto
  next
    case (Some c)
    then have c: "c \<in> set (m_clients k)" "?q c" using find_Some_mem by fast+
    obtain j where "clis s c = Some j" "c_mon j = m" using wfx_clientD [OF W k c(1)] by blast
    then show ?thesis using k first Some c by auto
  qed
qed simp

lemma wintoclient_total:
  assumes W: "wfx cf X s"
  shows "\<exists>r. wintoclient s w = Some r \<and> (\<forall>c. r = Some c \<longrightarrow> (\<exists>j k. clis s c = Some j \<and>
      c_win j = w \<and> mmem s (c_mon j) = Some k \<and> c \<in> set (m_clients k)))"
  using win_search_total [OF W order_refl, of w] unfolding wintoclient_def by blast

end
