(* ===== verification/XProps.thy ===== *)
theory XProps
  imports ClientLists
begin

text \<open>
  The operations that talk to the X server about one window or about the root window:
  properties, hints, grabs, focus messages and the pointer. None of them touches the
  client lists; the lemmas \<open>..._cosm\<close> say that they do not crash on an allocated client and
  change the appearance only.
\<close>

definition broken :: string where "broken = ''broken''"

section \<open>Operations\<close>

definition configure :: "cid \<Rightarrow> wm \<Rightarrow> wm option" where
  "configure c s =
     do {
       k \<leftarrow> clis s c;
       Some (emit (XSendConfigure (c_win k) (c_x k) (c_y k) (c_w k) (c_h k) (c_bw k)) s) }"

definition setclientstate :: "xenv \<Rightarrow> cid \<Rightarrow> int \<Rightarrow> wm \<Rightarrow> wm option" where
  "setclientstate E c st s =
     do {
       k \<leftarrow> clis s c;
       Some (emit (XChangeProperty (Win (c_win k)) (wmatom E WMState) Replace [st, 0]) s) }"

definition sendevent :: "xenv \<Rightarrow> cid \<Rightarrow> atom \<Rightarrow> wm \<Rightarrow> (bool \<times> wm) option" where
  "sendevent E c proto s =
     do {
       k \<leftarrow> clis s c;
       let exists = (case XGetWMProtocols E (xlog s) (c_win k) of
                       None \<Rightarrow> False | Some ps \<Rightarrow> proto \<in> set ps);
       Some (exists, if exists then emit (XSendProtocol (c_win k) proto) s else s) }"

definition setfocus :: "xenv \<Rightarrow> cid \<Rightarrow> wm \<Rightarrow> wm option" where
  "setfocus E c s =
     do {
       k \<leftarrow> clis s c;
       let s = (if \<not> c_neverfocus k then
                  emit (XChangeProperty RootWin (netatom E NetActiveWindow) Replace [int (c_win k)])
                    (emit (XSetInputFocus (Win (c_win k))) s)
                else s);
       (_, s) \<leftarrow> sendevent E c (wmatom E WMTakeFocus) s;
       Some s }"

definition killthis :: "xenv \<Rightarrow> cid \<Rightarrow> wm \<Rightarrow> wm option" where
  "killthis E c s =
     do {
       (sent, s) \<leftarrow> sendevent E c (wmatom E WMDelete) s;
       k \<leftarrow> clis s c;
       Some (if sent then s
             else fold emit [XGrabServer, XSetErrorHandler HandlerDummy, XSetCloseDownMode,
                    XKillClient (c_win k), XSync, XSetErrorHandler HandlerXerror, XUngrabServer] s) }"

definition getatomprop :: "xenv \<Rightarrow> wm \<Rightarrow> window \<Rightarrow> atom \<Rightarrow> atom" where
  "getatomprop E s w prop =
     (case XGetAtomProperty E (xlog s) w prop of None \<Rightarrow> 0 | Some a \<Rightarrow> a)"

definition getrootptr :: "xenv \<Rightarrow> wm \<Rightarrow> (int \<times> int) option" where
  "getrootptr E s = XQueryPointer E (xlog s)"

definition getstate :: "xenv \<Rightarrow> wm \<Rightarrow> window \<Rightarrow> int" where
  "getstate E s w =
     (case XGetStateProperty E (xlog s) w of
        None \<Rightarrow> -1 | Some (n, p) \<Rightarrow> if n \<noteq> 0 then p else -1)"

text \<open>\<open>gettextprop\<close> returns whether it found the property, and the new contents of the buffer.\<close>

definition gettextprop ::
  "xenv \<Rightarrow> wm \<Rightarrow> window \<Rightarrow> atom \<Rightarrow> string \<Rightarrow> nat \<Rightarrow> bool \<times> string" where
  "gettextprop E s w a text sz =
     (if sz = 0 then (False, text)
      else case XGetTextProperty E (xlog s) w a of
        None \<Rightarrow> (False, text)
      | Some (n, v) \<Rightarrow>
          if n = 0 then (False, text)
          else (True, case v of
                  TextString t \<Rightarrow> strncpy (sz - 1) t
                | TextList (Some t) \<Rightarrow> strncpy (sz - 1) t
                | TextList None \<Rightarrow> text))"

definition updatetitle :: "xenv \<Rightarrow> cid \<Rightarrow> wm \<Rightarrow> wm option" where
  "updatetitle E c s =
     do {
       k \<leftarrow> clis s c;
       let (ok, t) = gettextprop E s (c_win k) (netatom E NetWMName) (c_name k) 256;
       let t = (if ok then t else snd (gettextprop E s (c_win k) XA_WM_NAME t 256));
       let t = (if t = '''' then strncpy 255 broken else t);
       modc c (\<lambda>k. k\<lparr>c_name := t\<rparr>) s }"

text \<open>The last modifier whose keys include \<open>Num_Lock\<close> wins.\<close>

definition updatenumlockmask :: "xenv \<Rightarrow> wm \<Rightarrow> wm" where
  "updatenumlockmask E s =
     s\<lparr>numlockmask :=
         fold (\<lambda>(i, row) mk. if numlock_keycode E \<in> set row then push_bit i 1 else mk)
           (enumerate 0 (take 8 (XGetModifierMapping E (xlog s)))) 0\<rparr>"

definition modifiers :: "wm \<Rightarrow> 32 word list" where
  "modifiers s = [0, LockMask, numlockmask s, numlockmask s OR LockMask]"

definition grabbuttons :: "xenv \<Rightarrow> cid \<Rightarrow> bool \<Rightarrow> wm \<Rightarrow> wm option" where
  "grabbuttons E c focused s =
     do {
       let s = updatenumlockmask E s;
       k \<leftarrow> clis s c;
       let s = emit (XUngrabButton (c_win k)) s;
       let s = (if \<not> focused then emit (XGrabButton (c_win k) None) s else s);
       Some (fold emit
               [XGrabButton (c_win k) (Some (b_button b, b_mask b OR md)).
                  b \<leftarrow> buttons (cfg E), b_click b = ClkClientWin, md \<leftarrow> modifiers s] s) }"

definition grabkeys :: "xenv \<Rightarrow> wm \<Rightarrow> wm" where
  "grabkeys E s =
     (let s = emit XUngrabKey (updatenumlockmask E s)
      in case XGetKeyboardMapping E (xlog s) of
           None \<Rightarrow> s
         | Some syms \<Rightarrow>
             fold emit
               [XGrabKey (fst ks) (k_mod k OR md).
                  ks \<leftarrow> syms, k \<leftarrow> keys (cfg E), k_keysym k = snd ks, md \<leftarrow> modifiers s] s)"

definition seturgent :: "xenv \<Rightarrow> cid \<Rightarrow> bool \<Rightarrow> wm \<Rightarrow> wm option" where
  "seturgent E c urg s =
     do {
       s \<leftarrow> modc c (\<lambda>k. k\<lparr>c_isurgent := urg\<rparr>) s;
       k \<leftarrow> clis s c;
       case XGetWMHints E (xlog s) (c_win k) of
         None \<Rightarrow> Some s
       | Some _ \<Rightarrow> Some (emit (XSetWMHints (c_win k) urg) s) }"

definition updatewmhints :: "xenv \<Rightarrow> cid \<Rightarrow> wm \<Rightarrow> wm option" where
  "updatewmhints E c s =
     do {
       k \<leftarrow> clis s c;
       case XGetWMHints E (xlog s) (c_win k) of
         None \<Rightarrow> Some s
       | Some h \<Rightarrow> do {
           m \<leftarrow> selm s;
           s \<leftarrow> (if m_sel m = Some c \<and> XUrgencyHint h
                 then Some (emit (XSetWMHints (c_win k) False) s)
                 else modc c (\<lambda>k. k\<lparr>c_isurgent := XUrgencyHint h\<rparr>) s);
           modc c (\<lambda>k. k\<lparr>c_neverfocus := InputHint h \<and> \<not> hint_input h\<rparr>) s } }"

definition updateclientdesktop :: "xenv \<Rightarrow> cid \<Rightarrow> wm \<Rightarrow> wm option" where
  "updateclientdesktop E c s =
     do {
       m \<leftarrow> selm s;
       k \<leftarrow> clis s c;
       Some (emit (XChangeProperty (Win (c_win k)) (netatom E NetWMDesktop) Replace
                     [int (topbit (tagsel m))]) s) }"

definition updatecurrentdesktop :: "xenv \<Rightarrow> wm \<Rightarrow> wm option" where
  "updatecurrentdesktop E s =
     do {
       m \<leftarrow> selm s;
       Some (emit (XChangeProperty RootWin (netatom E NetCurrentDesktop) Replace
                     [int (topbit (tagsel m))]) s) }"

definition updateclientlist :: "xenv \<Rightarrow> wm \<Rightarrow> wm option" where
  "updateclientlist E s =
     (let s = emit (XDeleteProperty RootWin (netatom E NetClientList)) s
      in each (\<lambda>m s. do {
           k \<leftarrow> mmem s m;
           each (\<lambda>c s. do {
             j \<leftarrow> clis s c;
             Some (emit (XChangeProperty RootWin (netatom E NetClientList) Append
                           [int (c_win j)]) s) }) (m_clients k) s }) (mons s) s)"

definition setcurrentdesktop :: "xenv \<Rightarrow> wm \<Rightarrow> wm" where
  "setcurrentdesktop E s = emit (XChangeProperty RootWin (netatom E NetCurrentDesktop) Replace [0]) s"

definition setdesktopnames :: "xenv \<Rightarrow> wm \<Rightarrow> wm" where
  "setdesktopnames E s =
     emit (XSetTextProperty (netatom E NetDesktopNames)
       (take (ntags (cfg E))
         [''one'', ''two'', ''three'', ''four'', ''five'', ''six'', ''seven'', ''eight'', ''nine''])) s"

definition setnumdesktops :: "xenv \<Rightarrow> wm \<Rightarrow> wm" where
  "setnumdesktops E s =
     emit (XChangeProperty RootWin (netatom E NetNumberOfDesktops) Replace [int (ntags (cfg E))]) s"

definition setviewport :: "xenv \<Rightarrow> wm \<Rightarrow> wm" where
  "setviewport E s =
     emit (XChangeProperty RootWin (netatom E NetDesktopViewport) Replace [0, 0]) s"

text \<open>\<open>warp(c)\<close>; the null client warps to the middle of the selected monitor.\<close>

definition warp :: "xenv \<Rightarrow> cid option \<Rightarrow> wm \<Rightarrow> wm option" where
  "warp E co s =
     (case co of
        None \<Rightarrow> do {
          m \<leftarrow> selm s;
          Some (emit (XWarpPointer RootWin (m_wx m + cdiv (m_ww m) 2) (m_wy m + cdiv (m_wh m) 2)) s) }
      | Some c \<Rightarrow> do {
          k \<leftarrow> clis s c;
          case getrootptr E s of
            None \<Rightarrow> Some s
          | Some (x, y) \<Rightarrow>
              if x > c_x k - c_bw k \<and> y > c_y k - c_bw k
                 \<and> x < c_x k + c_w k + c_bw k * 2 \<and> y < c_y k + c_h k + c_bw k * 2
              then Some s
              else do {
                m \<leftarrow> mmem s (c_mon k);
                if y > m_by m \<and> y < m_by m + bh s \<or> m_topbar m \<and> y = 0 then Some s
                else Some (emit (XWarpPointer (Win (c_win k)) (cdiv (c_w k) 2) (cdiv (c_h k) 2)) s) } })"

section \<open>These operations change the appearance only\<close>

lemma cosm_fold_emit [simp]: "cosm s (fold emit rs t) = cosm s t"
  by (induction rs arbitrary: t) simp_all

lemma cosm_emitI: "cosm s t \<Longrightarrow> res (cosm s) (Some (emit r t))"
  by simp

text \<open>
  The rules \<open>cosm_intro\<close> follow a program that starts in a state \<open>t\<close> with \<open>cosm s t\<close>: an
  object that exists in \<open>s\<close> can be read and written, and what \<open>s\<close> knows of it still holds.
\<close>

lemma cosm_bind [cosm_intro]:
  "res (cosm s) p \<Longrightarrow> (\<And>u. cosm s u \<Longrightarrow> res (cosm s) (f u)) \<Longrightarrow> res (cosm s) (p \<bind> f)"
  by (rule res_bind)

lemma cosm_each [cosm_intro]:
  "cosm s t \<Longrightarrow> (\<And>x u. x \<in> set xs \<Longrightarrow> cosm s u \<Longrightarrow> res (cosm s) (f x u)) \<Longrightarrow>
   res (cosm s) (each f xs t)"
  by (rule res_each)

lemma cosm_each_from [cosm_intro]:
  "cosm s t \<Longrightarrow> (\<And>i x u. x \<in> set xs \<Longrightarrow> cosm s u \<Longrightarrow> res (cosm s) (f i x u)) \<Longrightarrow>
   res (cosm s) (each_from i f xs t)"
  by (rule res_each_from)

lemma cosm_client_bind [cosm_intro]:
  assumes "cosm s t" "clis s c \<noteq> None"
    and "\<And>k. clis t c = Some k \<Longrightarrow> cskel k = cskel (the (clis s c)) \<Longrightarrow> res (cosm s) (f k)"
  shows "res (cosm s) (clis t c \<bind> f)"
proof -
  obtain k where "clis s c = Some k" using assms(2) by auto
  with assms(1) obtain k' where "clis t c = Some k'" "cskel k' = cskel k"
    by (rule cosm_client)
  with assms(3) [of k'] \<open>clis s c = Some k\<close> show ?thesis by simp
qed

lemma cosm_monitor_bind [cosm_intro]:
  assumes "cosm s t" "mmem s m \<noteq> None"
    and "\<And>k. mmem t m = Some k \<Longrightarrow> mskel k = mskel (the (mmem s m)) \<Longrightarrow> res (cosm s) (f k)"
  shows "res (cosm s) (mmem t m \<bind> f)"
proof -
  obtain k where "mmem s m = Some k" using assms(2) by auto
  with assms(1) obtain k' where "mmem t m = Some k'" "mskel k' = mskel k"
    by (rule cosm_monitor)
  with assms(3) [of k'] \<open>mmem s m = Some k\<close> show ?thesis by simp
qed

lemma cosm_selm_bind [cosm_intro]:
  assumes "cosm s t" "selm s \<noteq> None"
    and "\<And>k. selm t = Some k \<Longrightarrow> mskel k = mskel (the (selm s)) \<Longrightarrow> res (cosm s) (f k)"
  shows "res (cosm s) (selm t \<bind> f)"
proof -
  have e: "selmon t = selmon s" using assms(1) by (rule cosm_fields)
  have "res (cosm s) (mmem t (selmon s) \<bind> f)"
    by (rule cosm_monitor_bind [OF assms(1)]) (use assms(2,3) e in \<open>simp_all add: selm_def\<close>)
  then show ?thesis by (simp add: selm_def e)
qed

lemma cosm_modcI [cosm_intro]:
  assumes "cosm s t" "clis s c \<noteq> None" "\<And>k. cskel (f k) = cskel k"
  shows "res (cosm s) (modc c f t)"
proof -
  have "clis t c \<noteq> None" using assms(2) cosm_clis_None [OF assms(1)] by simp
  then have "res (cosm t) (modc c f t)" by (rule cosm_modc) (rule assms(3))
  then show ?thesis by (rule res_mono) (rule cosm_trans [OF assms(1)])
qed

lemma cosm_modmI [cosm_intro]:
  assumes "cosm s t" "mmem s m \<noteq> None" "\<And>k. mskel (f k) = mskel k"
  shows "res (cosm s) (modm m f t)"
proof -
  obtain k where "mmem s m = Some k" using assms(2) by auto
  with assms(1) have "mmem t m \<noteq> None" by (metis cosm_monitor option.distinct(1))
  then have "res (cosm t) (modm m f t)" by (rule cosm_modm) (rule assms(3))
  then show ?thesis by (rule res_mono) (rule cosm_trans [OF assms(1)])
qed

text \<open>What a well-formed state has of the objects a program meets.\<close>

lemma wfx_selm: "wfx cf X s \<Longrightarrow> selm s \<noteq> None"
  by (metis option.distinct(1) wfx_selmon)

lemma wfx_alive: "wfx cf X s \<Longrightarrow> m \<in> set (mons s) \<Longrightarrow> mmem s m \<noteq> None"
  by (simp add: wfx_monitor)

lemma wfx_member:
  assumes "wfx cf X s" "mmem s m \<noteq> None" "mskel k = mskel (the (mmem s m))"
    "c \<in> set (m_clients k) \<or> c \<in> set (m_stack k) \<or> m_sel k = Some c"
  shows "clis s c \<noteq> None"
proof -
  obtain k' where k': "mmem s m = Some k'" using assms(2) by auto
  then have e: "mskel k = mskel k'" using assms(3) by simp
  have "c \<in> set (m_clients k')"
    using assms(4) wfx_stack_clients [OF assms(1) k'] wfx_sel_client [OF assms(1) k']
    by (auto simp: mskel_fields [OF e])
  then show ?thesis using wfx_clientD [OF assms(1) k'] by auto
qed

lemma wfx_mon_of:
  assumes "wfx cf X s" "clis s c \<noteq> None" "cskel k = cskel (the (clis s c))"
  shows "mmem s (c_mon k) \<noteq> None"
  using assms wfx_owner [OF assms(1), of c] wfx_alive [OF assms(1)]
  by (auto simp: cskel_def)

lemma cosm_updatenumlockmask [simp]: "cosm s (updatenumlockmask E t) = cosm s t"
  by (simp add: updatenumlockmask_def cosm_def skel_def)

lemma configure_cosm [cosm_intro]:
  "cosm s t \<Longrightarrow> clis s c \<noteq> None \<Longrightarrow> res (cosm s) (configure c t)"
  unfolding configure_def by (intro cosm_intro) simp_all

lemma setclientstate_cosm [cosm_intro]:
  "cosm s t \<Longrightarrow> clis s c \<noteq> None \<Longrightarrow> res (cosm s) (setclientstate E c st t)"
  unfolding setclientstate_def by (intro cosm_intro) simp_all

lemma sendevent_bind [cosm_intro]:
  assumes "cosm s t" "clis s c \<noteq> None" "\<And>b u. cosm s u \<Longrightarrow> res (cosm s) (f (b, u))"
  shows "res (cosm s) (sendevent E c p t \<bind> f)"
proof -
  obtain k where "clis t c = Some k" using assms(1,2) by (metis cosm_clis_None option.exhaust)
  then show ?thesis using assms(1,3) by (simp add: sendevent_def Let_def)
qed

lemma setfocus_cosm [cosm_intro]:
  "cosm s t \<Longrightarrow> clis s c \<noteq> None \<Longrightarrow> res (cosm s) (setfocus E c t)"
  unfolding setfocus_def by (intro cosm_intro res_let) simp_all

lemma killthis_cosm [cosm_intro]:
  "cosm s t \<Longrightarrow> clis s c \<noteq> None \<Longrightarrow> res (cosm s) (killthis E c t)"
  unfolding killthis_def by (intro cosm_intro) (simp_all, intro cosm_intro, simp_all)

lemma gettextprop_ok:
  assumes "titles_ok E" "title_ok t" "gettextprop E s w a t n = (b, t')"
  shows "title_ok t'"
  using assms by (auto simp: gettextprop_def titles_ok_def title_ok_strncpy
    split: if_splits option.splits textprop.splits)

lemma title_ok_broken: "title_ok (strncpy 255 broken)"
  by (rule title_ok_strncpy, rule title_ok_plain) (auto simp: broken_def is_cont_def)

lemma updatetitle_cosm [cosm_intro]:
  assumes C: "cosm s t" and W: "wfx cf X s" and c: "clis s c \<noteq> None" and T: "titles_ok E"
  shows "res (cosm s) (updatetitle E c t)"
proof -
  obtain k where k: "clis t c = Some k" using c cosm_clis_None [OF C, of c] by auto
  have ok: "title_ok (c_name k)" using wfx_title [OF wfx_cosm [OF C W] k] .
  obtain b1 t1 where 1: "gettextprop E t (c_win k) (netatom E NetWMName) (c_name k) 256 = (b1, t1)"
    by fastforce
  obtain b2 t2 where 2: "gettextprop E t (c_win k) XA_WM_NAME t1 256 = (b2, t2)" by fastforce
  have "title_ok t1" "title_ok t2" using gettextprop_ok [OF T _ 1] gettextprop_ok [OF T _ 2] ok by auto
  define v where "v = (if b1 then t1 else t2)"
  define u where "u = (if v = '''' then strncpy 255 broken else v)"
  have u: "updatetitle E c t = modc c (\<lambda>k. k\<lparr>c_name := u\<rparr>) t" "title_ok u"
    using k 1 2 \<open>title_ok t1\<close> \<open>title_ok t2\<close> title_ok_broken
    by (simp_all add: updatetitle_def Let_def u_def v_def)
  have "res (cosm t) (modc c (\<lambda>k. k\<lparr>c_name := u\<rparr>) t)"
    using k u(2) ok by (auto simp: modc_def cosm_def skel_def cskel_def fun_eq_iff)
  then show ?thesis unfolding u(1) by (rule res_mono) (rule cosm_trans [OF C])
qed

lemma grabbuttons_cosm [cosm_intro]:
  "cosm s t \<Longrightarrow> clis s c \<noteq> None \<Longrightarrow> res (cosm s) (grabbuttons E c f t)"
  unfolding grabbuttons_def by (intro cosm_intro res_intro) simp_all

lemma grabkeys_cosm [simp]: "cosm s (grabkeys E t) = cosm s t"
  by (simp add: grabkeys_def Let_def split: option.split)

lemma seturgent_cosm [cosm_intro]:
  "cosm s t \<Longrightarrow> clis s c \<noteq> None \<Longrightarrow> res (cosm s) (seturgent E c u t)"
  unfolding seturgent_def by (intro cosm_intro res_intro) (simp_all add: cskel_def)

lemma updatewmhints_cosm [cosm_intro]:
  "cosm s t \<Longrightarrow> clis s c \<noteq> None \<Longrightarrow> selm s \<noteq> None \<Longrightarrow> res (cosm s) (updatewmhints E c t)"
  unfolding updatewmhints_def
  by (intro cosm_intro res_intro) (simp_all add: cskel_def)

lemma updateclientdesktop_cosm [cosm_intro]:
  "cosm s t \<Longrightarrow> clis s c \<noteq> None \<Longrightarrow> selm s \<noteq> None \<Longrightarrow>
   res (cosm s) (updateclientdesktop E c t)"
  unfolding updateclientdesktop_def by (intro cosm_intro) simp_all

lemma updatecurrentdesktop_cosm [cosm_intro]:
  "cosm s t \<Longrightarrow> selm s \<noteq> None \<Longrightarrow> res (cosm s) (updatecurrentdesktop E t)"
  unfolding updatecurrentdesktop_def by (intro cosm_intro) simp_all

lemma updateclientlist_cosm [cosm_intro]:
  "cosm s t \<Longrightarrow> wfx cf X s \<Longrightarrow> res (cosm s) (updateclientlist E t)"
  unfolding updateclientlist_def
  by (intro cosm_intro res_intro)
    (auto simp: cosm_fields wfx_monitor elim: wfx_member dest: wfx_member)

lemma setdesktop_cosm [simp]:
  "cosm s (setcurrentdesktop E t) = cosm s t" "cosm s (setdesktopnames E t) = cosm s t"
  "cosm s (setnumdesktops E t) = cosm s t" "cosm s (setviewport E t) = cosm s t"
  by (simp_all add: setcurrentdesktop_def setdesktopnames_def setnumdesktops_def setviewport_def)

lemma warp_cosm [cosm_intro]:
  assumes "cosm s t" "wfx cf X s" "\<And>c. co = Some c \<Longrightarrow> clis s c \<noteq> None"
  shows "res (cosm s) (warp E co t)"
  unfolding warp_def
  by (intro cosm_intro res_intro)
    (use assms wfx_selm [OF assms(2)] wfx_mon_of [OF assms(2)] in \<open>simp_all\<close>)

end
