(* ===== verification/Geometry.thy ===== *)
theory Geometry
  imports XProps
begin

text \<open>
  The size of a client: its size hints (\<open>updatesizehints\<close>), the size it is given for a
  requested one (\<open>applysizehints\<close>) and the resizing itself (\<open>resize\<close>, \<open>resizeclient\<close>). All of
  it is appearance. \<open>geom\<close> is the four in-out arguments of \<open>applysizehints\<close>.
\<close>

section \<open>Operations\<close>

record geom =
  gx :: int
  gy :: int
  gw :: int
  gh :: int

text \<open>\<open>XGetWMNormalHints\<close> may fail, and then no flag is set.\<close>

definition hints_of :: "size_hints option \<Rightarrow> client \<Rightarrow> client" where
  "hints_of hs k =
     (let base = Option.bind hs PBaseSize; mn = Option.bind hs PMinSize;
          mx = Option.bind hs PMaxSize; inc = Option.bind hs PResizeInc;
          asp = Option.bind hs PAspect;
          (bw, bh) = (case base of Some p \<Rightarrow> p
                      | None \<Rightarrow> (case mn of Some p \<Rightarrow> p | None \<Rightarrow> (0, 0)));
          (iw, ih) = (case inc of Some p \<Rightarrow> p | None \<Rightarrow> (0, 0));
          (xw, xh) = (case mx of Some p \<Rightarrow> p | None \<Rightarrow> (0, 0));
          (nw, nh) = (case mn of Some p \<Rightarrow> p
                      | None \<Rightarrow> (case base of Some p \<Rightarrow> p | None \<Rightarrow> (0, 0)));
          (mina, maxa) = (case asp of
              Some ((nx, ny), (mx, my)) \<Rightarrow> (fquot ny nx, fquot mx my)
            | None \<Rightarrow> (Fin 0, Fin 0))
      in k\<lparr>c_mina := mina, c_maxa := maxa, c_basew := bw, c_baseh := bh, c_incw := iw, c_inch := ih,
           c_maxw := xw, c_maxh := xh, c_minw := nw, c_minh := nh, c_hintsvalid := True,
           c_isfixed := xw \<noteq> 0 \<and> xh \<noteq> 0 \<and> xw = nw \<and> xh = nh\<rparr>)"

definition updatesizehints :: "xenv \<Rightarrow> cid \<Rightarrow> wm \<Rightarrow> wm option" where
  "updatesizehints E c s =
     do {
       k \<leftarrow> clis s c;
       modc c (hints_of (XGetWMNormalHints E (xlog s) (c_win k))) s }"

text \<open>The part of \<open>applysizehints\<close> that keeps a client on the screen or its monitor.\<close>

definition clamp_position :: "bool \<Rightarrow> wm \<Rightarrow> client \<Rightarrow> monitor \<Rightarrow> geom \<Rightarrow> geom" where
  "clamp_position interact s k m g =
     (let w = max 1 (gw g); h = max 1 (gh g)
      in if interact then
           (let x = (if gx g > sw s then sw s - WIDTH k else gx g);
                y = (if gy g > sh s then sh s - HEIGHT k else gy g);
                x = (if x + w + 2 * c_bw k < 0 then 0 else x);
                y = (if y + h + 2 * c_bw k < 0 then 0 else y)
            in \<lparr>gx = x, gy = y, gw = w, gh = h\<rparr>)
         else
           (let x = (if gx g \<ge> m_wx m + m_ww m then m_wx m + m_ww m - WIDTH k else gx g);
                y = (if gy g \<ge> m_wy m + m_wh m then m_wy m + m_wh m - HEIGHT k else gy g);
                x = (if x + w + 2 * c_bw k \<le> m_wx m then m_wx m else x);
                y = (if y + h + 2 * c_bw k \<le> m_wy m then m_wy m else y)
            in \<lparr>gx = x, gy = y, gw = w, gh = h\<rparr>))"

definition least_size :: "int \<Rightarrow> geom \<Rightarrow> geom" where
  "least_size b g = g\<lparr>gw := max b (gw g), gh := max b (gh g)\<rparr>"

text \<open>The aspect limits, on the width and height without the base size or with it.\<close>

definition aspect_limit :: "client \<Rightarrow> int \<Rightarrow> int \<Rightarrow> (int \<times> int) option" where
  "aspect_limit k w h =
     (if xless (Fin 0) (c_mina k) \<and> xless (Fin 0) (c_maxa k) then
        if xless (c_maxa k) (fquot w h)
        then map_option (\<lambda>v. (v, h)) (scale_round h (c_maxa k))
        else if xless (c_mina k) (fquot h w)
        then map_option (\<lambda>v. (w, v)) (scale_round w (c_mina k))
        else Some (w, h)
      else Some (w, h))"

text \<open>ICCCM 4.1.2.3: base size, aspect, increments, minimum and maximum.\<close>

definition apply_hints :: "client \<Rightarrow> int \<Rightarrow> int \<Rightarrow> (int \<times> int) option" where
  "apply_hints k w h =
     do {
       let baseismin = (c_basew k = c_minw k \<and> c_baseh k = c_minh k);
       let (w, h) = (if baseismin then (w, h) else (w - c_basew k, h - c_baseh k));
       (w, h) \<leftarrow> aspect_limit k w h;
       let (w, h) = (if baseismin then (w - c_basew k, h - c_baseh k) else (w, h));
       let w = (if c_incw k \<noteq> 0 then w - cmod w (c_incw k) else w);
       let h = (if c_inch k \<noteq> 0 then h - cmod h (c_inch k) else h);
       let w = max (w + c_basew k) (c_minw k);
       let h = max (h + c_baseh k) (c_minh k);
       let w = (if c_maxw k \<noteq> 0 then min w (c_maxw k) else w);
       let h = (if c_maxh k \<noteq> 0 then min h (c_maxh k) else h);
       Some (w, h) }"

definition applysizehints ::
  "xenv \<Rightarrow> cid \<Rightarrow> geom \<Rightarrow> bool \<Rightarrow> wm \<Rightarrow> ((bool \<times> geom) \<times> wm) option" where
  "applysizehints E c g interact s =
     do {
       k \<leftarrow> clis s c;
       m \<leftarrow> mmem s (c_mon k);
       let g = least_size (bh s) (clamp_position interact s k m g);
       a \<leftarrow> arrange_of E m;
       (g, s) \<leftarrow>
         (if resizehints (cfg E) \<or> (c_isfloating k \<or> a = None) \<and> floathints (cfg E) then
            do {
              s \<leftarrow> (if \<not> c_hintsvalid k then updatesizehints E c s else Some s);
              k \<leftarrow> clis s c;
              (w, h) \<leftarrow> apply_hints k (gw g) (gh g);
              Some (g\<lparr>gw := w, gh := h\<rparr>, s) }
          else Some (g, s));
       k \<leftarrow> clis s c;
       Some ((gx g \<noteq> c_x k \<or> gy g \<noteq> c_y k \<or> gw g \<noteq> c_w k \<or> gh g \<noteq> c_h k, g), s) }"

text \<open>
  A client alone in a tiled layout, or in \<open>monocle\<close>, has no border when gaps are off: its
  window covers what the border would have.
\<close>

definition borderless :: "xenv \<Rightarrow> cid \<Rightarrow> wm \<Rightarrow> bool option" where
  "borderless E c s =
     do {
       k \<leftarrow> clis s c;
       m \<leftarrow> mmem s (c_mon k);
       sm \<leftarrow> selm s;
       if m_drawwithgaps sm then Some False
       else do {
         p \<leftarrow> nexttiled s (m_clients m);
         alone \<leftarrow> (if p = Some c then
                     do { q \<leftarrow> nexttiled s (after c (m_clients m)); Some (q = None) }
                   else Some False);
         a \<leftarrow> arrange_of E m;
         Some ((alone \<or> a = Some Monocle) \<and> \<not> c_isfullscreen k \<and> \<not> c_isfloating k \<and> a \<noteq> None) } }"

definition resizeclient ::
  "xenv \<Rightarrow> cid \<Rightarrow> int \<Rightarrow> int \<Rightarrow> int \<Rightarrow> int \<Rightarrow> wm \<Rightarrow> wm option" where
  "resizeclient E c x y w h s =
     do {
       s \<leftarrow> modc c (\<lambda>k. k\<lparr>c_x := x, c_y := y, c_w := w, c_h := h, c_oldx := c_x k,
                          c_oldy := c_y k, c_oldw := c_w k, c_oldh := c_h k\<rparr>) s;
       k \<leftarrow> clis s c;
       if c_beingmoved k then Some s
       else do {
         b \<leftarrow> borderless E c s;
         s \<leftarrow> (if b then modc c (\<lambda>k. k\<lparr>c_w := c_w k + c_bw k * 2, c_h := c_h k + c_bw k * 2\<rparr>) s
              else Some s);
         k \<leftarrow> clis s c;
         let s = emit (XConfigureWindow (c_win k) [CWX (c_x k), CWY (c_y k), CWWidth (c_w k),
                   CWHeight (c_h k), CWBorderWidth (if b then 0 else c_bw k)]) s;
         s \<leftarrow> configure c s;
         Some (emit XSync s) } }"

definition resize ::
  "xenv \<Rightarrow> cid \<Rightarrow> int \<Rightarrow> int \<Rightarrow> int \<Rightarrow> int \<Rightarrow> bool \<Rightarrow> wm \<Rightarrow> wm option" where
  "resize E c x y w h interact s =
     do {
       ((dirty, g), s) \<leftarrow> applysizehints E c \<lparr>gx = x, gy = y, gw = w, gh = h\<rparr> interact s;
       if dirty then resizeclient E c (gx g) (gy g) (gw g) (gh g) s else Some s }"

text \<open>The flag and decoration bits of the Motif hints.\<close>

definition MWM_HINTS_DECORATIONS :: "32 word" where "MWM_HINTS_DECORATIONS = 2"
definition MWM_DECOR_ALL :: "32 word" where "MWM_DECOR_ALL = 1"
definition MWM_DECOR_BORDER :: "32 word" where "MWM_DECOR_BORDER = 2"
definition MWM_DECOR_TITLE :: "32 word" where "MWM_DECOR_TITLE = 8"

definition updatemotifhints :: "xenv \<Rightarrow> cid \<Rightarrow> wm \<Rightarrow> wm option" where
  "updatemotifhints E c s =
     (if \<not> decorhints (cfg E) then Some s
      else do {
        k \<leftarrow> clis s c;
        case XGetMotifHints E (xlog s) (c_win k) of
          None \<Rightarrow> Some s
        | Some (flags, decor) \<Rightarrow>
            if flags AND MWM_HINTS_DECORATIONS = 0 then Some s
            else do {
              let b = (if decor AND MWM_DECOR_ALL \<noteq> 0 \<or> decor AND MWM_DECOR_BORDER \<noteq> 0
                          \<or> decor AND MWM_DECOR_TITLE \<noteq> 0
                       then borderpx (cfg E) else 0);
              s \<leftarrow> modc c (\<lambda>k. k\<lparr>c_bw := b, c_oldbw := b\<rparr>) s;
              resize E c (c_x k) (c_y k) (WIDTH k - 2 * b) (HEIGHT k - 2 * b) False s } })"

section \<open>Lemmas\<close>

lemma cskel_hints [simp]: "cskel (hints_of hs k) = cskel k"
  by (simp add: hints_of_def cskel_def Let_def split: prod.split)

lemma updatesizehints_cosm [cosm_intro]:
  "cosm s t \<Longrightarrow> clis s c \<noteq> None \<Longrightarrow> res (cosm s) (updatesizehints E c t)"
  unfolding updatesizehints_def by (intro cosm_intro) simp_all

text \<open>The aspect limits are multiplied only when they are finite.\<close>

lemma xless_pos_finite: "xless (Fin 0) a \<Longrightarrow> xless a b \<Longrightarrow> \<exists>f. a = Fin f"
  by (cases a; cases b) simp_all

lemma scale_round_Fin: "\<exists>f. a = Fin f \<Longrightarrow> \<exists>v. scale_round n a = Some v"
  by (auto simp: scale_round_def)

lemma aspect_limit_total: "\<exists>w' h'. aspect_limit k w h = Some (w', h')"
proof -
  have "\<exists>v. scale_round n a = Some v" if "xless (Fin 0) a" "xless a b" for n a b
    using that xless_pos_finite scale_round_Fin by blast
  then show ?thesis unfolding aspect_limit_def by (metis option.simps(9))
qed

lemma apply_hints_total: "\<exists>w' h'. apply_hints k w h = Some (w', h')"
proof -
  define w1 h1 where "w1 = (if c_basew k = c_minw k \<and> c_baseh k = c_minh k then w else w - c_basew k)"
    and "h1 = (if c_basew k = c_minw k \<and> c_baseh k = c_minh k then h else h - c_baseh k)"
  obtain w' h' where "aspect_limit k w1 h1 = Some (w', h')" using aspect_limit_total by blast
  then show ?thesis by (auto simp: apply_hints_def w1_def h1_def Let_def split: if_splits)
qed

lemma arrange_of_total:
  assumes "mon_shape (cfg E) b r m"
  shows "arrange_of E m \<noteq> None"
proof -
  have "ltsel m \<in> set (m_lt m)" using assms by (simp add: mon_shape_def ltsel_def)
  then have "deref_layout (cfg E) (ltsel m) \<noteq> None" using assms by (auto simp: mon_shape_def)
  then show ?thesis by (auto simp: arrange_of_def)
qed

text \<open>Reading the layout of a monitor that is a monitor of \<open>s\<close> up to appearance.\<close>

lemma cosm_arrange_bind [cosm_intro]:
  assumes "wfx (cfg E) X s" "mmem s m \<noteq> None" "mskel k = mskel (the (mmem s m))"
    "\<And>a. arrange_of E k = Some a \<Longrightarrow> res (cosm s) (f a)"
  shows "res (cosm s) (arrange_of E k \<bind> f)"
proof -
  obtain k' where k': "mmem s m = Some k'" using assms(2) by auto
  have e: "mskel k = mskel k'" using assms(3) k' by simp
  have "mon_shape (cfg E) (bh s) (running s) k"
    using wfx_shape [OF assms(1) k'] unfolding mon_shape_mskel [OF e] .
  then show ?thesis using arrange_of_total assms(4) by fastforce
qed

lemma nexttiled_bind [cosm_intro]:
  assumes "cosm s t" "wfx cf X s" "\<And>c. c \<in> set cs \<Longrightarrow> clis s c \<noteq> None"
    "\<And>p. res (cosm s) (f p)"
  shows "res (cosm s) (nexttiled t cs \<bind> f)"
proof -
  have "wfx cf X t" using assms(1,2) by (rule wfx_cosm)
  then have "nexttiled t cs = Some (find (\<lambda>c. the (istiled t c)) cs)"
    by (rule nexttiled_total) (use assms(1,3) cosm_clis_None in blast)
  then show ?thesis using assms(4) by simp
qed

lemma borderless_total:
  assumes W: "wfx (cfg E) X s" and c: "clis s c \<noteq> None"
  shows "borderless E c s \<noteq> None"
proof -
  obtain k where k: "clis s c = Some k" using c by auto
  obtain m where m: "mmem s (c_mon k) = Some m" using wfx_c_mon [OF W k] by metis
  obtain sm where sm: "selm s = Some sm" using wfx_selmon [OF W] by metis
  have al: "clis s a \<noteq> None" if "a \<in> set (m_clients m)" for a
    using wfx_clientD [OF W m that] by auto
  have al': "clis s a \<noteq> None" if "a \<in> set (after c (m_clients m))" for a
    using al that set_after [of c "m_clients m"] by auto
  obtain a where a: "arrange_of E m = Some a"
    using arrange_of_total [OF wfx_shape [OF W m]] by auto
  show ?thesis
    using k m sm a by (simp add: borderless_def nexttiled_total [OF W al] nexttiled_total [OF W al']) blast
qed

lemma borderless_bind [cosm_intro]:
  assumes C: "cosm s t" and W: "wfx (cfg E) X s" and c: "clis s c \<noteq> None"
    and Q: "\<And>b. res (cosm s) (f b)"
  shows "res (cosm s) (borderless E c t \<bind> f)"
proof -
  have "borderless E c t \<noteq> None"
    by (rule borderless_total [OF wfx_cosm [OF C W]]) (use c cosm_clis_None [OF C] in simp)
  then show ?thesis using Q by auto
qed

lemma resizeclient_cosm [cosm_intro]:
  "cosm s t \<Longrightarrow> wfx (cfg E) X s \<Longrightarrow> clis s c \<noteq> None \<Longrightarrow>
   res (cosm s) (resizeclient E c x y w h t)"
  unfolding resizeclient_def by (intro cosm_intro res_intro) (simp_all add: cskel_def)

lemma applysizehints_bind [cosm_intro]:
  assumes C: "cosm s t" and W: "wfx (cfg E) X s" and c: "clis s c \<noteq> None"
    and Q: "\<And>d g u. cosm s u \<Longrightarrow> res (cosm s) (f ((d, g), u))"
  shows "res (cosm s) (applysizehints E c g i t \<bind> f)"
proof -
  note W' = wfx_cosm [OF C W]
  obtain k where k: "clis t c = Some k" using c cosm_clis_None [OF C, of c] by auto
  obtain m where m: "mmem t (c_mon k) = Some m" using wfx_c_mon [OF W' k] by metis
  obtain a where a: "arrange_of E m = Some a"
    using arrange_of_total [OF wfx_shape [OF W' m]] by auto
  let ?g = "least_size (bh t) (clamp_position i t k m g)"
  obtain u k' where u: "(if \<not> c_hintsvalid k then updatesizehints E c t else Some t) = Some u"
    "clis u c = Some k'" "cosm s u"
  proof -
    have "res (cosm s) (if \<not> c_hintsvalid k then updatesizehints E c t else Some t)"
      by (intro cosm_intro res_intro) (use C c in simp_all)
    then show ?thesis using that c cosm_clis_None by (fastforce simp: res_iff)
  qed
  obtain w h where "apply_hints k' (gw ?g) (gh ?g) = Some (w, h)"
    using apply_hints_total by blast
  then show ?thesis
    using k m a u C Q by (simp add: applysizehints_def Let_def)
qed

lemma resize_cosm [cosm_intro]:
  "cosm s t \<Longrightarrow> wfx (cfg E) X s \<Longrightarrow> clis s c \<noteq> None \<Longrightarrow>
   res (cosm s) (resize E c x y w h i t)"
  unfolding resize_def by (intro cosm_intro res_intro) simp_all

lemma updatemotifhints_cosm [cosm_intro]:
  "cosm s t \<Longrightarrow> wfx (cfg E) X s \<Longrightarrow> clis s c \<noteq> None \<Longrightarrow>
   res (cosm s) (updatemotifhints E c t)"
  unfolding updatemotifhints_def by (intro cosm_intro res_intro) (simp_all add: cskel_def)

end
