(* ===== verification/Bar.thy ===== *)
theory Bar
  imports Geometry
begin

text \<open>
  The bar of a monitor: \<open>drawbar\<close>, which draws the status text, the tags, the layout symbol
  and the title of the selected client, and the operations around it. Drawing is a
  sequence of requests; \<open>drawbar\<close> also rewrites the layout symbol of the monitor and
  truncates the title of the selected client, and both are appearance.
\<close>

section \<open>Operations\<close>

text \<open>
  \<open>drw_text\<close> with something to render: nothing happens for an empty width, and otherwise it
  returns the right end of the text field.
\<close>

definition drw_text ::
  "int \<Rightarrow> int \<Rightarrow> int \<Rightarrow> int \<Rightarrow> int \<Rightarrow> string \<Rightarrow> bool \<Rightarrow> nat \<Rightarrow> wm \<Rightarrow> int \<times> wm" where
  "drw_text x y w h lpad t iv f s =
     (if w = 0 then (0, s) else (x + w, emit (DrwText x y w h lpad t iv f) s))"

definition tagbit :: "32 word \<Rightarrow> nat \<Rightarrow> bool" where
  "tagbit w i \<longleftrightarrow> w AND push_bit i 1 \<noteq> 0"

text \<open>The status text, drawn first; the result is its width.\<close>

definition draw_status :: "xenv \<Rightarrow> mid \<Rightarrow> monitor \<Rightarrow> wm \<Rightarrow> int \<times> wm" where
  "draw_status E m k s =
     (if (m = selmon s \<or> showstatus (cfg E) > 1) \<and> showstatus (cfg E) \<noteq> 0 then
        let s = emit (DrwSetScheme SchemeStatus) s;
            f = statusfontindex (cfg E);
            tw = TEXTW E s (stext s) f - lrpad s + horizpadbar (cfg E) * 2
        in (tw, snd (drw_text (m_ww k - tw) 0 tw (bh s) (horizpadbar (cfg E)) (stext s) False f s))
      else (0, s))"

text \<open>The loop over the tags; \<open>x\<close> is where the next one is drawn.\<close>

definition draw_tags ::
  "xenv \<Rightarrow> mid \<Rightarrow> monitor \<Rightarrow> 32 word \<Rightarrow> 32 word \<Rightarrow> wm \<Rightarrow> (int \<times> wm) option" where
  "draw_tags E m k occ urg s =
     (let boxs = font_h E div 9; boxw = font_h E div 6 + 2
      in each_from 0 (\<lambda>i t (x, s). do {
           let w = TEXTW E s t 0;
           let s = emit (DrwSetScheme (if tagbit (tagsel k) i then SchemeSel else SchemeNorm)) s;
           let s = snd (drw_text x 0 w (bh s) (cdiv (lrpad s) 2) t (tagbit urg i) 0 s);
           s \<leftarrow> (if tagbit occ i then
                  do {
                    filled \<leftarrow> (if m = selmon s then
                                 (case m_sel k of
                                    None \<Rightarrow> Some False
                                  | Some c \<Rightarrow> do { j \<leftarrow> clis s c; Some (tagbit (c_tags j) i) })
                               else Some False);
                    Some (emit (DrwRect (x + boxs) boxs boxw boxw filled (tagbit urg i)) s) }
                else Some s);
           Some (x + w, s) }) (tags (cfg E)) (0, s))"

text \<open>\<open>[s/a]\<close>: the position of the first client of the focus list among the tiled ones.\<close>

definition ltcount :: "wm \<Rightarrow> monitor \<Rightarrow> (nat \<times> nat) option" where
  "ltcount s k =
     do {
       ts \<leftarrow> tiled s (m_clients k);
       let a = length ts;
       let p = fold (\<lambda>(i, c) p. if m_stack k \<noteq> [] \<and> c = hd (m_stack k) then i + 1 else p)
                 (enumerate 0 ts) 0;
       Some (if p = 0 \<and> a \<noteq> 0 then 1 else p, a) }"

definition count_symbol :: "xenv \<Rightarrow> mid \<Rightarrow> monitor \<Rightarrow> wm \<Rightarrow> wm option" where
  "count_symbol E m k s =
     do {
       a \<leftarrow> arrange_of E k;
       if a \<in> {Some Monocle, Some Tile, Some Bstack, Some Grid} then
         do {
           (p, n) \<leftarrow> ltcount s k;
           if n > (if a = Some Grid then 2 else 1)
           then modm m (\<lambda>k. k\<lparr>m_ltsymbol := take 62 (''['' @ dec p @ ''/'' @ dec n @ '']'')\<rparr>) s
           else Some s }
       else Some s }"

text \<open>The title of the selected client \<open>c\<close>, in the \<open>w\<close> pixels from \<open>x\<close> on.\<close>

definition draw_title :: "xenv \<Rightarrow> mid \<Rightarrow> cid \<Rightarrow> int \<Rightarrow> int \<Rightarrow> wm \<Rightarrow> wm option" where
  "draw_title E m c x w s =
     do {
       let boxs = font_h E div 9;
       let boxw = font_h E div 6 + 2;
       let s = emit (DrwSetScheme (if m = selmon s then SchemeTitle else SchemeNorm)) s;
       s \<leftarrow> (if maxtitle (cfg E) > 0 then
              do {
                j \<leftarrow> clis s c;
                t \<leftarrow> utf8trunc (nat (min (maxtitle (cfg E)) 256)) (c_name j);
                s \<leftarrow> modc c (\<lambda>j. j\<lparr>c_name := t\<rparr>) s;
                let tlpad = (if centertitle (cfg E) then s32 (u32 (w - TEXTW E s t 0) div 2)
                             else cdiv (lrpad s) 2);
                Some (if w < TEXTW E s t 0 then emit (DrwRect x 0 w (bh s) True True) s
                      else snd (drw_text x 0 w (bh s) tlpad t False 0 s)) }
            else Some s);
       j \<leftarrow> clis s c;
       let s = (if c_isfloating j then emit (DrwRect (x + boxs) boxs boxw boxw (c_isfixed j) False) s
                else s);
       Some (if c_issticky j
             then emit (DrwRect (x + boxs) (bh s - boxs - boxw) boxw boxw (c_isfixed j) False) s
             else s) }"

definition drawbar :: "xenv \<Rightarrow> mid \<Rightarrow> wm \<Rightarrow> wm option" where
  "drawbar E m s =
     do {
       k \<leftarrow> mmem s m;
       if \<not> m_showbar k then Some (emit XSync s)
       else do {
         let (tw, s) = draw_status E m k s;
         js \<leftarrow> those (map (clis s) (m_clients k));
         let occ = fold (\<lambda>j w. w OR c_tags j) js 0;
         let urg = fold (\<lambda>j w. if c_isurgent j \<and> urgentontag (cfg E) then w OR c_tags j else w) js 0;
         (x, s) \<leftarrow> draw_tags E m k occ urg s;
         s \<leftarrow> count_symbol E m k s;
         k \<leftarrow> mmem s m;
         let w = TEXTW E s (m_ltsymbol k) 0;
         let s = emit (DrwSetScheme SchemeNorm) s;
         let (x, s) = drw_text x 0 w (bh s) (cdiv (lrpad s) 2) (m_ltsymbol k) False 0 s;
         let w = m_ww k - tw - x;
         a \<leftarrow> arrange_of E k;
         s \<leftarrow> (if w > bh s then
                (if a = Some Clear then
                   Some (emit (DrwRect x 0 w (bh s) True True) (emit (DrwSetScheme SchemeNorm) s))
                 else case m_sel k of
                     Some c \<Rightarrow> draw_title E m c x w s
                   | None \<Rightarrow>
                       Some (emit (DrwRect x 0 w (bh s) True True) (emit (DrwSetScheme SchemeNorm) s)))
              else Some s);
         Some (emit (DrwMap (m_barwin k) (m_ww k) (bh s)) s) } }"

definition drawbars :: "xenv \<Rightarrow> wm \<Rightarrow> wm option" where
  "drawbars E s = each (drawbar E) (mons s) s"

definition updatestatus :: "xenv \<Rightarrow> wm \<Rightarrow> wm option" where
  "updatestatus E s =
     do {
       let (ok, t) = gettextprop E s (root E) XA_WM_NAME (stext s) 256;
       let t = (if \<not> ok \<and> showstatus (cfg E) \<noteq> 0 then strncpy 255 ''dwm-6.6'' else t);
       let s = s\<lparr>stext := t\<rparr>;
       each (drawbar E) (mons s) s }"

definition barpos :: "int \<Rightarrow> monitor \<Rightarrow> monitor" where
  "barpos b m =
     (if m_showbar m then
        let wh = m_mh m - b
        in m\<lparr>m_by := (if m_topbar m then m_my m else m_my m + wh),
             m_wy := (if m_topbar m then m_my m + b else m_my m), m_wh := wh\<rparr>
      else m\<lparr>m_by := - b, m_wy := m_my m, m_wh := m_mh m\<rparr>)"

definition updatebarpos :: "mid \<Rightarrow> wm \<Rightarrow> wm option" where
  "updatebarpos m s = modm m (barpos (bh s)) s"

definition updatebars :: "xenv \<Rightarrow> wm \<Rightarrow> wm option" where
  "updatebars E s =
     each (\<lambda>m s. do {
       k \<leftarrow> mmem s m;
       if m_barwin k \<noteq> XNone then Some s
       else do {
         let w = XNewWindow E (xlog s);
         let s = emit (XCreateBar w (m_wx k) (m_by k) (m_ww k) (bh s)) s;
         modm m (\<lambda>k. k\<lparr>m_barwin := w\<rparr>) s } }) (mons s) s"

section \<open>Lemmas\<close>

lemma draw_status_cosm: "draw_status E m k t = (x, u) \<Longrightarrow> cosm s t \<Longrightarrow> cosm s u"
  by (auto simp: draw_status_def drw_text_def Let_def split: if_splits)

lemma drw_text_cosm: "drw_text x y w h l tx i f t = (r, u) \<Longrightarrow> cosm s t \<Longrightarrow> cosm s u"
  by (auto simp: drw_text_def split: if_splits)

lemma snd_drw_text [simp]:
  "cosm s (snd (drw_text x y w h l tx i f t)) = cosm s t"
  "clis (snd (drw_text x y w h l tx i f t)) = clis t"
  by (simp_all add: drw_text_def)

lemma draw_tags_bind [cosm_intro]:
  assumes C: "cosm s t" and W: "wfx cf X s"
    and m: "mmem s m \<noteq> None" "mskel k = mskel (the (mmem s m))"
    and Q: "\<And>x u. cosm s u \<Longrightarrow> res (cosm s) (f (x, u))"
  shows "res (cosm s) (draw_tags E m k occ urg t \<bind> f)"
proof -
  have sel: "\<exists>j. clis u c = Some j" if "m_sel k = Some c" "cosm s u" for c u
    using wfx_member [OF W m, of c] that cosm_clis_None [OF that(2), of c] by auto
  have "res (\<lambda>(_, u). cosm s u) (draw_tags E m k occ urg t)"
    unfolding draw_tags_def Let_def
    by (rule res_each_from) (use C in \<open>auto split: option.split dest!: sel\<close>)
  then show ?thesis using Q by (auto simp: res_iff)
qed

lemma those_bind [cosm_intro]:
  assumes "cosm s t" "\<And>c. c \<in> set cs \<Longrightarrow> clis s c \<noteq> None" "\<And>js. res (cosm s) (f js)"
  shows "res (cosm s) (those (map (clis t) cs) \<bind> f)"
proof -
  have "clis t c \<noteq> None" if "c \<in> set cs" for c
    using assms(2) [OF that] cosm_clis_None [OF assms(1), of c] by simp
  then have "\<exists>js. those (map (clis t) cs) = Some js"
    by (induction cs) fastforce+
  then show ?thesis using assms(3) by auto
qed

lemma tiled_bind [cosm_intro]:
  assumes "cosm s t" "wfx cf X s" "\<And>c. c \<in> set cs \<Longrightarrow> clis s c \<noteq> None"
    "\<And>ts. set ts \<subseteq> set cs \<Longrightarrow> res (cosm s) (f ts)"
  shows "res (cosm s) (tiled t cs \<bind> f)"
proof -
  have "wfx cf X t" using assms(1,2) by (rule wfx_cosm)
  then have "tiled t cs = Some (filter (\<lambda>c. the (istiled t c)) cs)"
    by (rule tiled_total) (use assms(1,3) cosm_clis_None in blast)
  then show ?thesis using assms(4) by auto
qed

lemma count_symbol_cosm [cosm_intro]:
  assumes C: "cosm s t" and W: "wfx (cfg E) X s"
    and m: "mmem s m \<noteq> None" "mskel k = mskel (the (mmem s m))"
  shows "res (cosm s) (count_symbol E m k t)"
proof -
  have al: "clis s c \<noteq> None" if "c \<in> set (m_clients k)" for c
    using wfx_member [OF W m, of c] that by simp
  have W': "wfx (cfg E) X t" using C W by (rule wfx_cosm)
  have "tiled t (m_clients k) = Some (filter (\<lambda>c. the (istiled t c)) (m_clients k))"
    by (rule tiled_total [OF W']) (use al cosm_clis_None [OF C] in blast)
  then obtain p where "ltcount t k = Some p" by (simp add: ltcount_def Let_def)
  then show ?thesis
    unfolding count_symbol_def
    by (intro cosm_arrange_bind [OF W m]) (use C m in \<open>auto intro!: cosm_intro simp: mskel_def split: prod.split\<close>)
qed

lemma draw_title_cosm [cosm_intro]:
  assumes C: "cosm s t" and W: "wfx (cfg E) X s" and c: "clis s c \<noteq> None" and ok: "config_ok (cfg E)"
  shows "res (cosm s) (draw_title E m c x w t)"
proof -
  have trunc: "res (cosm s) (do { j \<leftarrow> clis u c;
      t \<leftarrow> utf8trunc (nat (min (maxtitle (cfg E)) 256)) (c_name j);
      s \<leftarrow> modc c (\<lambda>j. j\<lparr>c_name := t\<rparr>) u; f t s })"
    if u: "cosm s u" and mt: "maxtitle (cfg E) > 0" and f: "\<And>t u. cosm s u \<Longrightarrow> res (cosm s) (f t u)"
    for u f
  proof -
    obtain j where j: "clis u c = Some j" using c cosm_clis_None [OF u, of c] by auto
    have tok: "title_ok (c_name j)" using wfx_title [OF wfx_cosm [OF u W] j] .
    have "6 \<le> nat (min (maxtitle (cfg E)) 256)" using ok mt by (auto simp: config_ok_def)
    then obtain tt where tt: "utf8trunc (nat (min (maxtitle (cfg E)) 256)) (c_name j) = Some tt"
      using utf8trunc_total [OF tok] by blast
    have "res (cosm u) (modc c (\<lambda>j. j\<lparr>c_name := tt\<rparr>) u)"
      using j tok utf8trunc_title_ok [OF tt]
      by (auto simp: modc_def cosm_def skel_def cskel_def fun_eq_iff)
    then have "res (cosm s) (modc c (\<lambda>j. j\<lparr>c_name := tt\<rparr>) u)"
      by (rule res_mono) (rule cosm_trans [OF u])
    then show ?thesis using j tt by (auto intro!: res_bind [where P = "cosm s"] f)
  qed
  show ?thesis
    unfolding draw_title_def Let_def
    by (rule cosm_bind, rule res_if, rule trunc) (use C c in \<open>auto intro!: cosm_client_bind\<close>)
qed

lemma drawbar_cosm [cosm_intro]:
  assumes C: "cosm s t" and W: "wfx (cfg E) X s" and m: "mmem s m \<noteq> None" and ok: "config_ok (cfg E)"
  shows "res (cosm s) (drawbar E m t)"
  unfolding drawbar_def
  by (intro cosm_intro res_intro)
    (use C W m ok wfx_member [OF W m] in \<open>auto intro: draw_status_cosm drw_text_cosm\<close>)

lemma drawbars_cosm [cosm_intro]:
  "cosm s t \<Longrightarrow> wfx (cfg E) X s \<Longrightarrow> config_ok (cfg E) \<Longrightarrow> res (cosm s) (drawbars E t)"
  unfolding drawbars_def by (intro cosm_intro) (auto simp: cosm_fields wfx_monitor)

lemma cosm_stext [simp]: "cosm s (t\<lparr>stext := x\<rparr>) = cosm s t"
  by (simp add: cosm_def skel_def)

lemma updatestatus_cosm [cosm_intro]:
  "cosm s t \<Longrightarrow> wfx (cfg E) X s \<Longrightarrow> config_ok (cfg E) \<Longrightarrow> res (cosm s) (updatestatus E t)"
  unfolding updatestatus_def
  by (intro cosm_intro res_intro) (auto simp: cosm_fields wfx_monitor)

end
