(* ===== verification/Layouts.thy ===== *)
theory Layouts
  imports Bar
begin

text \<open>
  The layouts and \<open>arrangemon\<close>. A layout places the tiled clients of a monitor in order; the
  number of tiled clients and their order do not change while it runs (\<open>resize\<close> is
  appearance), so a loop \<open>for (c = nexttiled(m->clients); c; c = nexttiled(c->next))\<close> runs
  over the list \<open>tiled\<close>, and \<open>nexttiled(c->next)\<close> is null at its last element.

  The sizes that the code keeps in \<open>unsigned int\<close> variables are numbers modulo \<open>2^32\<close>
  (\<open>u32\<close>); an argument of \<open>resize\<close> computed from one is converted back with \<open>s32\<close>.

  The locale \<open>layout_fn\<close> is the contract of a layout; \<open>arrangemon\<close> is proved from it.
\<close>

section \<open>Operations\<close>

text \<open>\<open>m->ww * m->mfact\<close> converted to \<open>unsigned int\<close>.\<close>

definition part :: "int \<Rightarrow> flt \<Rightarrow> int" where
  "part n f = u32 (ctrunc (imulf n f))"

definition minwsz :: "xenv \<Rightarrow> wm \<Rightarrow> int" where
  "minwsz E s =
     ctrunc (fl32 (imulf (bh s) (minwfact (cfg E)) + fl32 (of_int (vertgappx (cfg E) * 2))))"

text \<open>
  The variables of \<open>tile\<close>: the next free row of the two columns, and the place of the last
  master, which clients that do not fit are put on.
\<close>

record slots =
  sl_m :: int
  sl_t :: int
  sl_x :: int
  sl_y :: int
  sl_w :: int
  sl_h :: int

definition no_slots :: "int \<Rightarrow> slots" where
  "no_slots g = \<lparr>sl_m = g, sl_t = g, sl_x = 0, sl_y = 0, sl_w = 0, sl_h = 0\<rparr>"

definition resize_slot :: "xenv \<Rightarrow> cid \<Rightarrow> slots \<Rightarrow> wm \<Rightarrow> wm option" where
  "resize_slot E c a s = resize E c (s32 (sl_x a)) (s32 (sl_y a)) (s32 (sl_w a)) (s32 (sl_h a)) False s"

text \<open>The loop body of \<open>tile\<close> with gaps: client \<open>c\<close> is the \<open>i\<close>-th of \<open>n\<close>.\<close>

definition tile_gaps ::
  "xenv \<Rightarrow> monitor \<Rightarrow> int \<Rightarrow> int \<Rightarrow> int \<Rightarrow> int \<Rightarrow> nat \<Rightarrow> cid \<Rightarrow> slots \<times> wm \<Rightarrow> (slots \<times> wm) option" where
  "tile_gaps E m n maxn mw mn i c = (\<lambda>(a, s). do {
     j \<leftarrow> clis s c;
     let g = m_gappx m;
     let bw2 = 2 * c_bw j;
     if int i < m_nmaster m then
       do {
         let h = cdiv (m_wh m - sl_m a) (min n (m_nmaster m) - int i) - g;
         let a = a\<lparr>sl_x := u32 (m_wx m + g), sl_y := u32 (m_wy m + sl_m a),
                   sl_w := u32 (mw - bw2 - g), sl_h := u32 (h - bw2)\<rparr>;
         s \<leftarrow> resize_slot E c a s;
         j \<leftarrow> clis s c;
         Some (if sl_m a + HEIGHT j + g < m_wh m then a\<lparr>sl_m := sl_m a + HEIGHT j + g\<rparr> else a, s) }
     else if int i \<ge> maxn then
       do { s \<leftarrow> resize_slot E c a s; Some (a, s) }
     else do {
       let smh = part (m_mh m) (m_smfact m);
       let last = (int i + 1 = n);
       let h = s32 (u32 (m_wh m - (if last then 0 else smh) - sl_t a) div u32 (min n maxn - int i) - g);
       if h < mn \<or> h < bw2 then
         do { s \<leftarrow> resize_slot E c a s; Some (a, s) }
       else do {
         s \<leftarrow> resize E c (s32 (m_wx m + mw + g)) (s32 (m_wy m + sl_t a))
                (s32 (m_ww m - mw - bw2 - 2 * g)) (h - bw2) False s;
         j \<leftarrow> clis s c;
         Some (a\<lparr>sl_t := u32 (sl_t a + HEIGHT j + (if last then smh else 0) + g)\<rparr>, s) } } })"

definition tile_plain ::
  "xenv \<Rightarrow> monitor \<Rightarrow> int \<Rightarrow> int \<Rightarrow> int \<Rightarrow> int \<Rightarrow> nat \<Rightarrow> cid \<Rightarrow> slots \<times> wm \<Rightarrow> (slots \<times> wm) option" where
  "tile_plain E m n maxn mw mn i c = (\<lambda>(a, s). do {
     j \<leftarrow> clis s c;
     let bw2 = 2 * c_bw j;
     if int i < m_nmaster m then
       do {
         let h = cdiv (m_wh m - sl_m a) (min n (m_nmaster m) - int i);
         let a = a\<lparr>sl_x := u32 (m_wx m), sl_y := u32 (m_wy m + sl_m a),
                   sl_w := u32 (mw - bw2), sl_h := u32 (h - bw2)\<rparr>;
         s \<leftarrow> resize_slot E c a s;
         j \<leftarrow> clis s c;
         Some (a\<lparr>sl_m := sl_m a + HEIGHT j\<rparr>, s) }
     else if int i \<ge> maxn then
       do { s \<leftarrow> resize_slot E c a s; Some (a, s) }
     else do {
       let smh = part (m_mh m) (m_smfact m);
       let last = (int i + 1 = n);
       let h = s32 (u32 (m_wh m - (if last then 0 else smh) - sl_t a) div u32 (min n maxn - int i));
       if h < mn \<or> h < bw2 then
         do { s \<leftarrow> resize_slot E c a s; Some (a, s) }
       else do {
         s \<leftarrow> resize E c (s32 (m_wx m + mw)) (s32 (m_wy m + sl_t a))
                (s32 (m_ww m - mw - bw2)) (h - bw2) False s;
         j \<leftarrow> clis s c;
         Some (a\<lparr>sl_t := u32 (sl_t a + HEIGHT j + (if last then smh else 0))\<rparr>, s) } } })"

definition tile :: "xenv \<Rightarrow> mid \<Rightarrow> wm \<Rightarrow> wm option" where
  "tile E i s =
     do {
       m \<leftarrow> mmem s i;
       ts \<leftarrow> tiled s (m_clients m);
       let n = int (length ts);
       let mn = minwsz E s;
       let g = m_gappx m;
       let masters = (if m_nmaster m \<noteq> 0 then part (m_ww m) (m_mfact m) else 0);
       if n = 0 then Some s
       else if m_drawwithgaps m then
         do {
           let maxn = (if m_wh m - g > 0 \<and> g + mn > 0
                       then cdiv (m_wh m - g) (g + mn) + m_nmaster m else m_nmaster m);
           let mw = (if n > m_nmaster m then masters else u32 (m_ww m - g));
           (_, s) \<leftarrow> each_from 0 (tile_gaps E m n maxn mw mn) ts (no_slots g, s);
           Some s }
       else do {
           let maxn = (if mn > 0 then cdiv (m_wh m) mn + m_nmaster m else m_nmaster m);
           let mw = (if n > m_nmaster m then masters else u32 (m_ww m));
           (_, s) \<leftarrow> each_from 0 (tile_plain E m n maxn mw mn) ts (no_slots 0, s);
           Some s } }"

text \<open>The loop bodies of \<open>bstack\<close>; \<open>mh\<close> is an \<open>int\<close> here.\<close>

definition bstack_gaps ::
  "xenv \<Rightarrow> monitor \<Rightarrow> int \<Rightarrow> int \<Rightarrow> int \<Rightarrow> int \<Rightarrow> nat \<Rightarrow> cid \<Rightarrow> slots \<times> wm \<Rightarrow> (slots \<times> wm) option" where
  "bstack_gaps E m n maxn mh mn i c = (\<lambda>(a, s). do {
     j \<leftarrow> clis s c;
     let g = m_gappx m;
     let bw2 = 2 * c_bw j;
     if int i < m_nmaster m then
       do {
         let w = cdiv (m_ww m - sl_m a) (min n (m_nmaster m) - int i) - g;
         let a = a\<lparr>sl_x := u32 (m_wx m + sl_m a), sl_y := u32 (m_wy m + g),
                   sl_w := u32 (w - bw2), sl_h := u32 (mh - bw2 - g)\<rparr>;
         s \<leftarrow> resize_slot E c a s;
         j \<leftarrow> clis s c;
         Some (if sl_m a + WIDTH j + g < m_ww m then a\<lparr>sl_m := sl_m a + WIDTH j + g\<rparr> else a, s) }
     else if int i \<ge> maxn then
       do { s \<leftarrow> resize_slot E c a s; Some (a, s) }
     else do {
       let smw = part (m_mw m) (m_smfact m);
       let last = (int i + 1 = n);
       let w = (if last then cdiv (m_ww m - sl_t a) (min n maxn - int i) - g
                else s32 (u32 (m_ww m - smw - sl_t a) div u32 (min n maxn - int i) - g));
       if w < mn \<or> w < bw2 then
         do { s \<leftarrow> resize_slot E c a s; Some (a, s) }
       else do {
         s \<leftarrow> resize E c (m_wx m + sl_t a) (m_wy m + mh + g)
                (w - bw2) (m_wh m - mh - bw2 - 2 * g) False s;
         j \<leftarrow> clis s c;
         Some (a\<lparr>sl_t := s32 (sl_t a + WIDTH j + (if last then smw else 0) + g)\<rparr>, s) } } })"

definition bstack_plain ::
  "xenv \<Rightarrow> monitor \<Rightarrow> int \<Rightarrow> int \<Rightarrow> int \<Rightarrow> int \<Rightarrow> nat \<Rightarrow> cid \<Rightarrow> (int \<times> int) \<times> wm \<Rightarrow> ((int \<times> int) \<times> wm) option" where
  "bstack_plain E m n mh tw ty i c = (\<lambda>((mx, tx), s). do {
     j \<leftarrow> clis s c;
     let bw2 = 2 * c_bw j;
     if int i < m_nmaster m then
       do {
         let w = cdiv (m_ww m - mx) (min n (m_nmaster m) - int i);
         s \<leftarrow> resize E c (m_wx m + mx) (m_wy m) (w - bw2) (mh - bw2) False s;
         j \<leftarrow> clis s c;
         Some ((mx + WIDTH j, tx), s) }
     else do {
         s \<leftarrow> resize E c tx ty (tw - bw2) (m_wh m - mh - bw2) False s;
         j \<leftarrow> clis s c;
         Some ((mx, if tw \<noteq> m_ww m then tx + WIDTH j else tx), s) } })"

definition bstack :: "xenv \<Rightarrow> mid \<Rightarrow> wm \<Rightarrow> wm option" where
  "bstack E i s =
     do {
       m \<leftarrow> mmem s i;
       ts \<leftarrow> tiled s (m_clients m);
       let n = int (length ts);
       let mn = minwsz E s;
       let g = m_gappx m;
       let masters = (if m_nmaster m \<noteq> 0 then ctrunc (imulf (m_wh m) (m_mfact m)) else 0);
       if n = 0 then Some s
       else if m_drawwithgaps m then
         do {
           let maxn = (if m_ww m - g > 0 \<and> g + mn > 0
                       then cdiv (m_ww m - g) (g + mn) + m_nmaster m else m_nmaster m);
           let mh = (if n > m_nmaster m then masters else m_wh m - g);
           (_, s) \<leftarrow> each_from 0 (bstack_gaps E m n maxn mh mn) ts (no_slots g, s);
           Some s }
       else do {
           let many = n > m_nmaster m;
           let mh = (if many then masters else m_wh m);
           let tw = (if many then cdiv (m_ww m) (n - m_nmaster m) else m_ww m);
           let ty = (if many then m_wy m + mh else m_wy m);
           (_, s) \<leftarrow> each_from 0 (bstack_plain E m n mh tw ty) ts ((0, m_wx m), s);
           Some s } }"

text \<open>The symbol of the deck layouts: the number of masters and of the others.\<close>

definition deck_symbol :: "monitor \<Rightarrow> int \<Rightarrow> string" where
  "deck_symbol m n =
     take 62 (''['' @ decint (m_nmaster m) @ ''|'' @ decint (n - m_nmaster m) @ '']'')"

definition doubledeck :: "xenv \<Rightarrow> mid \<Rightarrow> wm \<Rightarrow> wm option" where
  "doubledeck E mi s =
     do {
       m \<leftarrow> mmem s mi;
       ts \<leftarrow> tiled s (m_clients m);
       let n = int (length ts);
       let g = m_gappx m;
       if n = 0 then Some s
       else do {
         s \<leftarrow> (if n > m_nmaster m then modm mi (\<lambda>m. m\<lparr>m_ltsymbol := deck_symbol m n\<rparr>) s else Some s);
         let mw = (if n > m_nmaster m
                   then (if m_nmaster m \<noteq> 0 then part (m_ww m) (m_dmfact m) else 0)
                   else if m_drawwithgaps m then u32 (m_ww m - g) else u32 (m_ww m));
         each_from 0 (\<lambda>i c s. do {
           j \<leftarrow> clis s c;
           let bw2 = 2 * c_bw j;
           if m_drawwithgaps m then
             if int i < m_nmaster m
             then resize E c (m_wx m + g) (m_wy m + g) (s32 (mw - bw2 - g)) (m_wh m - bw2 - 2 * g) False s
             else resize E c (s32 (m_wx m + mw + g)) (m_wy m + g)
                    (s32 (m_ww m - mw - bw2 - 2 * g)) (m_wh m - bw2 - 2 * g) False s
           else
             if int i < m_nmaster m
             then resize E c (m_wx m) (m_wy m) (s32 (mw - bw2)) (m_wh m - bw2) False s
             else resize E c (s32 (m_wx m + mw)) (m_wy m)
                    (s32 (m_ww m - mw - bw2)) (m_wh m - bw2) False s }) ts s } }"

definition zetadeck :: "xenv \<Rightarrow> mid \<Rightarrow> wm \<Rightarrow> wm option" where
  "zetadeck E mi s =
     do {
       m \<leftarrow> mmem s mi;
       ts \<leftarrow> tiled s (m_clients m);
       let n = int (length ts);
       let g = m_gappx m;
       if n = 0 then Some s
       else do {
         s \<leftarrow> (if n > m_nmaster m then modm mi (\<lambda>m. m\<lparr>m_ltsymbol := deck_symbol m n\<rparr>) s else Some s);
         let mh = (if n > m_nmaster m
                   then (if m_nmaster m \<noteq> 0 then part (m_wh m) (m_zmfact m) else 0)
                   else if m_drawwithgaps m then u32 (m_wh m - g) else u32 (m_wh m));
         each_from 0 (\<lambda>i c s. do {
           j \<leftarrow> clis s c;
           let bw2 = 2 * c_bw j;
           if m_drawwithgaps m then
             if int i < m_nmaster m
             then resize E c (m_wx m + g) (m_wy m + g) (m_ww m - bw2 - 2 * g) (s32 (mh - bw2 - g)) False s
             else resize E c (m_wx m + g) (s32 (m_wy m + mh + g))
                    (m_ww m - bw2 - 2 * g) (s32 (m_wh m - mh - bw2 - 2 * g)) False s
           else
             if int i < m_nmaster m
             then resize E c (m_wx m) (m_wy m) (m_mw m - bw2) (s32 (mh - bw2)) False s
             else resize E c (m_wx m) (s32 (m_wy m + mh))
                    (m_ww m - bw2) (s32 (m_wh m - mh - bw2)) False s }) ts s } }"

text \<open>\<open>monocle\<close> also counts the visible clients, and makes no use of the count.\<close>

definition monocle :: "xenv \<Rightarrow> mid \<Rightarrow> wm \<Rightarrow> wm option" where
  "monocle E i s =
     do {
       m \<leftarrow> mmem s i;
       _ \<leftarrow> filterO (ISVISIBLE s) (m_clients m);
       ts \<leftarrow> tiled s (m_clients m);
       each (\<lambda>c s. do {
         j \<leftarrow> clis s c;
         sm \<leftarrow> selm s;
         if m_drawwithgaps sm
         then resize E c (m_wx m) (m_wy m) (m_ww m - 2 * c_bw j) (m_wh m - 2 * c_bw j) False s
         else resize E c (m_wx m - c_bw j) (m_wy m) (m_ww m) (m_wh m) False s }) ts s }"

text \<open>\<open>for (rows = 0; rows <= n/2; rows++) if (rows*rows >= n) break;\<close>\<close>

function grid_rows :: "nat \<Rightarrow> nat \<Rightarrow> nat" where
  "grid_rows n r = (if r \<le> n div 2 then if r * r \<ge> n then r else grid_rows n (r + 1) else r)"
  by pat_completeness auto
termination by (relation "measure (\<lambda>(n, r). Suc (n div 2) - r)") auto

declare grid_rows.simps [simp del]

definition grid_cols :: "nat \<Rightarrow> nat \<Rightarrow> nat" where
  "grid_cols n rows = (if rows \<noteq> 0 \<and> (rows - 1) * rows \<ge> n then rows - 1 else rows)"

definition nz :: "int \<Rightarrow> int" where
  "nz x = (if x \<noteq> 0 then x else 1)"

text \<open>The geometry of the \<open>i\<close>-th cell; a division by zero rows is a crash.\<close>

definition cell_gaps :: "monitor \<Rightarrow> int \<Rightarrow> int \<Rightarrow> int \<Rightarrow> int \<Rightarrow> geom option" where
  "cell_gaps m rows cols b i =
     (if rows = 0 then None
      else let g = m_gappx m;
               hs = u32 (m_wh m - 2 * g - g * (rows - 1));
               ws = u32 (m_ww m - 2 * g - g * (cols - 1));
               ch = hs div nz rows; cw = ws div nz cols;
               chrest = u32 (hs - ch * rows); cwrest = u32 (ws - cw * cols);
               cc = i div rows; cr = i mod rows
           in Some \<lparr>gx = s32 (m_wx m + g + cc * (cw + g) + min cc cwrest),
                    gy = s32 (m_wy m + g + cr * (ch + g) + min cr chrest),
                    gw = s32 (cw + (if cc < cwrest then 1 else 0) - 2 * b),
                    gh = s32 (ch + (if cr < chrest then 1 else 0) - 2 * b)\<rparr>)"

definition cell_plain :: "monitor \<Rightarrow> int \<Rightarrow> int \<Rightarrow> int \<Rightarrow> int \<Rightarrow> geom option" where
  "cell_plain m rows cols b i =
     (if rows = 0 then None
      else let ch = u32 (m_wh m) div nz rows; cw = u32 (m_ww m) div nz cols;
               ah = (if (i + 1) mod rows = 0 then u32 (m_wh m - ch * rows) else 0);
               aw = (if i \<ge> u32 (rows * (cols - 1)) then u32 (m_ww m - cw * cols) else 0)
           in Some \<lparr>gx = s32 (m_wx m + (i div rows) * cw),
                    gy = s32 (m_wy m + (i mod rows) * ch),
                    gw = s32 (cw - 2 * b + aw), gh = s32 (ch - 2 * b + ah)\<rparr>)"

definition grid_dims :: "xenv \<Rightarrow> monitor \<Rightarrow> nat \<Rightarrow> int \<times> int" where
  "grid_dims E m n =
     (let rows = grid_rows n 0; cols = grid_cols n rows; g = m_gappx m;
          maxrows = (if m_drawwithgaps m
                     then u32 (cdiv (m_wh m - g) (nz (mincellh (cfg E) + g)))
                     else u32 (cdiv (m_wh m) (nz (mincellh (cfg E)))));
          maxcols = (if m_drawwithgaps m
                     then u32 (cdiv (m_ww m - g) (nz (mincellw (cfg E) + g)))
                     else u32 (cdiv (m_ww m) (nz (mincellw (cfg E)))))
      in (min (int rows) maxrows, min (int cols) maxcols))"

definition grid :: "xenv \<Rightarrow> mid \<Rightarrow> wm \<Rightarrow> wm option" where
  "grid E mi s =
     do {
       m \<leftarrow> mmem s mi;
       ts \<leftarrow> tiled s (m_clients m);
       let (rows, cols) = grid_dims E m (length ts);
       each_from 0 (\<lambda>i c s. do {
         j \<leftarrow> clis s c;
         q \<leftarrow> (if m_drawwithgaps m then cell_gaps m rows cols (c_bw j) (int i)
               else cell_plain m rows cols (c_bw j) (int i));
         resize E c (gx q) (gy q) (gw q) (gh q) False s }) ts s }"

definition clear :: "xenv \<Rightarrow> mid \<Rightarrow> wm \<Rightarrow> wm option" where
  "clear E i s =
     do {
       m \<leftarrow> mmem s i;
       each (\<lambda>c s. do {
         v \<leftarrow> ISVISIBLE s c;
         j \<leftarrow> clis s c;
         Some (if v then emit (XMoveWindow (c_win j) (WIDTH j * -2) (c_y j)) s else s) }) (m_stack m) s }"

definition run_layout :: "arrfn \<Rightarrow> xenv \<Rightarrow> mid \<Rightarrow> wm \<Rightarrow> wm option" where
  "run_layout a = (case a of Tile \<Rightarrow> tile | Monocle \<Rightarrow> monocle | Grid \<Rightarrow> grid
     | Doubledeck \<Rightarrow> doubledeck | Zetadeck \<Rightarrow> zetadeck | Bstack \<Rightarrow> bstack | Clear \<Rightarrow> clear)"

definition arrangemon :: "xenv \<Rightarrow> mid \<Rightarrow> wm \<Rightarrow> wm option" where
  "arrangemon E m s =
     do {
       k \<leftarrow> mmem s m;
       l \<leftarrow> deref_layout (cfg E) (ltsel k);
       sym \<leftarrow> symbol l;
       s \<leftarrow> modm m (\<lambda>k. k\<lparr>m_ltsymbol := strncpy 63 sym\<rparr>) s;
       case arrange_fn l of None \<Rightarrow> Some s | Some a \<Rightarrow> run_layout a E m s }"

section \<open>Lemmas\<close>

lemma mskel_ltsymbol [simp]: "mskel (k\<lparr>m_ltsymbol := x\<rparr>) = mskel k"
  by (simp add: mskel_def)

text \<open>The rules of \<open>cosm_intro\<close> for a body that also returns its variables.\<close>

lemma cosm_snd_bind [cosm_intro]:
  "res (cosm s) p \<Longrightarrow> (\<And>u. cosm s u \<Longrightarrow> res (\<lambda>r. cosm s (snd r)) (f u)) \<Longrightarrow>
   res (\<lambda>r. cosm s (snd r)) (p \<bind> f)"
  by (rule res_bind)

lemma cosm_snd_client [cosm_intro]:
  assumes "cosm s t" "clis s c \<noteq> None" "\<And>k. res (\<lambda>r. cosm s (snd r)) (f k)"
  shows "res (\<lambda>r. cosm s (snd r)) (clis t c \<bind> f)"
  using assms cosm_clis_None [OF assms(1), of c] by auto

lemma cosm_each_from_bind [cosm_intro]:
  assumes "cosm s t"
    and "\<And>i x a u. x \<in> set xs \<Longrightarrow> cosm s u \<Longrightarrow> res (\<lambda>r. cosm s (snd r)) (f i x (a, u))"
    and "\<And>a u. cosm s u \<Longrightarrow> res (cosm s) (g (a, u))"
  shows "res (cosm s) (each_from i f xs (a, t) \<bind> g)"
proof -
  have "res (\<lambda>r. cosm s (snd r)) (each_from i f xs (a, t))"
    by (rule res_each_from) (use assms(1,2) in auto)
  then show ?thesis using assms(3) by (auto simp: res_iff)
qed

lemma resize_slot_cosm [cosm_intro]:
  "cosm s t \<Longrightarrow> wfx (cfg E) X s \<Longrightarrow> clis s c \<noteq> None \<Longrightarrow> res (cosm s) (resize_slot E c a t)"
  unfolding resize_slot_def by (rule resize_cosm)

lemma tile_gaps_cosm [cosm_intro]:
  "cosm s t \<Longrightarrow> wfx (cfg E) X s \<Longrightarrow> clis s c \<noteq> None \<Longrightarrow>
   res (\<lambda>r. cosm s (snd r)) (tile_gaps E m n maxn mw mn i c (a, t))"
  unfolding tile_gaps_def prod.case by (intro cosm_intro res_intro) simp_all

lemma tile_plain_cosm [cosm_intro]:
  "cosm s t \<Longrightarrow> wfx (cfg E) X s \<Longrightarrow> clis s c \<noteq> None \<Longrightarrow>
   res (\<lambda>r. cosm s (snd r)) (tile_plain E m n maxn mw mn i c (a, t))"
  unfolding tile_plain_def prod.case by (intro cosm_intro res_intro) simp_all

lemma bstack_gaps_cosm [cosm_intro]:
  "cosm s t \<Longrightarrow> wfx (cfg E) X s \<Longrightarrow> clis s c \<noteq> None \<Longrightarrow>
   res (\<lambda>r. cosm s (snd r)) (bstack_gaps E m n maxn mh mn i c (a, t))"
  unfolding bstack_gaps_def prod.case by (intro cosm_intro res_intro) simp_all

lemma bstack_plain_cosm [cosm_intro]:
  "cosm s t \<Longrightarrow> wfx (cfg E) X s \<Longrightarrow> clis s c \<noteq> None \<Longrightarrow>
   res (\<lambda>r. cosm s (snd r)) (bstack_plain E m n mh tw ty i c (a, t))"
  unfolding bstack_plain_def by (cases a) (simp only: prod.case, intro cosm_intro res_intro, simp_all)

text \<open>
  The contract of a layout: it does not crash on a monitor of a well-formed state, and it
  changes the appearance only.
\<close>

locale layout_fn =
  fixes lay :: "xenv \<Rightarrow> mid \<Rightarrow> wm \<Rightarrow> wm option"
  assumes lay_cosm: "cosm s t \<Longrightarrow> wfx (cfg E) X s \<Longrightarrow> config_ok (cfg E) \<Longrightarrow>
    mmem s m \<noteq> None \<Longrightarrow> res (cosm s) (lay E m t)"
begin

lemma lay_wfx: "wfx (cfg E) X s \<Longrightarrow> config_ok (cfg E) \<Longrightarrow> mmem s m \<noteq> None \<Longrightarrow>
    res (wfx (cfg E) X) (lay E m s)"
  using lay_cosm [OF cosm_refl] by (rule res_mono) (auto intro: wfx_cosm)

lemma lay_visible:
  assumes "wfx (cfg E) X s" "config_ok (cfg E)" "mmem s m \<noteq> None"
  shows "res (\<lambda>t. \<forall>c. ISVISIBLE t c = ISVISIBLE s c) (lay E m s)"
  using lay_cosm [OF cosm_refl assms] by (rule res_mono) (auto intro: cosm_ISVISIBLE)

end

interpretation tile: layout_fn tile
  by unfold_locales (unfold tile_def, intro cosm_intro res_intro, auto dest: wfx_member)

interpretation bstack: layout_fn bstack
  by unfold_locales (unfold bstack_def, intro cosm_intro res_intro, auto dest: wfx_member)

interpretation doubledeck: layout_fn doubledeck
  by unfold_locales
    (unfold doubledeck_def, intro cosm_intro res_intro, auto dest: wfx_member)

interpretation zetadeck: layout_fn zetadeck
  by unfold_locales
    (unfold zetadeck_def, intro cosm_intro res_intro, auto dest: wfx_member)

lemma cosm_ISVISIBLE_bind [cosm_intro]:
  assumes "cosm s t" "wfx cf X s" "clis s c \<noteq> None"
    and "\<And>v. ISVISIBLE s c = Some v \<Longrightarrow> res (cosm s) (f v)"
  shows "res (cosm s) (ISVISIBLE t c \<bind> f)"
  using wfx_ISVISIBLE [OF assms(2,3)] assms(4) by (auto simp: cosm_ISVISIBLE [OF assms(1)])

lemma cosm_visible_bind [cosm_intro]:
  assumes "cosm s t" "wfx cf X s" "\<And>c. c \<in> set cs \<Longrightarrow> clis s c \<noteq> None"
    and "\<And>vs. res (cosm s) (f vs)"
  shows "res (cosm s) (filterO (ISVISIBLE t) cs \<bind> f)"
proof -
  have "filterO (ISVISIBLE t) cs = Some (filter (\<lambda>c. the (ISVISIBLE t c)) cs)"
    by (rule filterO_total)
      (use wfx_ISVISIBLE [OF assms(2) assms(3)] in \<open>auto simp: cosm_ISVISIBLE [OF assms(1)]\<close>)
  then show ?thesis using assms(4) by simp
qed

interpretation monocle: layout_fn monocle
  by unfold_locales (unfold monocle_def, intro cosm_intro res_intro, auto dest: wfx_member wfx_selm)

interpretation clear: layout_fn clear
  by unfold_locales (unfold clear_def, intro cosm_intro res_intro, auto dest: wfx_member)

text \<open>\<open>grid\<close> has a row when it has a client, because a monitor is high enough for one.\<close>

lemma grid_rows_ge: "r \<le> grid_rows n r"
  by (induction n r rule: grid_rows.induct) (subst grid_rows.simps, auto)

lemma grid_rows_pos: "0 < n \<Longrightarrow> 0 < grid_rows n 0"
  using grid_rows_ge [of 1 n] by (subst grid_rows.simps) simp

lemma grid_dims_pos:
  assumes "config_ok (cfg E)" "mon_shape (cfg E) b r m" "0 < n" "grid_dims E m n = (rows, cols)"
  shows "0 < rows"
proof -
  let ?g = "m_gappx m" and ?h = "mincellh (cfg E)"
  have b: "0 < ?h" "0 \<le> ?g" "?h + 2 * ?g \<le> m_wh m" "m_wh m < 2147483648"
    using assms(1,2) by (auto simp: config_ok_def mon_shape_def screen_ok_def)
  have q: "0 < u32 (cdiv h d)" if "0 < d" "d \<le> h" "h < 2147483648" for h d
  proof -
    have "0 < h div d" using that by (simp add: pos_imp_zdiv_pos_iff)
    moreover have "h div d < 2147483648"
      using that by (smt (verit) int_div_less_self div_by_1 zdiv_mono2)
    ultimately show ?thesis using that by (simp add: cdiv_nonneg)
  qed
  have "0 < u32 (cdiv (m_wh m - ?g) (?h + ?g))" "0 < u32 (cdiv (m_wh m) ?h)"
    using b by (auto intro!: q)
  then show ?thesis
    using assms(3,4) b grid_rows_pos [OF assms(3)] by (auto simp: grid_dims_def Let_def nz_def)
qed

lemma cell_total: "0 < rows \<Longrightarrow> \<exists>q. cell_gaps m rows cols b i = Some q"
  "0 < rows \<Longrightarrow> \<exists>q. cell_plain m rows cols b i = Some q"
  by (simp_all add: cell_gaps_def cell_plain_def Let_def)

lemma grid_cosm:
  assumes C: "cosm s t" and W: "wfx (cfg E) X s" and ok: "config_ok (cfg E)" and m: "mmem s m \<noteq> None"
  shows "res (cosm s) (grid E m t)"
proof -
  have cell: "res (cosm s) ((if m_drawwithgaps k then cell_gaps k rows cols b i
                            else cell_plain k rows cols b i) \<bind> f)"
    if "mskel k = mskel (the (mmem s m))" "0 < n" "grid_dims E k n = (rows, cols)"
      "\<And>q. res (cosm s) (f q)" for k rows cols b i f n
  proof -
    obtain k' where k': "mmem s m = Some k'" using m by auto
    with that(1) have e: "mskel k = mskel k'" by simp
    have "mon_shape (cfg E) (bh s) (running s) k"
      using wfx_shape [OF W k'] unfolding mon_shape_mskel [OF e] .
    then have "0 < rows" using grid_dims_pos [OF ok _ that(2,3)] by blast
    then show ?thesis using cell_total [of rows] that(4) by (auto split: if_splits) (metis bind.bind_lunit)+
  qed
  show ?thesis
    unfolding grid_def
    by (intro cosm_intro res_intro cell) (use C W m in \<open>auto dest: wfx_member\<close>)
qed

interpretation grid: layout_fn grid
  by unfold_locales (rule grid_cosm)

lemma run_layout_cosm [cosm_intro]:
  "cosm s t \<Longrightarrow> wfx (cfg E) X s \<Longrightarrow> config_ok (cfg E) \<Longrightarrow> mmem s m \<noteq> None \<Longrightarrow>
   res (cosm s) (run_layout a E m t)"
  by (cases a) (simp_all add: run_layout_def tile.lay_cosm monocle.lay_cosm grid.lay_cosm
    doubledeck.lay_cosm zetadeck.lay_cosm bstack.lay_cosm clear.lay_cosm del: not_None_eq)

lemma layout_total:
  assumes "mon_shape cf b r k"
  obtains l sym where "deref_layout cf (ltsel k) = Some l" "symbol l = Some sym"
proof -
  have "ltsel k \<in> set (m_lt k)" using assms by (simp add: mon_shape_def ltsel_def)
  then show ?thesis using assms that by (fastforce simp: mon_shape_def)
qed

lemma arrangemon_cosm [cosm_intro]:
  assumes C: "cosm s t" and W: "wfx (cfg E) X s" and ok: "config_ok (cfg E)" and m: "mmem s m \<noteq> None"
  shows "res (cosm s) (arrangemon E m t)"
  unfolding arrangemon_def
proof (rule cosm_monitor_bind [OF C m])
  fix k assume k: "mmem t m = Some k"
  obtain l sym where l: "deref_layout (cfg E) (ltsel k) = Some l" "symbol l = Some sym"
    using layout_total [OF wfx_shape [OF wfx_cosm [OF C W] k]] by metis
  show "res (cosm s) (do {
       l \<leftarrow> deref_layout (cfg E) (ltsel k);
       sym \<leftarrow> symbol l;
       s \<leftarrow> modm m (\<lambda>k. k\<lparr>m_ltsymbol := strncpy 63 sym\<rparr>) t;
       case arrange_fn l of None \<Rightarrow> Some s | Some a \<Rightarrow> run_layout a E m s })"
    unfolding l Option.bind.bind_lunit
    by (intro cosm_intro res_intro) (use C W m ok in auto)
qed

end
