(* ===== verification/Frames.thy ===== *)
theory Frames
  imports Layouts
begin

text \<open>
  The frame of the operations that change what a client or monitor is, but neither create
  nor destroy one: \<open>frx X s t\<close> says that \<open>t\<close> is well-formed, where the clients in \<open>X\<close> are in
  the hands of the running operation, and has the objects of \<open>s\<close>; \<open>fr\<close> is its instance
  with none. The rules \<open>fr_intro\<close> follow a program as \<open>cosm_intro\<close> does; an operation that changes the
  appearance only is within the frame (\<open>fr_ops\<close>).
\<close>

definition frx :: "config \<Rightarrow> cid set \<Rightarrow> wm \<Rightarrow> wm \<Rightarrow> bool" where
  "frx cf X s t \<longleftrightarrow> wfx cf X t \<and> mons t = mons s \<and> bh t = bh s \<and> nextaddr t = nextaddr s
     \<and> running t = running s
     \<and> (\<forall>c. clis t c = None \<longleftrightarrow> clis s c = None)"

abbreviation fr :: "config \<Rightarrow> wm \<Rightarrow> wm \<Rightarrow> bool" where
  "fr cf \<equiv> frx cf {}"

named_theorems fr_intro "operations that keep the objects and the structure"

lemma fr_refl: "wfx cf X s \<Longrightarrow> frx cf X s s"
  by (simp add: frx_def)

lemma fr_trans: "frx cf X s t \<Longrightarrow> frx cf X t u \<Longrightarrow> frx cf X s u"
  by (simp add: frx_def)

lemma fr_wf [dest]: "frx cf X s t \<Longrightarrow> wfx cf X t"
  by (simp add: frx_def)

lemma fr_mons: "frx cf X s t \<Longrightarrow> mons t = mons s"
  by (simp add: frx_def)

lemma cosm_fr: "cosm t u \<Longrightarrow> frx cf X s t \<Longrightarrow> frx cf X s u"
  unfolding frx_def using wfx_cosm [of t u cf X] cosm_fields [of t u] cosm_clis_None [of t u] by metis

lemma keep_fr:
  assumes "keep t u" "wfx cf X u" "frx cf X s t" "bh u = bh t"
  shows "frx cf X s u"
  using assms by (auto simp: frx_def keep_def) (metis map_option_is_None option.distinct(1))+

lemma res_fr: "res (cosm t) p \<Longrightarrow> frx cf X s t \<Longrightarrow> res (frx cf X s) p"
  by (erule res_mono) (rule cosm_fr)

lemma fr_emit [simp]: "frx cf X s (emit r t) = frx cf X s t"
  using cosm_fr [of t "emit r t"] cosm_fr [of "emit r t" t] cosm_sym [of t "emit r t"] by auto

lemma fr_fold_emit [simp]: "frx cf X s (fold emit rs t) = frx cf X s t"
  by (induction rs arbitrary: t) simp_all

lemma fr_alive: "frx cf X s t \<Longrightarrow> clis s c \<noteq> None \<Longrightarrow> clis t c \<noteq> None"
  by (simp add: frx_def)

lemma fr_alive_back: "frx cf X s t \<Longrightarrow> clis t c \<noteq> None \<Longrightarrow> clis s c \<noteq> None"
  by (simp add: frx_def)

lemma fr_monitor: "frx cf X s t \<Longrightarrow> m \<in> set (mons s) \<Longrightarrow> mmem t m \<noteq> None"
  using wfx_alive [of cf X t m] by (simp add: frx_def)

lemma fr_member:
  assumes "frx cf X s t" "mmem t m = Some k"
    "c \<in> set (m_clients k) \<or> c \<in> set (m_stack k) \<or> m_sel k = Some c"
  shows "clis s c \<noteq> None"
proof -
  have "clis t c \<noteq> None"
    by (rule wfx_member [OF fr_wf [OF assms(1)], of m k]) (use assms in simp_all)
  then show ?thesis by (rule fr_alive_back [OF assms(1)])
qed

lemma fr_selm: "frx cf X s t \<Longrightarrow> selm t \<noteq> None"
  by (rule wfx_selm) (rule fr_wf)

lemma fr_c_mon: "frx cf X s t \<Longrightarrow> clis t c = Some k \<Longrightarrow> c_mon k \<in> set (mons s)"
  using wfx_owner [of cf X t c k] by (simp add: frx_def)

lemma fr_listed:
  assumes "frx cf X s t" "clis t c = Some j" "mmem t (c_mon j) = Some k" "c \<notin> X"
  shows "c \<in> set (m_clients k)"
  using wfx_listedD [OF fr_wf [OF assms(1)] assms(2,4)] assms(3) by simp

section \<open>Following a program\<close>

lemma fr_bind [fr_intro]:
  "res (frx cf X s) p \<Longrightarrow> (\<And>u. frx cf X s u \<Longrightarrow> res (frx cf X s) (f u)) \<Longrightarrow> res (frx cf X s) (p \<bind> f)"
  by (rule res_bind)

lemma fr_client_bind [fr_intro]:
  "clis t c \<noteq> None \<Longrightarrow> (\<And>k. clis t c = Some k \<Longrightarrow> res (frx cf X s) (f k)) \<Longrightarrow>
   res (frx cf X s) (clis t c \<bind> f)"
  by auto

lemma fr_monitor_bind [fr_intro]:
  "mmem t m \<noteq> None \<Longrightarrow> (\<And>k. mmem t m = Some k \<Longrightarrow> res (frx cf X s) (f k)) \<Longrightarrow>
   res (frx cf X s) (mmem t m \<bind> f)"
  by auto

lemma fr_selm_bind [fr_intro]:
  "frx cf X s t \<Longrightarrow> (\<And>k. mmem t (selmon t) = Some k \<Longrightarrow> selm t = Some k \<Longrightarrow> res (frx cf X s) (f k)) \<Longrightarrow>
   res (frx cf X s) (selm t \<bind> f)"
  using fr_selm by (fastforce simp: selm_def)

lemma fr_arrange_bind [fr_intro]:
  assumes "frx (cfg E) X s t" "mmem t m = Some k" "\<And>a. res (frx (cfg E) X s) (f a)"
  shows "res (frx (cfg E) X s) (arrange_of E k \<bind> f)"
  using arrange_of_total [OF wfx_shape [OF fr_wf [OF assms(1)] assms(2)]] assms(3) by fastforce

lemma fr_ISVISIBLE_bind [fr_intro]:
  assumes "frx cf X s t" "clis t c \<noteq> None" "\<And>v. ISVISIBLE t c = Some v \<Longrightarrow> res (frx cf X s) (f v)"
  shows "res (frx cf X s) (ISVISIBLE t c \<bind> f)"
  using wfx_ISVISIBLE [OF fr_wf [OF assms(1)] assms(2)] assms(3) by auto

lemma fr_first_visible [fr_intro]:
  assumes "frx cf X s t" "\<And>c. c \<in> set cs \<Longrightarrow> clis t c \<noteq> None"
    "\<And>r. (\<forall>c. r = Some c \<longrightarrow> c \<in> set cs \<and> ISVISIBLE t c = Some True) \<Longrightarrow> res (frx cf X s) (f r)"
  shows "res (frx cf X s) (firstO (ISVISIBLE t) cs \<bind> f)"
proof -
  have "\<exists>r. firstO (ISVISIBLE t) cs = Some r"
  proof (rule exI, rule firstO_total)
    show "ISVISIBLE t x = Some (the (ISVISIBLE t x))" if "x \<in> set cs" for x
      using wfx_ISVISIBLE [OF fr_wf [OF assms(1)] assms(2) [OF that]] by simp
  qed
  then obtain r where r: "firstO (ISVISIBLE t) cs = Some r" by blast
  have "c \<in> set cs \<and> ISVISIBLE t c = Some True" if "r = Some c" for c
    using r that firstO_mem firstO_sound by metis
  then show ?thesis using r assms(3) [of r] by simp
qed

lemma fr_nexttiled_bind [fr_intro]:
  assumes "frx cf X s t" "\<And>c. c \<in> set cs \<Longrightarrow> clis t c \<noteq> None"
    "\<And>r. (\<forall>c. r = Some c \<longrightarrow> c \<in> set cs) \<Longrightarrow> res (frx cf X s) (f r)"
  shows "res (frx cf X s) (nexttiled t cs \<bind> f)"
proof -
  let ?r = "find (\<lambda>c. the (istiled t c)) cs"
  have "nexttiled t cs = Some ?r" by (rule nexttiled_total [OF fr_wf [OF assms(1)] assms(2)])
  moreover have "c \<in> set cs" if "?r = Some c" for c using find_Some_mem [OF that] by simp
  ultimately show ?thesis using assms(3) [of ?r] by simp
qed

lemma fr_tiled_bind [fr_intro]:
  assumes "frx cf X s t" "\<And>c. c \<in> set cs \<Longrightarrow> clis t c \<noteq> None"
    "\<And>r. set r \<subseteq> set cs \<Longrightarrow> res (frx cf X s) (f r)"
  shows "res (frx cf X s) (tiled t cs \<bind> f)"
  using assms(3) by (auto simp: tiled_total [OF fr_wf [OF assms(1)] assms(2)])

lemma fr_wintoclient_bind [fr_intro]:
  assumes "frx cf X s t" "\<And>r. (\<forall>c. r = Some c \<longrightarrow> clis t c \<noteq> None) \<Longrightarrow> res (frx cf X s) (f r)"
  shows "res (frx cf X s) (wintoclient t w \<bind> f)"
proof -
  obtain r where r: "wintoclient t w = Some r" "\<And>c. r = Some c \<Longrightarrow> clis t c \<noteq> None"
    using wintoclient_total [OF fr_wf [OF assms(1)], of w] by (metis option.distinct(1))
  then show ?thesis using assms(2) [of r] by simp
qed

lemma fr_each [fr_intro]:
  "frx cf X s t \<Longrightarrow> (\<And>x u. x \<in> set xs \<Longrightarrow> frx cf X s u \<Longrightarrow> res (frx cf X s) (f x u)) \<Longrightarrow>
   res (frx cf X s) (each f xs t)"
  by (rule res_each)

lemma fr_sendevent_bind [fr_intro]:
  assumes "frx cf X s t" "clis t c \<noteq> None" "\<And>b u. frx cf X s u \<Longrightarrow> res (frx cf X s) (f (b, u))"
  shows "res (frx cf X s) (sendevent E c p t \<bind> f)"
  using assms by (auto simp: sendevent_def Let_def)

text \<open>Updates of one object that keep the structure.\<close>

lemma wfx_modc:
  assumes W: "wfx cf X s" and k: "clis s c = Some k"
    and f: "c_mon k' = c_mon k" "title_ok (c_name k')"
  shows "wfx cf X (s\<lparr>clis := (clis s)(c \<mapsto> k')\<rparr>)"
  unfolding wfx_def
proof (intro conjI allI impI ballI, goal_cases)
  case 1 then show ?case using wfx_distinct_mons [OF W] by simp
next
  case 2 then show ?case using wfx_selmon_in [OF W] by simp
next
  case 3 then show ?case using wfx_dom [OF W] by simp
next
  case (4 m j) then show ?case using wfx_shape [OF W] by simp
next
  case (5 m j) then show ?case using wfx_lists [OF W] by simp
next
  case (6 m j a) then show ?case using wfx_notin [OF W] by simp
next
  case (7 m j a) then show ?case using wfx_clientD [OF W, of m j a] k f by auto
next
  case (8 a j) then show ?case using wfx_owner [OF W] k f by (auto split: if_splits)
next
  case (9 a j) then show ?case using wfx_title [OF W] f by (auto split: if_splits)
next
  case (10 a j) then show ?case using wfx_listedD [OF W] k f by (fastforce split: if_splits)
next
  case (11 a) then show ?case using wfx_alloc [OF W] by simp
next
  case (12 a) then show ?case using wfx_fresh [OF W, of a] k by auto
next
  case (13 a) then show ?case using wfx_fresh [OF W, of a] by simp
next
  case 14 then show ?case using wfx_screen [OF W] by simp
qed

lemma wfx_modm:
  assumes W: "wfx cf X s" and k: "mmem s m = Some k"
    and f: "mon_shape cf (bh s) (running s) k'" "mon_lists cf k'" "m_clients k' = m_clients k"
  shows "wfx cf X (s\<lparr>mmem := (mmem s)(m \<mapsto> k')\<rparr>)"
proof (rule wfx_update [OF W k f(1,2)])
  show "c \<notin> X \<and> (\<exists>j. clis s c = Some j \<and> c_mon j = m)" if "c \<in> set (m_clients k')" for c
    using that f(3) wfx_notin [OF W k] wfx_clientD [OF W k] by simp
  show "c \<in> X \<or> c \<in> set (m_clients k')" if "clis s c = Some j" "c_mon j = m" for c j
    using wfx_listedD [OF W that(1)] that(2) k f(3) by auto
qed (use wfx_alloc [OF W] in auto)

lemma fr_modc [fr_intro]:
  assumes "frx cf X s t" "clis t c \<noteq> None"
    "\<And>k. clis t c = Some k \<Longrightarrow> c_mon (f k) = c_mon k"
    "\<And>k. clis t c = Some k \<Longrightarrow> title_ok (c_name k) \<Longrightarrow> title_ok (c_name (f k))"
  shows "res (frx cf X s) (modc c f t)"
proof -
  obtain k where k: "clis t c = Some k" using assms(2) by auto
  note W = fr_wf [OF assms(1)]
  have "wfx cf X (t\<lparr>clis := (clis t)(c \<mapsto> f k)\<rparr>)"
    using wfx_modc [OF W k assms(3) [OF k] assms(4) [OF k wfx_title [OF W k]]] .
  moreover have "clis s c \<noteq> None" by (rule fr_alive_back [OF assms(1)]) (simp add: k)
  ultimately show ?thesis using assms(1) k by (simp add: frx_def modc_def)
qed

lemma fr_modm:
  assumes "frx cf X s t" "mmem t m \<noteq> None"
    "\<And>k. mmem t m = Some k \<Longrightarrow> mon_shape cf (bh t) (running t) k \<Longrightarrow> mon_shape cf (bh t) (running t) (f k)"
    "\<And>k. mmem t m = Some k \<Longrightarrow> mon_lists cf k \<Longrightarrow> mon_lists cf (f k) \<and> m_clients (f k) = m_clients k"
  shows "res (frx cf X s) (modm m f t)"
proof -
  obtain k where k: "mmem t m = Some k" using assms(2) by auto
  note W = fr_wf [OF assms(1)]
  have "wfx cf X (t\<lparr>mmem := (mmem t)(m \<mapsto> f k)\<rparr>)"
    using wfx_modm [OF W k assms(3) [OF k wfx_shape [OF W k]]] assms(4) [OF k wfx_lists [OF W k]]
    by simp
  then show ?thesis using assms(1) k by (auto simp: frx_def modm_def)
qed

lemma wfx_selmon_upd: "wfx cf X s \<Longrightarrow> m \<in> set (mons s) \<Longrightarrow> wfx cf X (s\<lparr>selmon := m\<rparr>)"
  unfolding wfx_def by simp

lemma fr_selmon [fr_intro]:
  assumes "frx cf X s t" "m \<in> set (mons s)"
  shows "frx cf X s (t\<lparr>selmon := m\<rparr>)"
  using assms wfx_selmon_upd [of cf X t m] by (auto simp: frx_def)

lemmas fr_ops [fr_intro] =
  configure_cosm [OF cosm_refl, THEN res_fr]
  setclientstate_cosm [OF cosm_refl, THEN res_fr]
  setfocus_cosm [OF cosm_refl, THEN res_fr]
  killthis_cosm [OF cosm_refl, THEN res_fr]
  updatetitle_cosm [OF cosm_refl, THEN res_fr]
  grabbuttons_cosm [OF cosm_refl, THEN res_fr]
  seturgent_cosm [OF cosm_refl, THEN res_fr]
  updatewmhints_cosm [OF cosm_refl, THEN res_fr]
  updateclientdesktop_cosm [OF cosm_refl, THEN res_fr]
  updatecurrentdesktop_cosm [OF cosm_refl, THEN res_fr]
  updateclientlist_cosm [OF cosm_refl, THEN res_fr]
  warp_cosm [OF cosm_refl, THEN res_fr]
  updatesizehints_cosm [OF cosm_refl, THEN res_fr]
  resizeclient_cosm [OF cosm_refl, THEN res_fr]
  resize_cosm [OF cosm_refl, THEN res_fr]
  updatemotifhints_cosm [OF cosm_refl, THEN res_fr]
  drawbar_cosm [OF cosm_refl, THEN res_fr]
  drawbars_cosm [OF cosm_refl, THEN res_fr]
  updatestatus_cosm [OF cosm_refl, THEN res_fr]
  arrangemon_cosm [OF cosm_refl, THEN res_fr]

end
