(* ===== verification/FocusOps.thy ===== *)
theory FocusOps
  imports Frames
begin

text \<open>
  Focus, stacking and order: \<open>focus\<close> and \<open>unfocus\<close>, \<open>arrange\<close> with \<open>showhide\<close> and
  \<open>restack\<close>, and the commands that move the focus or reorder clients. \<open>focus_spec\<close> is the
  contract of \<open>focus\<close>; the commands are followed with the rules of \<open>fr_intro\<close>.
\<close>

section \<open>Operations\<close>

definition unfocus :: "xenv \<Rightarrow> cid option \<Rightarrow> bool \<Rightarrow> wm \<Rightarrow> wm option" where
  "unfocus E co setf s =
     (case co of
        None \<Rightarrow> Some s
      | Some c \<Rightarrow> do {
          s \<leftarrow> grabbuttons E c False (s\<lparr>prevclient := Some c\<rparr>);
          k \<leftarrow> clis s c;
          let s = emit (XSetWindowBorder (c_win k) SchemeNorm ColBorder) s;
          Some (if setf then emit (XDeleteProperty RootWin (netatom E NetActiveWindow))
                               (emit (XSetInputFocus RootWin) s)
                else s) })"

text \<open>
  The client that \<open>focus(c)\<close> selects: \<open>c\<close> when it is given and visible, else the first
  visible client of the focus list of the selected monitor.
\<close>

definition focus_target :: "wm \<Rightarrow> cid option \<Rightarrow> cid option option" where
  "focus_target s co =
     do {
       v \<leftarrow> (case co of None \<Rightarrow> Some False | Some c \<Rightarrow> ISVISIBLE s c);
       if v then Some co
       else do { m \<leftarrow> selm s; firstO (ISVISIBLE s) (m_stack m) } }"

text \<open>The branch of \<open>focus\<close> for a client, up to the assignment of \<open>selmon->sel\<close>.\<close>

definition focus_client :: "xenv \<Rightarrow> cid \<Rightarrow> wm \<Rightarrow> wm option" where
  "focus_client E c s =
     do {
       k \<leftarrow> clis s c;
       let s = (if c_mon k \<noteq> selmon s then s\<lparr>selmon := c_mon k\<rparr> else s);
       s \<leftarrow> (if c_isurgent k then seturgent E c False s else Some s);
       s \<leftarrow> do { s \<leftarrow> detachstack c s; attachstack c s };
       s \<leftarrow> grabbuttons E c True s;
       let s = emit (XSetWindowBorder (c_win k) SchemeSel ColBorder) s;
       m \<leftarrow> selm s;
       let s = (if \<not> m_drawwithgaps m \<and> \<not> c_isfloating k
                then emit (XConfigureWindow (c_win k)
                            [CWSibling (m_barwin m), CWStackMode StackBelow]) s
                else s);
       s \<leftarrow> setfocus E c s;
       if autoraise (cfg E) then
         do {
           a \<leftarrow> arrange_of E m;
           Some (if a = None \<or> c_isfloating k then emit (XRaiseWindow (c_win k)) s else s) }
       else Some s }"

definition focus :: "xenv \<Rightarrow> cid option \<Rightarrow> wm \<Rightarrow> wm option" where
  "focus E co s =
     do {
       co \<leftarrow> focus_target s co;
       m \<leftarrow> selm s;
       s \<leftarrow> (if m_sel m \<noteq> None \<and> m_sel m \<noteq> co then unfocus E (m_sel m) False s else Some s);
       s \<leftarrow> (case co of
              Some c \<Rightarrow> focus_client E c s
            | None \<Rightarrow> Some (emit (XDeleteProperty RootWin (netatom E NetActiveWindow))
                             (emit (XSetInputFocus RootWin) s)));
       s \<leftarrow> modm (selmon s) (\<lambda>m. m\<lparr>m_sel := co\<rparr>) s;
       drawbars E s }"

fun showhide :: "xenv \<Rightarrow> cid list \<Rightarrow> wm \<Rightarrow> wm option" where
  "showhide E [] s = Some s"
| "showhide E (c # cs) s =
     do {
       v \<leftarrow> ISVISIBLE s c;
       k \<leftarrow> clis s c;
       if v then
         do {
           let s = emit (XMoveWindow (c_win k) (c_x k) (c_y k)) s;
           m \<leftarrow> mmem s (c_mon k);
           a \<leftarrow> arrange_of E m;
           s \<leftarrow> (if (a = None \<or> c_isfloating k) \<and> \<not> c_isfullscreen k
                then resize E c (c_x k) (c_y k) (c_w k) (c_h k) False s else Some s);
           showhide E cs s }
       else
         do {
           s \<leftarrow> showhide E cs s;
           k \<leftarrow> clis s c;
           Some (emit (XMoveWindow (c_win k) (WIDTH k * -2) (c_y k)) s) } }"

text \<open>The loop of \<open>restack\<close>: each tiled visible client goes below the one before it.\<close>

definition stack_below :: "cid list \<Rightarrow> window \<times> wm \<Rightarrow> (window \<times> wm) option" where
  "stack_below cs =
     each_from 0 (\<lambda>i c (sib, s). do {
       k \<leftarrow> clis s c;
       v \<leftarrow> (if c_isfloating k then Some False else ISVISIBLE s c);
       Some (if v then (c_win k, emit (XConfigureWindow (c_win k)
                                   [CWSibling sib, CWStackMode StackBelow]) s)
             else (sib, s)) }) cs"

definition restack :: "xenv \<Rightarrow> mid \<Rightarrow> wm \<Rightarrow> wm option" where
  "restack E m s =
     do {
       s \<leftarrow> drawbar E m s;
       k \<leftarrow> mmem s m;
       case m_sel k of
         None \<Rightarrow> Some s
       | Some c \<Rightarrow> do {
           j \<leftarrow> clis s c;
           a \<leftarrow> arrange_of E k;
           let s = (if c_isfloating j \<or> a = None then emit (XRaiseWindow (c_win j)) s else s);
           s \<leftarrow> (if a \<noteq> None then
                  do { (_, s) \<leftarrow> stack_below (m_stack k) (m_barwin k, s); Some s }
                else Some s);
           s \<leftarrow> (if m = selmon s \<and> tagsel k AND c_tags j \<noteq> 0 \<and> a \<noteq> Some Monocle
                then warp E (Some c) s else Some s);
           Some (emit XDropEnterEvents (emit XSync s)) } }"

definition arrange :: "xenv \<Rightarrow> mid option \<Rightarrow> wm \<Rightarrow> wm option" where
  "arrange E mo s =
     do {
       s \<leftarrow> updatecurrentdesktop E s;
       case mo of
         Some m \<Rightarrow> do {
           k \<leftarrow> mmem s m;
           s \<leftarrow> showhide E (m_stack k) s;
           s \<leftarrow> arrangemon E m s;
           restack E m s }
       | None \<Rightarrow> do {
           s \<leftarrow> each (\<lambda>m s. do { k \<leftarrow> mmem s m; showhide E (m_stack k) s }) (mons s) s;
           each (arrangemon E) (mons s) s } }"

definition focusin :: "xenv \<Rightarrow> window \<Rightarrow> wm \<Rightarrow> wm option" where
  "focusin E w s =
     do {
       m \<leftarrow> selm s;
       case m_sel m of
         None \<Rightarrow> Some s
       | Some c \<Rightarrow> do { k \<leftarrow> clis s c; if w \<noteq> c_win k then setfocus E c s else Some s } }"

text \<open>The marks have one entry per tag, at the tag's number.\<close>

definition focusmaster :: "xenv \<Rightarrow> wm \<Rightarrow> wm option" where
  "focusmaster E s =
     do {
       m \<leftarrow> selm s;
       if m_nmaster m > 1 then Some s
       else case m_sel m of
         None \<Rightarrow> Some s
       | Some c \<Rightarrow> do {
           k \<leftarrow> clis s c;
           if c_isfullscreen k \<and> lockfullscreen (cfg E) then Some s
           else do {
             r \<leftarrow> nexttiled s (m_clients m);
             case r of
               None \<Rightarrow> Some s
             | Some master \<Rightarrow> do {
                 b \<leftarrow> lowbit (tagsel m);
                 let i = b + 1;
                 if c = master then
                   (case m_tagmarked m ! i of
                      None \<Rightarrow> Some s
                    | Some t \<Rightarrow> do {
                        v \<leftarrow> ISVISIBLE s t;
                        if v then focus E (Some t) s else Some s })
                 else do {
                   s \<leftarrow> modm (selmon s) (\<lambda>m. m\<lparr>m_tagmarked := (m_tagmarked m)[i := Some c]\<rparr>) s;
                   focus E (Some master) s } } } } }"

text \<open>
  The visible client after or before \<open>x\<close> in the client list, going around at its ends.
\<close>

definition stack_neighbour :: "wm \<Rightarrow> monitor \<Rightarrow> cid \<Rightarrow> int \<Rightarrow> cid option option" where
  "stack_neighbour s m x dir =
     (if dir > 0 then
        do {
          r \<leftarrow> firstO (ISVISIBLE s) (after x (m_clients m));
          case r of Some c \<Rightarrow> Some (Some c) | None \<Rightarrow> firstO (ISVISIBLE s) (m_clients m) }
      else if x \<in> set (m_clients m) then
        do {
          vs \<leftarrow> filterO (ISVISIBLE s) (before x (m_clients m));
          if vs \<noteq> [] then Some (Some (last vs))
          else do {
            us \<leftarrow> filterO (ISVISIBLE s) (x # after x (m_clients m));
            Some (if us = [] then None else Some (last us)) } }
      else None)"

definition focusstack :: "xenv \<Rightarrow> int \<Rightarrow> wm \<Rightarrow> wm option" where
  "focusstack E dir s =
     do {
       m \<leftarrow> selm s;
       case m_sel m of
         None \<Rightarrow> Some s
       | Some x \<Rightarrow> do {
           k \<leftarrow> clis s x;
           if c_isfullscreen k \<and> lockfullscreen (cfg E) then Some s
           else do {
             r \<leftarrow> stack_neighbour s m x dir;
             case r of
               None \<Rightarrow> Some s
             | Some c \<Rightarrow> do {
                 s \<leftarrow> focus E (Some c) s;
                 s \<leftarrow> restack E (selmon s) s;
                 m \<leftarrow> selm s;
                 warp E (m_sel m) s } } } }"

text \<open>
  \<open>focussame\<close> collects at most 32 clients on the selected tags with the class of the
  selected client; the array they go to is not initialised, so that taking a member of an
  empty one is a crash. A class is null only when \<open>XGetClassHint\<close> says so.
\<close>

fun same_class :: "xenv \<Rightarrow> wm \<Rightarrow> string option \<Rightarrow> 32 word \<Rightarrow> nat \<Rightarrow> cid list \<Rightarrow> cid list option" where
  "same_class E s cl tg n [] = Some []"
| "same_class E s cl tg n (c # cs) =
     (if n \<ge> 32 then Some []
      else do {
        k \<leftarrow> clis s c;
        if c_tags k AND tg = 0 then same_class E s cl tg n cs
        else case XGetClassHint E (xlog s) (c_win k) of
          None \<Rightarrow> same_class E s cl tg n cs
        | Some (_, r) \<Rightarrow> do {
            a \<leftarrow> cl;
            b \<leftarrow> r;
            if a = b then map_option ((#) c) (same_class E s cl tg (n + 1) cs)
            else same_class E s cl tg n cs } })"

definition same_target :: "wm \<Rightarrow> int \<Rightarrow> window \<Rightarrow> cid list \<Rightarrow> cid option option" where
  "same_target s dir w cs =
     (if dir \<noteq> 1 \<and> dir \<noteq> -1 then Some None
      else do {
        ks \<leftarrow> those (map (clis s) cs);
        let n = length cs;
        let p = find (\<lambda>i. c_win (ks ! i) = w) [0..<n];
        case p of
          Some i \<Rightarrow> Some (Some (cs ! (if dir = 1 then (i + 1) mod n else (i + n - 1) mod n)))
        | None \<Rightarrow> if n = 0 then None
                  else Some (Some (if dir = 1 then cs ! 0 else cs ! (n - 1))) })"

definition focussame :: "xenv \<Rightarrow> int \<Rightarrow> wm \<Rightarrow> wm option" where
  "focussame E dir s =
     do {
       m \<leftarrow> selm s;
       case m_sel m of
         None \<Rightarrow> Some s
       | Some x \<Rightarrow> do {
           k \<leftarrow> clis s x;
           case XGetClassHint E (xlog s) (c_win k) of
             None \<Rightarrow> Some s
           | Some (_, cl) \<Rightarrow> do {
               let s = s\<lparr>lastfocusedwin := c_win k\<rparr>;
               cs \<leftarrow> same_class E s cl (tagsel m) 0 (m_clients m);
               r \<leftarrow> same_target s dir (c_win k) cs;
               case r of
                 None \<Rightarrow> Some s
               | Some c \<Rightarrow> do {
                   s \<leftarrow> focus E (Some c) s;
                   s \<leftarrow> restack E (selmon s) s;
                   k \<leftarrow> clis s c;
                   Some (s\<lparr>lastfocusedwin := c_win k\<rparr>) } } } }"

definition swapfocus :: "xenv \<Rightarrow> wm \<Rightarrow> wm option" where
  "swapfocus E s =
     do {
       m \<leftarrow> selm s;
       case (prevclient s, m_sel m) of
         (Some p, Some x) \<Rightarrow>
           if x \<noteq> p then
             if p \<in> set (m_clients m) then
               do {
                 s \<leftarrow> focus E (Some p) s;
                 q \<leftarrow> prevclient s;
                 k \<leftarrow> clis s q;
                 restack E (c_mon k) s }
             else Some s
           else focusstack E (-1) s
       | _ \<Rightarrow> Some s }"

text \<open>\<open>m->next\<close> is the monitor after \<open>m\<close> in \<open>mons\<close>.\<close>

definition dirtomon :: "int \<Rightarrow> wm \<Rightarrow> mid option" where
  "dirtomon dir s =
     (if dir > 0 then
        (case after (selmon s) (mons s) of m # _ \<Rightarrow> Some m
         | [] \<Rightarrow> (case mons s of m # _ \<Rightarrow> Some m | [] \<Rightarrow> None))
      else case mons s of
        [] \<Rightarrow> None
      | m # ms \<Rightarrow>
          if selmon s = m then Some (last (mons s))
          else if selmon s \<in> set ms then Some (last (before (selmon s) (mons s)))
          else None)"

definition focusmon :: "xenv \<Rightarrow> int \<Rightarrow> wm \<Rightarrow> wm option" where
  "focusmon E dir s =
     (if length (mons s) < 2 then Some s
      else do {
        m \<leftarrow> dirtomon dir s;
        if m = selmon s then Some s
        else do {
          k \<leftarrow> selm s;
          s \<leftarrow> unfocus E (m_sel k) False s;
          s \<leftarrow> focus E None (s\<lparr>selmon := m\<rparr>);
          k \<leftarrow> selm s;
          warp E (m_sel k) s } })"

definition rotatestack :: "xenv \<Rightarrow> int \<Rightarrow> wm \<Rightarrow> wm option" where
  "rotatestack E dir s =
     do {
       m \<leftarrow> selm s;
       case m_sel m of
         None \<Rightarrow> Some s
       | Some f \<Rightarrow> do {
           ts \<leftarrow> tiled s (m_clients m);
           if ts = [] then Some s
           else do {
             s \<leftarrow> (if dir > 0 then
                    do {
                      let c = last ts;
                      s \<leftarrow> do { s \<leftarrow> detach E c s; attach c s };
                      do { s \<leftarrow> detachstack c s; attachstack c s } }
                  else do {
                      let c = hd ts;
                      s \<leftarrow> detach E c s;
                      s \<leftarrow> enqueue c s;
                      s \<leftarrow> detachstack c s;
                      enqueuestack c s });
             s \<leftarrow> arrange E (Some (selmon s)) s;
             s \<leftarrow> focus E (Some f) s;
             restack E (selmon s) s } } }"

definition pop :: "xenv \<Rightarrow> cid \<Rightarrow> wm \<Rightarrow> wm option" where
  "pop E c s =
     do {
       m \<leftarrow> selm s;
       b \<leftarrow> lowbit (tagsel m);
       k \<leftarrow> clis s c;
       cm \<leftarrow> mmem s (c_mon k);
       t \<leftarrow> nexttiled s (m_clients cm);
       s \<leftarrow> modm (c_mon k) (\<lambda>m. m\<lparr>m_tagmarked := (m_tagmarked m)[b + 1 := t]\<rparr>) s;
       s \<leftarrow> do { s \<leftarrow> detach E c s; attach c s };
       s \<leftarrow> focus E (Some c) s;
       k \<leftarrow> clis s c;
       arrange E (Some (c_mon k)) s }"

definition zoom :: "xenv \<Rightarrow> wm \<Rightarrow> wm option" where
  "zoom E s =
     do {
       m \<leftarrow> selm s;
       t \<leftarrow> nexttiled s (m_clients m);
       let s = s\<lparr>prevclient := t\<rparr>;
       a \<leftarrow> arrange_of E m;
       case (a, m_sel m) of
         (Some _, Some c) \<Rightarrow> do {
           k \<leftarrow> clis s c;
           if c_isfloating k then Some s
           else if t = Some c then
             do {
               t \<leftarrow> nexttiled s (after c (m_clients m));
               let s = s\<lparr>prevclient := t\<rparr>;
               case t of None \<Rightarrow> Some s | Some c \<Rightarrow> pop E c s }
           else pop E c s }
       | _ \<Rightarrow> Some s }"

section \<open>Appearance\<close>

lemma cosm_lastfocusedwin [simp]: "cosm s (t\<lparr>lastfocusedwin := w\<rparr>) = cosm s t"
  by (simp add: cosm_def skel_def)

lemma unfocus_cosm:
  "clis s c \<noteq> None \<Longrightarrow> res (cosm (s\<lparr>prevclient := Some c\<rparr>)) (unfocus E (Some c) f s)"
  unfolding unfocus_def option.case by (intro cosm_intro res_intro) simp_all

lemma showhide_cosm [cosm_intro]:
  assumes "cosm s t" "wfx (cfg E) X s" "\<And>c. c \<in> set cs \<Longrightarrow> clis s c \<noteq> None"
  shows "res (cosm s) (showhide E cs t)"
  using assms(1,3)
proof (induction cs arbitrary: t)
  case (Cons c cs)
  have IH: "res (cosm s) (showhide E cs u)" if "cosm s u" for u
    by (rule Cons.IH [OF that]) (use Cons.prems in auto)
  have c: "clis s c \<noteq> None" using Cons.prems by simp
  show ?case
    unfolding showhide.simps
    by (intro IH cosm_intro res_intro)
      (use Cons.prems(1) assms(2) c wfx_mon_of [OF assms(2) c] in simp_all)
qed simp

lemma stack_below_bind [cosm_intro]:
  assumes "cosm s t" "wfx cf X s" "\<And>c. c \<in> set cs \<Longrightarrow> clis s c \<noteq> None"
    "\<And>a u. cosm s u \<Longrightarrow> res (cosm s) (f (a, u))"
  shows "res (cosm s) (stack_below cs (w, t) \<bind> f)"
proof -
  have "res (\<lambda>r. cosm s (snd r)) (stack_below cs (w, t))"
    unfolding stack_below_def
  proof (rule res_each_from)
    fix i :: nat and c and r :: "window \<times> wm"
    assume c: "c \<in> set cs" and r: "cosm s (snd r)"
    obtain k where "clis (snd r) c = Some k"
      using assms(3) [OF c] cosm_clis_None [OF r, of c] by auto
    moreover obtain v where "ISVISIBLE (snd r) c = Some v"
      using wfx_ISVISIBLE [OF wfx_cosm [OF r assms(2)], of c] calculation by auto
    ultimately show "res (\<lambda>r. cosm s (snd r)) ((case r of (sib, s) \<Rightarrow> do {
       k \<leftarrow> clis s c;
       v \<leftarrow> (if c_isfloating k then Some False else ISVISIBLE s c);
       Some (if v then (c_win k, emit (XConfigureWindow (c_win k)
                                   [CWSibling sib, CWStackMode StackBelow]) s)
             else (sib, s)) }))"
      using r by (cases r) auto
  qed (use assms(1) in simp)
  then show ?thesis using assms(4) by (auto simp: res_iff)
qed

lemma restack_cosm [cosm_intro]:
  "cosm s t \<Longrightarrow> wfx (cfg E) X s \<Longrightarrow> config_ok (cfg E) \<Longrightarrow> mmem s m \<noteq> None \<Longrightarrow>
   res (cosm s) (restack E m t)"
  unfolding restack_def
  by (intro cosm_intro res_intro) (auto dest: wfx_member)

lemma arrange_cosm [cosm_intro]:
  "cosm s t \<Longrightarrow> wfx (cfg E) X s \<Longrightarrow> config_ok (cfg E) \<Longrightarrow> (\<And>m. mo = Some m \<Longrightarrow> mmem s m \<noteq> None) \<Longrightarrow>
   res (cosm s) (arrange E mo t)"
  unfolding arrange_def
  by (intro cosm_intro res_intro)
    (auto simp: cosm_fields wfx_monitor dest: wfx_member wfx_selm)

lemma wfx_selm_member:
  assumes "wfx cf X s" "mskel k = mskel (the (selm s))"
    "c \<in> set (m_clients k) \<or> c \<in> set (m_stack k) \<or> m_sel k = Some c"
  shows "clis s c \<noteq> None"
  using wfx_member [OF assms(1) _ _ assms(3), of "selmon s"] wfx_selm [OF assms(1)] assms(2)
  by (simp add: selm_def)

lemma focusin_cosm [cosm_intro]:
  "cosm s t \<Longrightarrow> wfx cf X s \<Longrightarrow> res (cosm s) (focusin E w t)"
  unfolding focusin_def
  by (intro cosm_intro res_intro) (auto dest: wfx_selm wfx_selm_member)

section \<open>The contract of focus\<close>

text \<open>
  \<open>focused s t c\<close>: \<open>t\<close> is \<open>s\<close> with \<open>c\<close> (or, when \<open>c\<close> is null, nothing) selected: the selected
  monitor is that of \<open>c\<close>, whose focus list starts with \<open>c\<close>; nothing else has changed but the
  appearance.
\<close>

definition focused :: "wm \<Rightarrow> wm \<Rightarrow> cid option \<Rightarrow> bool" where
  "focused s t co \<longleftrightarrow>
     keep s t \<and> bh t = bh s \<and>
     prevclient t = (if selid s \<noteq> None \<and> selid s \<noteq> co then selid s else prevclient s) \<and>
     (case co of
        None \<Rightarrow> selmon t = selmon s
      | Some c \<Rightarrow> \<exists>k. clis s c = Some k \<and> selmon t = c_mon k) \<and>
     (\<exists>k k'. mmem s (selmon t) = Some k \<and> mmem t (selmon t) = Some k' \<and> m_sel k' = co
        \<and> m_clients k' = m_clients k \<and> m_tagmarked k' = m_tagmarked k
        \<and> m_stack k' = (case co of None \<Rightarrow> m_stack k | Some c \<Rightarrow> c # remove1 c (m_stack k)))
     \<and> (\<forall>m. m \<noteq> selmon t \<longrightarrow> map_option mskel (mmem t m) = map_option mskel (mmem s m))"

lemma focus_target_total:
  assumes W: "wfx cf X s" and co: "\<And>c. co = Some c \<Longrightarrow> clis s c \<noteq> None"
  obtains r where "focus_target s co = Some r"
    "\<And>c. r = Some c \<Longrightarrow> clis s c \<noteq> None \<and> ISVISIBLE s c = Some True"
    "\<And>c. co = Some c \<Longrightarrow> ISVISIBLE s c = Some True \<Longrightarrow> r = Some c"
proof -
  obtain m where m: "selm s = Some m" "mmem s (selmon s) = Some m" using wfx_selmon [OF W] by metis
  have al: "clis s c \<noteq> None" if "c \<in> set (m_stack m)" for c
    using that wfx_stack_clients [OF W m(2)] wfx_clientD [OF W m(2), of c] by auto
  obtain p where p: "firstO (ISVISIBLE s) (m_stack m) = Some p" "\<And>c. p = Some c \<Longrightarrow> c \<in> set (m_stack m)"
    using firstO_visible [OF W al] by metis
  have pv: "ISVISIBLE s c = Some True" if "p = Some c" for c
    using p(1) that firstO_sound by metis
  show ?thesis
  proof (cases "\<exists>c. co = Some c \<and> ISVISIBLE s c = Some True")
    case True
    then obtain c where c: "co = Some c" "ISVISIBLE s c = Some True" by blast
    show ?thesis
      by (rule that [of "Some c"]) (use c co in \<open>auto simp: focus_target_def\<close>)
  next
    case False
    have "\<exists>v. (case co of None \<Rightarrow> Some False | Some c \<Rightarrow> ISVISIBLE s c) = Some v \<and> \<not> v"
    proof (cases co)
      case (Some c)
      then obtain v where "ISVISIBLE s c = Some v" using wfx_ISVISIBLE [OF W co] by auto
      with False Some show ?thesis by (cases v) auto
    qed auto
    then have "focus_target s co = Some p" using m p(1) by (auto simp: focus_target_def)
    then show ?thesis by (rule that) (use al p pv False in auto)
  qed
qed

lemma cosm_upd:
  assumes "cosm s t" "mskel k' = mskel k"
  shows "cosm (s\<lparr>selmon := n, mmem := (mmem s)(m \<mapsto> k)\<rparr>) (t\<lparr>selmon := n, mmem := (mmem t)(m \<mapsto> k')\<rparr>)"
    "cosm (s\<lparr>mmem := (mmem s)(m \<mapsto> k)\<rparr>) (t\<lparr>mmem := (mmem t)(m \<mapsto> k')\<rparr>)"
  using assms by (simp_all add: cosm_def skel_def fun_eq_iff)

lemma mskel_upd:
  assumes "mskel k' = mskel k"
  shows "mskel (k'\<lparr>m_sel := a, m_stack := f (m_stack k')\<rparr>) = mskel (k\<lparr>m_sel := a, m_stack := f (m_stack k)\<rparr>)"
    "mskel (k'\<lparr>m_sel := a\<rparr>) = mskel (k\<lparr>m_sel := a\<rparr>)"
  by (subst mskelD [OF assms], simp add: mskel_def)+

lemma focus_client_spec:
  assumes W: "wfx (cfg E) X s" and j: "clis s c = Some j" "c \<notin> X"
  obtains k t0 where "mmem s (c_mon j) = Some k" "c \<in> set (m_clients k)"
    "wfx (cfg E) X (s\<lparr>selmon := c_mon j, mmem := (mmem s)(c_mon j \<mapsto>
       k\<lparr>m_sel := t0, m_stack := c # remove1 c (m_stack k)\<rparr>)\<rparr>)"
    "res (cosm (s\<lparr>selmon := c_mon j, mmem := (mmem s)(c_mon j \<mapsto>
       k\<lparr>m_sel := t0, m_stack := c # remove1 c (m_stack k)\<rparr>)\<rparr>)) (focus_client E c s)"
proof -
  let ?s1 = "s\<lparr>selmon := c_mon j\<rparr>"
  have s1: "(if c_mon j \<noteq> selmon s then s\<lparr>selmon := c_mon j\<rparr> else s) = ?s1" by simp
  have W1: "wfx (cfg E) X ?s1" using W wfx_owner [OF W j(1)] by (rule wfx_selmon_upd)
  have "res (cosm ?s1) (if c_isurgent j then seturgent E c False ?s1 else Some ?s1)"
    by (intro res_if seturgent_cosm) (use j in auto)
  then obtain u where u: "(if c_isurgent j then seturgent E c False ?s1 else Some ?s1) = Some u"
    "cosm ?s1 u" by (auto simp only: res_iff)
  have Wu: "wfx (cfg E) X u" using u(2) W1 by (rule wfx_cosm)
  obtain j' where j': "clis u c = Some j'" "c_mon j' = c_mon j"
    using cosm_client [OF u(2), of c j] j(1) cskel_fields(1) by (metis wm.select_convs(1) wm.update_convs(4) wm.surjective)
  obtain k' t0 where k': "mmem u (c_mon j) = Some k'" "c \<in> set (m_clients k')"
    "do { s \<leftarrow> detachstack c u; attachstack c s } = Some (u\<lparr>mmem := (mmem u)(c_mon j \<mapsto>
       k'\<lparr>m_sel := t0, m_stack := c # remove1 c (m_stack k')\<rparr>)\<rparr>)"
    "wfx (cfg E) X (u\<lparr>mmem := (mmem u)(c_mon j \<mapsto>
       k'\<lparr>m_sel := t0, m_stack := c # remove1 c (m_stack k')\<rparr>)\<rparr>)"
    using restack_front [OF Wu j'(1) j(2)] unfolding j'(2) by metis
  obtain k where k: "mmem s (c_mon j) = Some k" using wfx_c_mon [OF W j(1)] by metis
  have e: "mskel k' = mskel k"
    using cosm_monitor [OF u(2), of "c_mon j" k] k k'(1) by auto
  define b where "b = s\<lparr>selmon := c_mon j, mmem := (mmem s)(c_mon j \<mapsto>
       k\<lparr>m_sel := t0, m_stack := c # remove1 c (m_stack k)\<rparr>)\<rparr>"
  define v where "v = u\<lparr>mmem := (mmem u)(c_mon j \<mapsto>
       k'\<lparr>m_sel := t0, m_stack := c # remove1 c (m_stack k')\<rparr>)\<rparr>"
  have cb: "cosm b v"
    using cosm_upd(2) [OF u(2) mskel_upd(1) [OF e, where a = t0 and f = "\<lambda>x. c # remove1 c x"]]
    by (simp add: b_def v_def)
  then have Wb: "wfx (cfg E) X b" using wfx_cosm [OF cosm_sym] k'(4) unfolding v_def by blast
  have bc: "clis b c \<noteq> None" using j by (simp add: b_def)
  have "res (cosm b) (do {
       s \<leftarrow> grabbuttons E c True v;
       let s = emit (XSetWindowBorder (c_win j) SchemeSel ColBorder) s;
       m \<leftarrow> selm s;
       let s = (if \<not> m_drawwithgaps m \<and> \<not> c_isfloating j
                then emit (XConfigureWindow (c_win j)
                            [CWSibling (m_barwin m), CWStackMode StackBelow]) s
                else s);
       s \<leftarrow> setfocus E c s;
       if autoraise (cfg E) then
         do {
           a \<leftarrow> arrange_of E m;
           Some (if a = None \<or> c_isfloating j then emit (XRaiseWindow (c_win j)) s else s) }
       else Some s })"
    by (intro cosm_intro res_intro) (use cb Wb bc wfx_selm [OF Wb] in \<open>simp_all add: selm_def\<close>)
  then have "res (cosm b) (focus_client E c s)"
    by (simp only: focus_client_def j(1) bind.bind_lunit Let_def s1 u(1) k'(3) v_def)
  with that [OF k] k'(2) Wb show ?thesis by (simp add: mskel_fields [OF e] b_def)
qed

lemma cosm_keep_upd:
  assumes "mmem s m = Some k" "mcore k' = mcore k"
  shows "keep s (s\<lparr>selmon := n, mmem := (mmem s)(m \<mapsto> k')\<rparr>)"
  using assms by (simp add: keep_def)

lemma focused_Some:
  assumes s1: "s1 = s\<lparr>prevclient := prevclient s1\<rparr>"
      "prevclient s1 = (if selid s \<noteq> None \<and> selid s \<noteq> Some c then selid s else prevclient s)"
    and C: "cosm s1 s0" and j: "clis s0 c = Some j" and k: "mmem s0 (c_mon j) = Some k"
    and b: "cosm (s0\<lparr>selmon := c_mon j, mmem := (mmem s0)(c_mon j \<mapsto>
              k\<lparr>m_sel := Some c, m_stack := c # remove1 c (m_stack k)\<rparr>)\<rparr>) t" (is "cosm ?b t")
  shows "focused s t (Some c)"
proof -
  have "keep s0 ?b" by (rule cosm_keep_upd [OF k]) (simp add: mcore_def)
  then have "keep s1 t" using cosm_keep [OF C] cosm_keep [OF b] keep_trans by blast
  then have keep: "keep s t" by (subst (asm) s1(1)) (simp add: keep_def)
  have same: "clis s1 = clis s" "mmem s1 = mmem s" "selmon s1 = selmon s" "bh s1 = bh s"
    by (subst s1(1), simp)+
  have pv: "prevclient t = prevclient s1" using cosm_fields [OF b] cosm_fields [OF C] by simp
  have bh: "bh t = bh s" using cosm_fields(6) [OF b] cosm_fields(6) [OF C] same by simp
  obtain j0 where j0: "clis s c = Some j0" "c_mon j0 = c_mon j"
    using cosm_client [OF cosm_sym [OF C] j] cskel_fields(1) same by metis
  have sel: "selmon t = c_mon j" using cosm_fields(2) [OF b] by simp
  obtain k0 where k0: "mmem s (c_mon j) = Some k0" "mskel k0 = mskel k"
    using cosm_monitor [OF cosm_sym [OF C] k] same by metis
  obtain k1 where k1: "mmem t (c_mon j) = Some k1"
    "mskel k1 = mskel (k\<lparr>m_sel := Some c, m_stack := c # remove1 c (m_stack k)\<rparr>)"
    using cosm_monitor [OF b, of "c_mon j"] by auto
  have other: "map_option mskel (mmem t m) = map_option mskel (mmem s m)" if "m \<noteq> c_mon j" for m
    using that b C same by (simp add: cosm_def skel_def fun_eq_iff)
  show ?thesis
    unfolding focused_def option.case sel
    using keep pv [unfolded s1(2)] bh j0 k0(1) k1(1) mskel_fields [OF k1(2)] mskel_fields [OF k0(2)] other by auto
qed

lemma focused_None:
  assumes s1: "s1 = s\<lparr>prevclient := prevclient s1\<rparr>"
      "prevclient s1 = (if selid s \<noteq> None \<and> selid s \<noteq> None then selid s else prevclient s)"
    and C: "cosm s1 s0" and k: "mmem s0 (selmon s0) = Some k"
    and b: "cosm (s0\<lparr>mmem := (mmem s0)(selmon s0 \<mapsto> k\<lparr>m_sel := None\<rparr>)\<rparr>) t" (is "cosm ?b t")
  shows "focused s t None"
proof -
  have "keep s0 ?b" using cosm_keep_upd [OF k, of "k\<lparr>m_sel := None\<rparr>" "selmon s0"]
    by (simp add: mcore_def)
  then have "keep s1 t" using cosm_keep [OF C] cosm_keep [OF b] keep_trans by blast
  then have keep: "keep s t" by (subst (asm) s1(1)) (simp add: keep_def)
  have same: "clis s1 = clis s" "mmem s1 = mmem s" "selmon s1 = selmon s" "bh s1 = bh s"
    by (subst s1(1), simp)+
  have pv: "prevclient t = prevclient s1" using cosm_fields [OF b] cosm_fields [OF C] by simp
  have bh: "bh t = bh s" using cosm_fields(6) [OF b] cosm_fields(6) [OF C] same by simp
  have sel: "selmon t = selmon s0" "selmon s = selmon s0"
    using cosm_fields(2) [OF b] cosm_fields(2) [OF C] same by simp_all
  obtain k0 where k0: "mmem s (selmon s0) = Some k0" "mskel k0 = mskel k"
    using cosm_monitor [OF cosm_sym [OF C] k] same by metis
  obtain k1 where k1: "mmem t (selmon s0) = Some k1" "mskel k1 = mskel (k\<lparr>m_sel := None\<rparr>)"
    using cosm_monitor [OF b, of "selmon s0"] by auto
  have other: "map_option mskel (mmem t m) = map_option mskel (mmem s m)" if "m \<noteq> selmon s0" for m
    using that b C same by (simp add: cosm_def skel_def fun_eq_iff)
  show ?thesis
    unfolding focused_def option.case sel
    using keep pv [unfolded s1(2)] bh k0(1) k1(1) mskel_fields [OF k1(2)] mskel_fields [OF k0(2)] other by auto
qed

lemma wfx_set_sel:
  assumes W: "wfx cf X s" and k: "mmem s m = Some k" and co: "\<And>c. co = Some c \<Longrightarrow> c \<in> set (m_clients k)"
  shows "wfx cf X (s\<lparr>mmem := (mmem s)(m \<mapsto> k\<lparr>m_sel := co\<rparr>)\<rparr>)"
  using wfx_lists [OF W k] co wfx_tagmarked [OF W k]
  by (intro wfx_same_clients [OF W k]) (auto simp: mcore_def mon_lists_def)

lemma focus_spec:
  assumes W: "wfx (cfg E) X s" and ok: "config_ok (cfg E)"
    and co: "\<And>c. co = Some c \<Longrightarrow> clis s c \<noteq> None"
    and X: "\<And>c. c \<in> X \<Longrightarrow> co \<noteq> Some c"
  obtains r where "focus_target s co = Some r"
    "\<And>c. r = Some c \<Longrightarrow> clis s c \<noteq> None \<and> ISVISIBLE s c = Some True"
    "\<And>c. co = Some c \<Longrightarrow> ISVISIBLE s c = Some True \<Longrightarrow> r = Some c"
    "res (\<lambda>t. wfx (cfg E) X t \<and> focused s t r) (focus E co s)"
proof -
  obtain r where r: "focus_target s co = Some r"
    "\<And>c. r = Some c \<Longrightarrow> clis s c \<noteq> None \<and> ISVISIBLE s c = Some True"
    "\<And>c. co = Some c \<Longrightarrow> ISVISIBLE s c = Some True \<Longrightarrow> r = Some c"
    using focus_target_total [OF W co] by metis
  obtain m where m: "selm s = Some m" "mmem s (selmon s) = Some m" using wfx_selmon [OF W] by metis
  have rX: "c \<notin> X" if "r = Some c" for c
  proof
    assume "c \<in> X"
    then have "co \<noteq> Some c" using X by blast
    then have "c \<in> set (m_stack m)"
      using r(1) that m(1)
      by (auto simp: focus_target_def split: bind_splits if_splits option.splits dest: firstO_mem)
    then show False
      using \<open>c \<in> X\<close> wfx_notin [OF W m(2)] wfx_stack_clients [OF W m(2)] by blast
  qed
  define s1 where "s1 = (if m_sel m \<noteq> None \<and> m_sel m \<noteq> r then s\<lparr>prevclient := m_sel m\<rparr> else s)"
  have s1: "s1 = s\<lparr>prevclient := prevclient s1\<rparr>"
    "prevclient s1 = (if selid s \<noteq> None \<and> selid s \<noteq> r then selid s else prevclient s)"
    using m(1) by (simp_all add: s1_def selid_def)
  have "res (cosm s1) (if m_sel m \<noteq> None \<and> m_sel m \<noteq> r then unfocus E (m_sel m) False s else Some s)"
  proof (cases "m_sel m \<noteq> None \<and> m_sel m \<noteq> r")
    case True
    then obtain c where c: "m_sel m = Some c" by auto
    then have "clis s c \<noteq> None" using wfx_selm_member [OF W, of m c] m(1) by simp
    then show ?thesis using True c unfocus_cosm [of s c E False] by (simp add: s1_def)
  qed (auto simp: s1_def)
  then obtain s0 where s0: "(if m_sel m \<noteq> None \<and> m_sel m \<noteq> r then unfocus E (m_sel m) False s
      else Some s) = Some s0" "cosm s1 s0" by (auto simp only: res_iff)
  have W1: "wfx (cfg E) X s1" using W by (simp add: s1_def)
  have W0: "wfx (cfg E) X s0" using s0(2) W1 by (rule wfx_cosm)
  have "res (\<lambda>t. wfx (cfg E) X t \<and> focused s t r) (focus E co s)"
  proof (cases r)
    case None
    let ?u = "emit (XDeleteProperty RootWin (netatom E NetActiveWindow)) (emit (XSetInputFocus RootWin) s0)"
    obtain k where k: "mmem s0 (selmon s0) = Some k" using wfx_selmon [OF W0] by metis
    define b where "b = s0\<lparr>mmem := (mmem s0)(selmon s0 \<mapsto> k\<lparr>m_sel := None\<rparr>)\<rparr>"
    have Wb: "wfx (cfg E) X b" unfolding b_def by (rule wfx_set_sel [OF W0 k]) simp
    have "cosm b (?u\<lparr>mmem := (mmem ?u)(selmon ?u \<mapsto> k\<lparr>m_sel := None\<rparr>)\<rparr>)"
      unfolding b_def using cosm_upd(2) [of s0 ?u, OF _ refl] by simp
    then have "res (cosm b) (do { s \<leftarrow> modm (selmon ?u) (\<lambda>m. m\<lparr>m_sel := None\<rparr>) ?u; drawbars E s })"
      using k Wb ok by (simp add: modm_def drawbars_cosm)
    then show ?thesis
      using r(1) m(1) s0(1) None focused_None [OF s1 [unfolded None] s0(2) k] wfx_cosm [OF _ Wb]
      by (simp add: focus_def b_def res_iff) metis
  next
    case (Some c)
    obtain j where j: "clis s0 c = Some j" using r(2) [OF Some] cosm_clis_None [OF s0(2), of c] by (auto simp: s1_def split: if_splits)
    obtain k t0 where k: "mmem s0 (c_mon j) = Some k" "c \<in> set (m_clients k)"
      and k0: "wfx (cfg E) X (s0\<lparr>selmon := c_mon j, mmem := (mmem s0)(c_mon j \<mapsto>
         k\<lparr>m_sel := t0, m_stack := c # remove1 c (m_stack k)\<rparr>)\<rparr>)"
      and kr: "res (cosm (s0\<lparr>selmon := c_mon j, mmem := (mmem s0)(c_mon j \<mapsto>
         k\<lparr>m_sel := t0, m_stack := c # remove1 c (m_stack k)\<rparr>)\<rparr>)) (focus_client E c s0)"
      by (rule focus_client_spec [OF W0 j rX [OF Some]])
    define k0 where "k0 = k\<lparr>m_sel := t0, m_stack := c # remove1 c (m_stack k)\<rparr>"
    define b0 where "b0 = s0\<lparr>selmon := c_mon j, mmem := (mmem s0)(c_mon j \<mapsto> k0)\<rparr>"
    obtain u where u: "focus_client E c s0 = Some u" "cosm b0 u"
      using kr by (auto simp: res_iff b0_def k0_def)
    obtain ku where ku: "mmem u (c_mon j) = Some ku" "mskel ku = mskel k0"
      using cosm_monitor [OF u(2), of "c_mon j" k0] by (auto simp: b0_def)
    have su: "selmon u = c_mon j" using cosm_fields(2) [OF u(2)] by (simp add: b0_def)
    define b where "b = s0\<lparr>selmon := c_mon j, mmem := (mmem s0)(c_mon j \<mapsto>
         k\<lparr>m_sel := Some c, m_stack := c # remove1 c (m_stack k)\<rparr>)\<rparr>"
    have "k0\<lparr>m_sel := Some c\<rparr> = k\<lparr>m_sel := Some c, m_stack := c # remove1 c (m_stack k)\<rparr>"
      unfolding k0_def by (rule monitor.equality) simp_all
    then have bb: "b = b0\<lparr>mmem := (mmem b0)(c_mon j \<mapsto> k0\<lparr>m_sel := Some c\<rparr>)\<rparr>"
      by (simp add: b_def b0_def)
    have cb: "cosm b (u\<lparr>mmem := (mmem u)(c_mon j \<mapsto> ku\<lparr>m_sel := Some c\<rparr>)\<rparr>)"
      unfolding bb by (rule cosm_upd(2) [OF u(2) mskel_upd(2) [OF ku(2)]])
    have Wb: "wfx (cfg E) X b"
      unfolding bb
      by (rule wfx_set_sel) (use k0 k(2) in \<open>auto simp: b0_def k0_def\<close>)
    have "res (cosm b) (do { s \<leftarrow> modm (selmon u) (\<lambda>m. m\<lparr>m_sel := Some c\<rparr>) u; drawbars E s })"
      using ku(1) su cb Wb ok by (simp add: modm_def drawbars_cosm)
    then show ?thesis
      using r(1) m(1) s0(1) u(1) Some focused_Some [OF s1 [unfolded Some] s0(2) j k(1)] wfx_cosm [OF _ Wb]
      by (simp add: focus_def b_def res_iff) metis
  qed
  with that r show ?thesis by metis
qed

section \<open>The commands\<close>

lemma fr_fields [simp]:
  "frx cf X s (t\<lparr>prevclient := x\<rparr>) = frx cf X s t" "frx cf X s (t\<lparr>lastfocusedwin := w\<rparr>) = frx cf X s t"
  by (simp_all add: frx_def wfx_def)

lemmas focus_fr_ops [fr_intro] =
  restack_cosm [OF cosm_refl, THEN res_fr]
  arrange_cosm [OF cosm_refl, THEN res_fr]
  focusin_cosm [OF cosm_refl, THEN res_fr]

lemma unfocus_fr [fr_intro]:
  assumes "frx cf X s t" "\<And>c. co = Some c \<Longrightarrow> clis t c \<noteq> None"
  shows "res (frx cf X s) (unfocus E co f t)"
proof (cases co)
  case (Some c)
  then show ?thesis
    using unfocus_cosm [of t c E f] assms by (auto intro: res_fr)
qed (use assms in \<open>simp add: unfocus_def\<close>)

lemma focus_fr [fr_intro]:
  assumes F: "fr (cfg E) s t" and ok: "config_ok (cfg E)" and co: "\<And>c. co = Some c \<Longrightarrow> clis t c \<noteq> None"
  shows "res (fr (cfg E) s) (focus E co t)"
proof -
  obtain r where "res (\<lambda>u. wf (cfg E) u \<and> focused t u r) (focus E co t)"
    using focus_spec [OF fr_wf [OF F] ok co] by blast
  then show ?thesis
    by (rule res_mono) (use F in \<open>auto simp: focused_def intro: keep_fr\<close>)
qed

text \<open>A member of a list of a monitor is allocated.\<close>

lemma fr_here:
  assumes "frx cf X s t" "mmem t m = Some k"
    "c \<in> set (m_clients k) \<or> c \<in> set (m_stack k) \<or> m_sel k = Some c"
  shows "clis t c \<noteq> None"
  using fr_alive [OF assms(1) fr_member [OF assms]] .

lemma fr_selmon_in: "frx cf X s t \<Longrightarrow> selmon t \<in> set (mons s)"
  using wfx_selmon_in [of cf X t] by (auto simp: frx_def)

lemma fr_visible_list [fr_intro]:
  assumes "frx cf X s t" "\<And>c. c \<in> set cs \<Longrightarrow> clis t c \<noteq> None"
    "\<And>r. set r \<subseteq> set cs \<Longrightarrow> res (frx cf X s) (f r)"
  shows "res (frx cf X s) (filterO (ISVISIBLE t) cs \<bind> f)"
proof -
  have "filterO (ISVISIBLE t) cs = Some (filter (\<lambda>c. the (ISVISIBLE t c)) cs)"
    by (rule filterO_total) (use wfx_ISVISIBLE [OF fr_wf [OF assms(1)] assms(2)] in auto)
  then show ?thesis using assms(3) by auto
qed

lemma tagsel_ok:
  assumes "mon_shape cf b r k"
  shows "tagsel k \<noteq> 0" "tagsel k AND TAGMASK cf = tagsel k"
proof -
  have "tagsel k \<in> set (m_tagset k)" using assms by (simp add: mon_shape_def tagsel_def)
  then show "tagsel k \<noteq> 0" "tagsel k AND TAGMASK cf = tagsel k"
    using assms by (auto simp: mon_shape_def)
qed

lemma fr_lowbit_bind [fr_intro]:
  assumes "frx cf X s t" "mmem t m = Some k" "\<And>b. lowbit (tagsel k) = Some b \<Longrightarrow> b < ntags cf \<Longrightarrow> res (frx cf X s) (f b)"
  shows "res (frx cf X s) (lowbit (tagsel k) \<bind> f)"
proof -
  note T = tagsel_ok [OF wfx_shape [OF fr_wf [OF assms(1)] assms(2)]]
  obtain b where b: "lowbit (tagsel k) = Some b" using lowbit_total [OF T(1)] by blast
  have "b < ntags cf" using lowbit_masked [OF T(2) [unfolded TAGMASK_def] b] .
  then show ?thesis using b assms(3) by simp
qed

text \<open>A mark of a tag but the last is allocated; the last one may be stale.\<close>

definition stale_mark :: "config \<Rightarrow> wm \<Rightarrow> bool" where
  "stale_mark cf s \<longleftrightarrow>
     (\<exists>k c. selm s = Some k \<and> lowbit (tagsel k) = Some (ntags cf - 1)
        \<and> m_tagmarked k ! ntags cf = Some c \<and> clis s c = None)"

lemma mon_lists_mark:
  "mon_lists cf k \<Longrightarrow> 1 \<le> i \<Longrightarrow> i < ntags cf \<Longrightarrow> m_tagmarked k ! i = Some c \<Longrightarrow> c \<in> set (m_clients k)"
  by (simp add: mon_lists_def)

lemma mark_alive:
  assumes F: "fr cf s t" and k: "selm t = Some k" and b: "lowbit (tagsel k) = Some b" "b < ntags cf"
    and c: "m_tagmarked k ! Suc b = Some c" and S: "\<not> stale_mark cf t"
  shows "\<exists>j. clis t c = Some j"
proof (cases "Suc b = ntags cf")
  case True
  then have "b = ntags cf - 1" "ntags cf = Suc b" by auto
  then show ?thesis using S k b(1) c unfolding stale_mark_def by (metis option.exhaust)
next
  case False
  have km: "mmem t (selmon t) = Some k" using k by (simp add: selm_def)
  then have "c \<in> set (m_clients k)"
    using mon_lists_mark [OF wfx_lists [OF fr_wf [OF F] km] _ _ c] False b(2) by simp
  then show ?thesis using fr_here [OF F km, of c] by auto
qed

lemma set_mark_lists:
  assumes "mon_lists cf k" "\<And>c. co = Some c \<Longrightarrow> c \<in> set (m_clients k)" "length (m_tagmarked k) = 32" "i < 32"
  shows "mon_lists cf (k\<lparr>m_tagmarked := (m_tagmarked k)[i := co]\<rparr>)"
  using assms by (auto simp: mon_lists_def nth_list_update)

lemma fr_set_mark:
  assumes F: "fr cf s t" and k: "mmem t m = Some k" and co: "\<And>c. co = Some c \<Longrightarrow> c \<in> set (m_clients k)"
    and b: "i \<le> ntags cf" and ok: "config_ok cf"
  shows "res (fr cf s) (modm m (\<lambda>m. m\<lparr>m_tagmarked := (m_tagmarked m)[i := co]\<rparr>) t)"
proof (rule fr_modm [OF F])
  have l: "length (m_tagmarked k) = 32" by (rule wfx_tagmarked [OF fr_wf [OF F] k])
  have i: "i < 32" using b ok by (auto simp: config_ok_def)
  show "mmem t m \<noteq> None" using k by simp
  fix k' assume "mmem t m = Some k'"
  then have "k' = k" using k by simp
  then show "mon_shape cf (bh t) (running t) k' \<Longrightarrow>
      mon_shape cf (bh t) (running t) (k'\<lparr>m_tagmarked := (m_tagmarked k')[i := co]\<rparr>)"
    and "mon_lists cf k' \<Longrightarrow> mon_lists cf (k'\<lparr>m_tagmarked := (m_tagmarked k')[i := co]\<rparr>)
      \<and> m_clients (k'\<lparr>m_tagmarked := (m_tagmarked k')[i := co]\<rparr>) = m_clients k'"
    using l i set_mark_lists [of cf k co i] co by (simp_all add: mon_shape_lists(4))
qed

text \<open>Objects met earlier in a run are still there.\<close>

lemma fr_still:
  assumes "frx cf X s u" "frx cf X s t"
  shows "mmem t m = Some k \<Longrightarrow> c \<in> set (m_clients k) \<Longrightarrow> \<exists>j. clis u c = Some j"
    "mmem t m = Some k \<Longrightarrow> c \<in> set (m_stack k) \<Longrightarrow> \<exists>j. clis u c = Some j"
    "mmem t m = Some k \<Longrightarrow> m_sel k = Some c \<Longrightarrow> \<exists>j. clis u c = Some j"
    "selm t = Some k \<Longrightarrow> m_sel k = Some c \<Longrightarrow> \<exists>j. clis u c = Some j"
    "clis t c = Some j \<Longrightarrow> \<exists>j. clis u c = Some j"
    "clis t c = Some j \<Longrightarrow> \<exists>k. mmem u (c_mon j) = Some k"
    "m \<in> set (mons s) \<Longrightarrow> \<exists>k. mmem u m = Some k"
    "mmem t m = Some k \<Longrightarrow> \<exists>k. mmem u m = Some k"
    "selm t = Some k \<Longrightarrow> \<exists>k. mmem u (selmon t) = Some k"
    "\<exists>k. mmem u (selmon t) = Some k"
proof -
  show "mmem t m = Some k \<Longrightarrow> c \<in> set (m_clients k) \<Longrightarrow> \<exists>j. clis u c = Some j"
    "mmem t m = Some k \<Longrightarrow> c \<in> set (m_stack k) \<Longrightarrow> \<exists>j. clis u c = Some j"
    "mmem t m = Some k \<Longrightarrow> m_sel k = Some c \<Longrightarrow> \<exists>j. clis u c = Some j"
    "selm t = Some k \<Longrightarrow> m_sel k = Some c \<Longrightarrow> \<exists>j. clis u c = Some j"
    using fr_alive [OF assms(1), of c] fr_member [OF assms(2), of m k c]
      fr_member [OF assms(2), of "selmon t" k c] by (auto simp: selm_def)
  show "clis t c = Some j \<Longrightarrow> \<exists>j. clis u c = Some j"
    using fr_alive [OF assms(1), of c] fr_alive_back [OF assms(2), of c] by auto
  show m: "m \<in> set (mons s) \<Longrightarrow> \<exists>k. mmem u m = Some k" for m
    using fr_monitor [OF assms(1)] by auto
  show "clis t c = Some j \<Longrightarrow> \<exists>k. mmem u (c_mon j) = Some k"
    using m fr_c_mon [OF assms(2)] by blast
  show "mmem t m = Some k \<Longrightarrow> \<exists>k. mmem u m = Some k"
    using m wfx_monitor [OF fr_wf [OF assms(2)], of m] fr_mons [OF assms(2)] by auto
  show "selm t = Some k \<Longrightarrow> \<exists>k. mmem u (selmon t) = Some k" "\<exists>k. mmem u (selmon t) = Some k"
    using m fr_selmon_in [OF assms(2)] by blast+
qed

lemma focusmaster_fr [fr_intro]:
  assumes F: "fr (cfg E) s t" and ok: "config_ok (cfg E)" and S: "\<not> stale_mark (cfg E) t"
  shows "res (fr (cfg E) s) (focusmaster E t)"
  unfolding focusmaster_def
  by (intro fr_set_mark fr_intro res_intro)
    (use F ok S wfx_sel_client [OF fr_wf [OF F]] mark_alive [OF F _ _ _ _ S] in \<open>auto intro: fr_still\<close>)

lemma stack_neighbour_total:
  assumes W: "wfx cf X s" and x: "x \<in> set (m_clients k)"
    and al: "\<And>c. c \<in> set (m_clients k) \<Longrightarrow> clis s c \<noteq> None"
  shows "\<exists>r. stack_neighbour s k x d = Some r \<and> (\<forall>c. r = Some c \<longrightarrow> c \<in> set (m_clients k))"
proof -
  let ?q = "\<lambda>c. the (ISVISIBLE s c)"
  have vis: "firstO (ISVISIBLE s) cs = Some (find ?q cs)" "filterO (ISVISIBLE s) cs = Some (filter ?q cs)"
    if "set cs \<subseteq> set (m_clients k)" for cs
  proof -
    have v: "ISVISIBLE s c = Some (?q c)" if "c \<in> set cs" for c
      using wfx_ISVISIBLE [OF W al, of c] that \<open>set cs \<subseteq> set (m_clients k)\<close> by auto
    show "firstO (ISVISIBLE s) cs = Some (find ?q cs)" by (rule firstO_total) (rule v)
    show "filterO (ISVISIBLE s) cs = Some (filter ?q cs)" by (rule filterO_total) (rule v)
  qed
  have a: "set (after x (m_clients k)) \<subseteq> set (m_clients k)" by (rule set_after)
  have b: "set (before x (m_clients k)) \<subseteq> set (m_clients k)" by (rule set_before)
  have c: "set (x # after x (m_clients k)) \<subseteq> set (m_clients k)" using a x by simp
  have f: "y \<in> set (m_clients k)" if "find ?q cs = Some y" "set cs \<subseteq> set (m_clients k)" for cs y
    using find_Some_mem [OF that(1)] that(2) by blast
  have l: "last (filter ?q cs) \<in> set (m_clients k)" if "filter ?q cs \<noteq> []" "set cs \<subseteq> set (m_clients k)" for cs
    using last_in_set [OF that(1)] that(2) by auto
  show ?thesis
    unfolding stack_neighbour_def vis(1) [OF a] vis(1) [OF order_refl] vis(2) [OF b] vis(2) [OF c]
    using x f [OF _ a] f [OF _ order_refl] l [OF _ b] l [OF _ c]
    by (auto split: option.split)
qed

lemma stack_neighbour_bind [fr_intro]:
  assumes "fr cf s t" "mmem t m = Some k" "x \<in> set (m_clients k)"
    "\<And>r. (\<forall>c. r = Some c \<longrightarrow> c \<in> set (m_clients k)) \<Longrightarrow> res (fr cf s) (f r)"
  shows "res (fr cf s) (stack_neighbour t k x d \<bind> f)"
  using stack_neighbour_total [OF fr_wf [OF assms(1)] assms(3), of d] fr_here [OF assms(1,2)] assms(4)
  by fastforce

lemma focusstack_fr [fr_intro]:
  assumes F: "fr (cfg E) s t" and ok: "config_ok (cfg E)"
  shows "res (fr (cfg E) s) (focusstack E d t)"
  unfolding focusstack_def
  by (intro fr_intro res_intro)
    (use F ok wfx_sel_client [OF fr_wf [OF F]] in \<open>auto intro: fr_still\<close>)

lemma classes_okD: "classes_ok E \<Longrightarrow> XGetClassHint E l w = Some (n, c) \<Longrightarrow> \<exists>b. c = Some b"
  by (auto simp: classes_ok_def)

lemma those_total: "(\<And>c. c \<in> set cs \<Longrightarrow> \<exists>j. f c = Some j) \<Longrightarrow> \<exists>ks. those (map f cs) = Some ks"
proof (induction cs)
  case (Cons c cs)
  obtain j where "f c = Some j" using Cons.prems [of c] by auto
  moreover obtain ks where "those (map f cs) = Some ks" using Cons.IH Cons.prems by auto
  ultimately show ?case by simp
qed simp

lemma same_class_total:
  assumes "classes_ok E" "cl \<noteq> None" "\<And>c. c \<in> set cs \<Longrightarrow> \<exists>j. clis s c = Some j"
  shows "\<exists>r. same_class E s cl tg n cs = Some r \<and> set r \<subseteq> set cs"
  using assms(3)
proof (induction cs arbitrary: n)
  case (Cons c cs)
  obtain k where k: "clis s c = Some k" using Cons.prems by fastforce
  have IH: "\<exists>r. same_class E s cl tg n cs = Some r \<and> set r \<subseteq> set (c # cs)" for n
    using Cons by fastforce
  have IH2: "\<exists>r. same_class E s cl tg n cs = Some r \<and> set (c # r) \<subseteq> set (c # cs)" for n
    using Cons by fastforce
  show ?case
  proof (cases "n \<ge> 32 \<or> c_tags k AND tg = 0 \<or> XGetClassHint E (xlog s) (c_win k) = None")
    case True
    then have "same_class E s cl tg n (c # cs) = Some []
        \<or> same_class E s cl tg n (c # cs) = same_class E s cl tg n cs"
      using k by (auto split: option.split)
    then show ?thesis using IH [of n] by (metis empty_subsetI list.set(1))
  next
    case False
    then obtain i r where r: "XGetClassHint E (xlog s) (c_win k) = Some (i, r)" by auto
    then obtain b where "r = Some b" using classes_okD [OF assms(1)] by blast
    moreover obtain a where "cl = Some a" using assms(2) by auto
    ultimately have "same_class E s cl tg n (c # cs)
        = (if a = b then map_option ((#) c) (same_class E s cl tg (n + 1) cs)
           else same_class E s cl tg n cs)"
      using k r False by simp
    moreover obtain r1 where "same_class E s cl tg n cs = Some r1" "set r1 \<subseteq> set (c # cs)"
      using IH [of n] by blast
    moreover obtain r2 where "same_class E s cl tg (n + 1) cs = Some r2" "set (c # r2) \<subseteq> set (c # cs)"
      using IH2 [of "n + 1"] by blast
    ultimately show ?thesis by (cases "a = b") simp_all
  qed
qed simp

lemma same_class_nonempty:
  assumes "same_class E s cl tg n cs = Some r" "n < 32" "c \<in> set cs" "clis s c = Some k"
    "c_tags k AND tg \<noteq> 0" "XGetClassHint E (xlog s) (c_win k) = Some (i, cl)"
  shows "r \<noteq> []"
  using assms(1-3)
proof (induction cs arbitrary: r)
  case (Cons a cs)
  show ?case
  proof (cases "a = c")
    case True
    then show ?thesis using Cons.prems assms(4-6) by (auto split: bind_splits)
  next
    case False
    then show ?thesis
      using Cons by (auto split: bind_splits if_splits option.splits)
  qed
qed simp

lemma same_target_total:
  assumes "\<And>c. c \<in> set cs \<Longrightarrow> \<exists>j. clis s c = Some j" "cs \<noteq> []"
  shows "\<exists>r. same_target s d w cs = Some r \<and> (\<forall>c. r = Some c \<longrightarrow> c \<in> set cs)"
proof -
  obtain ks where "those (map (clis s) cs) = Some ks"
    using those_total [of cs "clis s"] assms(1) by blast
  moreover have "cs ! i \<in> set cs" if "i < length cs" for i using that by simp
  ultimately show ?thesis
    using assms(2) by (auto simp: same_target_def Let_def split: option.split)
qed

text \<open>The selected client is on none of the selected tags: it is visible as a sticky one.\<close>

definition sel_off_tags :: "wm \<Rightarrow> bool" where
  "sel_off_tags s \<longleftrightarrow>
     (\<exists>m c k. selm s = Some m \<and> m_sel m = Some c \<and> clis s c = Some k \<and> c_tags k AND tagsel m = 0)"

lemma focussame_fr [fr_intro]:
  assumes F: "fr (cfg E) s t" and ok: "env_ok E" and S: "\<not> sel_off_tags t"
  shows "res (fr (cfg E) s) (focussame E d t)"
proof -
  obtain m where m: "selm t = Some m" "mmem t (selmon t) = Some m"
    using wfx_selmon [OF fr_wf [OF F]] by metis
  show ?thesis
  proof (cases "m_sel m")
    case None
    then show ?thesis using F m by (simp add: focussame_def)
  next
    case (Some x)
    obtain k where k: "clis t x = Some k" using fr_still(3) [OF F F m(2) Some] by blast
    show ?thesis
    proof (cases "XGetClassHint E (xlog t) (c_win k)")
      case None
      then show ?thesis using F m Some k by (simp add: focussame_def)
    next
      case (Some p)
      obtain i cl where p: "p = (i, cl)" by fastforce
      let ?t = "t\<lparr>lastfocusedwin := c_win k\<rparr>"
      have al: "\<exists>j. clis ?t c = Some j" if "c \<in> set (m_clients m)" for c
        using fr_still(1) [OF F F m(2) that] by simp
      have cl: "cl \<noteq> None" "classes_ok E" using ok Some p by (auto simp: env_ok_def classes_ok_def)
      have x: "x \<in> set (m_clients m)"
        using wfx_sel_client [OF fr_wf [OF F] m(2)] \<open>m_sel m = Some x\<close> by blast
      have tg: "c_tags k AND tagsel m \<noteq> 0"
        using S m(1) \<open>m_sel m = Some x\<close> k by (auto simp: sel_off_tags_def)
      obtain cs where cs: "same_class E ?t cl (tagsel m) 0 (m_clients m) = Some cs"
        "set cs \<subseteq> set (m_clients m)"
        using same_class_total [OF cl(2,1) al, where tg = "tagsel m" and n = 0] by blast
      have ne: "cs \<noteq> []"
        using same_class_nonempty [OF cs(1) _ x, of k i] k Some p tg by simp
      obtain r where r: "same_target ?t d (c_win k) cs = Some r" "\<And>c. r = Some c \<Longrightarrow> c \<in> set cs"
        using same_target_total [of cs ?t, OF _ ne] al cs(2) by blast
      have "res (fr (cfg E) s) (case r of
                 None \<Rightarrow> Some ?t
               | Some c \<Rightarrow> do {
                   s \<leftarrow> focus E (Some c) ?t;
                   s \<leftarrow> restack E (selmon s) s;
                   k \<leftarrow> clis s c;
                   Some (s\<lparr>lastfocusedwin := c_win k\<rparr>) })"
        by (intro fr_intro res_intro)
          (use F ok r(2) cs(2) al fr_still(1) [OF _ F m(2)] in \<open>auto intro: fr_still(10)\<close>)
      then show ?thesis
        using m(1) \<open>m_sel m = Some x\<close> k Some p cs(1) r(1) by (simp add: focussame_def Let_def)
    qed
  qed
qed

lemma focused_fr: "fr cf s t \<Longrightarrow> wf cf u \<Longrightarrow> focused t u r \<Longrightarrow> fr cf s u"
  by (auto simp: focused_def intro: keep_fr)

lemma focused_prevclient: "focused t u r \<Longrightarrow> prevclient u = prevclient t \<or> prevclient u = selid t"
  by (auto simp: focused_def)

lemma swapfocus_fr [fr_intro]:
  assumes F: "fr (cfg E) s t" and ok: "config_ok (cfg E)"
  shows "res (fr (cfg E) s) (swapfocus E t)"
proof -
  obtain m where m: "selm t = Some m" "mmem t (selmon t) = Some m"
    using wfx_selmon [OF fr_wf [OF F]] by metis
  show ?thesis
  proof (cases "\<exists>p x. prevclient t = Some p \<and> m_sel m = Some x \<and> x \<noteq> p \<and> p \<in> set (m_clients m)")
    case True
    then obtain p x where px: "prevclient t = Some p" "m_sel m = Some x" "x \<noteq> p" "p \<in> set (m_clients m)"
      by blast
    have "clis t p \<noteq> None" using fr_here [OF F m(2)] px(4) by blast
    then obtain r where r: "res (\<lambda>u. wf (cfg E) u \<and> focused t u r) (focus E (Some p) t)"
      using focus_spec [OF fr_wf [OF F] ok, of "Some p"] by blast
    have "res (fr (cfg E) s) (do { s \<leftarrow> focus E (Some p) t; q \<leftarrow> prevclient s; k \<leftarrow> clis s q; restack E (c_mon k) s })"
    proof (rule res_bind [OF r])
      fix u assume u: "wf (cfg E) u \<and> focused t u r"
      then have Fu: "fr (cfg E) s u" using focused_fr [OF F] by blast
      obtain q where q: "prevclient u = Some q" "q = p \<or> q = x"
        using focused_prevclient u px(1,2) m(1) by (fastforce simp: selid_def)
      have "clis u q \<noteq> None"
        using q(2) fr_still(1,3) [OF Fu F m(2), of q] px by auto
      then show "res (fr (cfg E) s) (do { q \<leftarrow> prevclient u; k \<leftarrow> clis u q; restack E (c_mon k) u })"
        unfolding q(1) Option.bind.bind_lunit
        by (intro fr_intro) (use Fu ok in \<open>auto intro: fr_still\<close>)
    qed
    then show ?thesis using m(1) px by (simp add: swapfocus_def)
  next
    case False
    then have "swapfocus E t = Some t \<or> swapfocus E t = focusstack E (-1) t"
      using m(1) by (auto simp: swapfocus_def split: option.split)
    then show ?thesis using F ok focusstack_fr [OF F ok] by auto
  qed
qed

lemma dirtomon_total:
  assumes "wfx cf X s"
  shows "\<exists>m. dirtomon d s = Some m \<and> m \<in> set (mons s)"
proof -
  note sm = wfx_selmon_in [OF assms]
  then obtain a ms where ms: "mons s = a # ms" by (cases "mons s") auto
  show ?thesis
  proof (cases "d > 0")
    case True
    then show ?thesis
      using ms set_after [of "selmon s" "mons s"] by (auto simp: dirtomon_def split: list.split)
  next
    case False
    have "last (before (selmon s) (mons s)) \<in> set (mons s)" if "selmon s \<noteq> a"
      using that ms set_before [of "selmon s" "mons s"] last_in_set [of "before (selmon s) (mons s)"]
      by auto
    moreover have "last (mons s) \<in> set (mons s)" using ms by (intro last_in_set) simp
    ultimately show ?thesis using False ms sm by (auto simp: dirtomon_def)
  qed
qed

lemma dirtomon_bind [fr_intro]:
  assumes "fr cf s t" "\<And>m. m \<in> set (mons s) \<Longrightarrow> res (fr cf s) (f m)"
  shows "res (fr cf s) (dirtomon d t \<bind> f)"
  using dirtomon_total [OF fr_wf [OF assms(1)], of d] assms(2) fr_mons [OF assms(1)] by auto

lemma focusmon_fr [fr_intro]:
  assumes F: "fr (cfg E) s t" and ok: "config_ok (cfg E)"
  shows "res (fr (cfg E) s) (focusmon E d t)"
  unfolding focusmon_def
  by (intro fr_intro res_intro) (use F ok in \<open>auto intro: fr_still fr_selmon\<close>)

lemma fr_mmem: "fr cf s t \<Longrightarrow> wf cf (t\<lparr>mmem := M\<rparr>) \<Longrightarrow> fr cf s (t\<lparr>mmem := M\<rparr>)"
  by (simp add: frx_def)

lemma fr_restack_front:
  assumes F: "fr cf s t" and c: "clis t c \<noteq> None"
  shows "res (fr cf s) (do { s \<leftarrow> detachstack c t; attachstack c s })"
proof -
  obtain j where "clis t c = Some j" using c by auto
  then show ?thesis
    using restack_front [OF fr_wf [OF F], of c j] fr_mmem [OF F] by (metis empty_iff res_Some)
qed

lemma fr_detach_attach:
  assumes F: "fr (cfg E) s t" and ok: "config_ok (cfg E)" and c: "clis t c \<noteq> None"
  shows "res (fr (cfg E) s) (do { s \<leftarrow> detach E c t; attach c s })"
proof -
  obtain j where j: "clis t c = Some j" using c by auto
  have "ntags (cfg E) \<le> 31" using ok by (simp add: config_ok_def)
  then show ?thesis
    using detach_attach [OF fr_wf [OF F] _ j] fr_mmem [OF F] by (metis empty_iff res_Some)
qed

lemma pop_fr [fr_intro]:
  assumes F: "fr (cfg E) s t" and ok: "config_ok (cfg E)" and c: "clis t c \<noteq> None"
  shows "res (fr (cfg E) s) (pop E c t)"
  unfolding pop_def
  by (intro fr_set_mark fr_detach_attach fr_intro res_intro)
    (use F ok c in \<open>auto intro: fr_still\<close>)

lemma zoom_fr [fr_intro]:
  assumes F: "fr (cfg E) s t" and ok: "config_ok (cfg E)"
  shows "res (fr (cfg E) s) (zoom E t)"
proof -
  obtain m where m: "selm t = Some m" "mmem t (selmon t) = Some m"
    using wfx_selmon [OF fr_wf [OF F]] by metis
  obtain a where a: "arrange_of E m = Some a"
    using arrange_of_total [OF wfx_shape [OF fr_wf [OF F] m(2)]] by auto
  show ?thesis
    unfolding zoom_def m(1) Option.bind.bind_lunit
    by (intro fr_intro res_intro)
      (use F ok m(2) in \<open>auto intro: fr_still split: option.split dest!: set_after [THEN subsetD]\<close>)
qed

text \<open>
  Moving a client to the end of both lists, where the client list has another client. (With
  no other one \<open>enqueue\<close> loses it.)
\<close>

lemma rotate_down_fr:
  assumes F: "fr (cfg E) s t" and ok: "config_ok (cfg E)" and j: "clis t c = Some j"
    and k: "mmem t (c_mon j) = Some k" and ne: "m_clients k \<noteq> [c]"
  shows "res (fr (cfg E) s)
    (do { s \<leftarrow> detach E c t; s \<leftarrow> enqueue c s; s \<leftarrow> detachstack c s; enqueuestack c s })"
proof -
  note W = fr_wf [OF F]
  note L = wfx_lists [OF W k, unfolded mon_lists_def]
  have cin: "c \<in> set (m_clients k)" using wfx_listedD [OF W j] k by simp
  let ?tm = "clear_marks (ntags (cfg E)) c (m_tagmarked k)"
  have r: "remove1 c (m_clients k) \<noteq> []"
    using cin ne by (cases "m_clients k"; cases "tl (m_clients k)") auto
  let ?k1 = "k\<lparr>m_tagmarked := ?tm, m_clients := remove1 c (m_clients k) @ [c]\<rparr>"
  let ?t1 = "t\<lparr>mmem := (mmem t)(c_mon j \<mapsto> ?k1)\<rparr>"
  have d: "do { s \<leftarrow> detach E c t; enqueue c s } = Some ?t1"
    using r by (simp add: detach_Some [OF j k] enqueue_def modm_def j)
  have al: "clis ?t1 a \<noteq> None" if "a \<in> set (m_stack ?k1)" for a
    using that L wfx_clientD [OF W k, of a] by auto
  obtain x where x: "detachstack c ?t1 = Some (?t1\<lparr>mmem := (mmem ?t1)(c_mon j \<mapsto>
       ?k1\<lparr>m_stack := remove1 c (m_stack ?k1), m_sel := x\<rparr>)\<rparr>)"
    "m_sel ?k1 = Some c \<Longrightarrow> x = None \<or> (\<exists>a. x = Some a \<and> a \<in> set (remove1 c (m_stack ?k1))
        \<and> ISVISIBLE ?t1 a = Some True)"
    "m_sel ?k1 \<noteq> Some c \<Longrightarrow> x = m_sel ?k1"
  proof (rule detachstack_Some [OF W refl, where c = c and j = j and k = ?k1 and k' = k])
    show "clis ?t1 c = Some j" using j by simp
    show "tagsel ?k1 = tagsel k" by (simp add: tagsel_def)
  qed (use al k in auto)
  have r2: "remove1 c (m_stack k) \<noteq> []"
  proof -
    have "set (remove1 c (m_stack k)) = set (remove1 c (m_clients k))" using L by simp
    then show ?thesis using r by (metis set_empty)
  qed
  let ?k2 = "?k1\<lparr>m_sel := x, m_stack := remove1 c (m_stack k) @ [c]\<rparr>"
  let ?t2 = "t\<lparr>mmem := (mmem t)(c_mon j \<mapsto> ?k2)\<rparr>"
  have run: "do { s \<leftarrow> detach E c t; s \<leftarrow> enqueue c s; s \<leftarrow> detachstack c s; enqueuestack c s } = Some ?t2"
  proof -
    have "do { s \<leftarrow> detach E c t; s \<leftarrow> enqueue c s; s \<leftarrow> detachstack c s; enqueuestack c s }
        = do { s \<leftarrow> do { s \<leftarrow> detach E c t; enqueue c s }; s \<leftarrow> detachstack c s; enqueuestack c s }"
      by (cases "detach E c t") auto
    also have "\<dots> = Some ?t2"
      unfolding d using x(1) r2 j by (simp add: enqueuestack_def modm_def)
    finally show ?thesis .
  qed
  have set: "set (m_clients ?k2) = set (m_clients k)" using L cin by auto
  have lists: "mon_lists (cfg E) ?k2"
    unfolding mon_lists_def
  proof (intro conjI allI impI)
    show "distinct (m_clients ?k2)" "distinct (m_stack ?k2)" using L by auto
    show "set (m_stack ?k2) = set (m_clients ?k2)" using L by simp
    show "a \<in> set (m_clients ?k2)" if "m_sel ?k2 = Some a" for a
      using that x(2,3) L set by (cases "m_sel k = Some c") auto
    fix i a assume i: "1 \<le> i \<and> i < ntags (cfg E) \<and> m_tagmarked ?k2 ! i = Some a"
    then have "i < length (m_tagmarked k)"
      using wfx_tagmarked [OF W k] ok by (auto simp: config_ok_def)
    then have "m_tagmarked k ! i = Some a" using i by (auto simp: nth_clear_marks split: if_splits)
    with i L have "a \<in> set (m_clients k)" by blast
    then show "a \<in> set (m_clients ?k2)" using set by simp
  qed
  have "wf (cfg E) ?t2"
    by (rule wfx_same_clients [OF W k _ set lists])
      (use wfx_tagmarked [OF W k] in \<open>simp_all add: mcore_def\<close>)
  then show ?thesis unfolding run using fr_mmem [OF F] by simp
qed

definition lone_tiled :: "wm \<Rightarrow> bool" where
  "lone_tiled s \<longleftrightarrow> (\<exists>m c. selm s = Some m \<and> m_clients m = [c] \<and> tiled s [c] = Some [c])"

lemma rotatestack_fr [fr_intro]:
  assumes F: "fr (cfg E) s t" and ok: "config_ok (cfg E)" and S: "d \<le> 0 \<Longrightarrow> \<not> lone_tiled t"
  shows "res (fr (cfg E) s) (rotatestack E d t)"
proof -
  obtain m where m: "selm t = Some m" "mmem t (selmon t) = Some m"
    using wfx_selmon [OF fr_wf [OF F]] by metis
  have al: "clis t c \<noteq> None" if "c \<in> set (m_clients m)" for c
    using fr_here [OF F m(2)] that by blast
  obtain ts where ts: "tiled t (m_clients m) = Some ts" "set ts \<subseteq> set (m_clients m)"
    using tiled_total [OF fr_wf [OF F] al] by (metis filter_is_subset)
  have down: "res (fr (cfg E) s) (do { s \<leftarrow> detach E (hd ts) t; s \<leftarrow> enqueue (hd ts) s;
      s \<leftarrow> detachstack (hd ts) s; enqueuestack (hd ts) s })" if "ts \<noteq> []" "\<not> d > 0"
  proof -
    have c: "hd ts \<in> set (m_clients m)" using ts(2) that(1) by auto
    then obtain j where j: "clis t (hd ts) = Some j" "c_mon j = selmon t"
      using wfx_clientD [OF fr_wf [OF F] m(2)] by metis
    have "m_clients m \<noteq> [hd ts]"
    proof
      assume e: "m_clients m = [hd ts]"
      have "distinct ts"
        by (rule filterO_distinct [OF ts(1) [unfolded tiled_def]]) (simp add: e)
      then have "ts = [hd ts]" using ts(2) e that(1) by (cases ts; cases "tl ts") auto
      then have "lone_tiled t" using m(1) e ts(1) by (auto simp: lone_tiled_def)
      then show False using S that(2) by simp
    qed
    then show ?thesis using rotate_down_fr [OF F ok j(1)] m(2) j(2) by simp
  qed
  have up: "res (fr (cfg E) s) (do { s \<leftarrow> do { s \<leftarrow> detach E (last ts) t; attach (last ts) s };
      do { s \<leftarrow> detachstack (last ts) s; attachstack (last ts) s } })" if "ts \<noteq> []"
  proof (rule fr_bind [OF fr_detach_attach [OF F ok]])
    have "last ts \<in> set (m_clients m)" using ts(2) that by auto
    then show "clis t (last ts) \<noteq> None" by (rule al)
    then show "res (fr (cfg E) s) (do { s \<leftarrow> detachstack (last ts) u; attachstack (last ts) s })"
      if "fr (cfg E) s u" for u
      using fr_restack_front that fr_alive [OF that] fr_alive_back [OF F] by blast
  qed
  have rest: "res (fr (cfg E) s) (do {
       s \<leftarrow> arrange E (Some (selmon u)) u;
       s \<leftarrow> focus E (Some c) s;
       restack E (selmon s) s })" if "fr (cfg E) s u" "m_sel m = Some c" for u c
    by (intro fr_intro) (use that F ok m(2) in \<open>auto intro: fr_still\<close>)
  show ?thesis
  proof (cases "m_sel m = None \<or> ts = []")
    case True
    then show ?thesis using F m(1) ts(1) by (auto simp: rotatestack_def split: option.split)
  next
    case False
    then obtain x where x: "m_sel m = Some x" and ne: "ts \<noteq> []" by auto
    show ?thesis
      unfolding rotatestack_def m(1) Option.bind.bind_lunit x option.case ts(1) Let_def if_not_P [OF ne]
      by (rule fr_bind [OF res_if rest]) (use up [OF ne] down [OF ne] x in simp_all)
  qed
qed

end
