(* ===== verification/Floating.thy ===== *)
theory Floating
  imports FocusOps
begin

text \<open>
  The states of one client (floating, fullscreen, sticky) and the commands that move and
  resize a floating client. \<open>selmon->sel\<close> does not change while they run, so it is read
  once. Several commands follow \<open>selmon->sel\<close> without a check; \<open>no_sel\<close> is the state in
  which that is a null pointer.

  The float arithmetic of the \<open>fact\<close> commands is that of the source: \<open>float\<close> operands,
  \<open>double\<close> constants.
\<close>

section \<open>Operations\<close>

definition togglefloating :: "xenv \<Rightarrow> wm \<Rightarrow> wm option" where
  "togglefloating E s =
     do {
       m \<leftarrow> selm s;
       case m_sel m of
         None \<Rightarrow> Some s
       | Some c \<Rightarrow> do {
           k \<leftarrow> clis s c;
           if c_isfullscreen k then Some s
           else do {
             s \<leftarrow> modc c (\<lambda>k. k\<lparr>c_isfloating := \<not> c_isfloating k \<or> c_isfixed k\<rparr>) s;
             k \<leftarrow> clis s c;
             s \<leftarrow> (if c_isfloating k then resize E c (c_x k) (c_y k) (c_w k) (c_h k) False s
                  else Some s);
             k \<leftarrow> clis s c;
             cm \<leftarrow> mmem s (c_mon k);
             m \<leftarrow> selm s;
             let x = m_mx cm + cdiv (m_mw cm - WIDTH k) 2;
             let bar = (if floatoffset (cfg E) \<and> m_showbar m then bh s else 0);
             let y = m_my cm + bar + cdiv (m_mh cm - bar - HEIGHT k) 2;
             s \<leftarrow> modc c (\<lambda>k. k\<lparr>c_x := x, c_y := y\<rparr>) s;
             arrange E (Some (selmon s)) s } } }"

definition setfullscreen :: "xenv \<Rightarrow> cid \<Rightarrow> bool \<Rightarrow> wm \<Rightarrow> wm option" where
  "setfullscreen E c full s =
     do {
       k \<leftarrow> clis s c;
       if full \<and> \<not> c_isfullscreen k then
         do {
           let s = emit (XChangeProperty (Win (c_win k)) (netatom E NetWMState) Replace
                     [netatom E NetWMFullscreen]) s;
           s \<leftarrow> modc c (\<lambda>k. k\<lparr>c_isfullscreen := True, c_oldstate := c_isfloating k,
                              c_oldbw := c_bw k, c_bw := 0, c_isfloating := True\<rparr>) s;
           m \<leftarrow> mmem s (c_mon k);
           s \<leftarrow> resizeclient E c (m_mx m) (m_my m) (m_mw m) (m_mh m) s;
           Some (emit (XRaiseWindow (c_win k)) s) }
       else if \<not> full \<and> c_isfullscreen k then
         do {
           let s = emit (XChangeProperty (Win (c_win k)) (netatom E NetWMState) Replace []) s;
           s \<leftarrow> modc c (\<lambda>k. k\<lparr>c_isfullscreen := False, c_isfloating := c_oldstate k,
                              c_bw := c_oldbw k, c_x := c_oldx k, c_y := c_oldy k,
                              c_w := c_oldw k, c_h := c_oldh k\<rparr>) s;
           k \<leftarrow> clis s c;
           s \<leftarrow> resizeclient E c (c_x k) (c_y k) (c_w k) (c_h k) s;
           arrange E (Some (c_mon k)) s }
       else Some s }"

definition setsticky :: "xenv \<Rightarrow> cid \<Rightarrow> bool \<Rightarrow> wm \<Rightarrow> wm option" where
  "setsticky E c sticky s =
     do {
       k \<leftarrow> clis s c;
       if sticky \<and> \<not> c_issticky k then
         modc c (\<lambda>k. k\<lparr>c_issticky := True\<rparr>)
           (emit (XChangeProperty (Win (c_win k)) (netatom E NetWMState) Replace
                    [netatom E NetWMSticky]) s)
       else if \<not> sticky \<and> c_issticky k then
         do {
           s \<leftarrow> modc c (\<lambda>k. k\<lparr>c_issticky := False\<rparr>)
                 (emit (XChangeProperty (Win (c_win k)) (netatom E NetWMState) Replace []) s);
           arrange E (Some (c_mon k)) s }
       else Some s }"

definition updatewindowtype :: "xenv \<Rightarrow> cid \<Rightarrow> wm \<Rightarrow> wm option" where
  "updatewindowtype E c s =
     do {
       k \<leftarrow> clis s c;
       let state = getatomprop E s (c_win k) (netatom E NetWMState);
       let wtype = getatomprop E s (c_win k) (netatom E NetWMWindowType);
       s \<leftarrow> (if state = netatom E NetWMFullscreen then setfullscreen E c True s else Some s);
       s \<leftarrow> (if state = netatom E NetWMSticky then setsticky E c True s else Some s);
       if wtype = netatom E NetWMWindowTypeDialog
       then modc c (\<lambda>k. k\<lparr>c_isfloating := True\<rparr>) s else Some s }"

definition togglefullscr :: "xenv \<Rightarrow> wm \<Rightarrow> wm option" where
  "togglefullscr E s =
     do {
       m \<leftarrow> selm s;
       case m_sel m of
         None \<Rightarrow> Some s
       | Some c \<Rightarrow> do { k \<leftarrow> clis s c; setfullscreen E c (\<not> c_isfullscreen k) s } }"

definition togglesticky :: "xenv \<Rightarrow> wm \<Rightarrow> wm option" where
  "togglesticky E s =
     do {
       m \<leftarrow> selm s;
       case m_sel m of
         None \<Rightarrow> Some s
       | Some c \<Rightarrow> do {
           k \<leftarrow> clis s c;
           s \<leftarrow> setsticky E c (\<not> c_issticky k) s;
           arrange E (Some (selmon s)) s } }"

text \<open>The two updates of \<open>moveclient\<close> and \<open>maximize\<close>.\<close>

definition save_geometry :: "client \<Rightarrow> client" where
  "save_geometry k = k\<lparr>c_oldx := c_x k, c_oldy := c_y k, c_oldw := c_w k, c_oldh := c_h k\<rparr>"

definition moveclient :: "xenv \<Rightarrow> int \<Rightarrow> int \<Rightarrow> int \<Rightarrow> int \<Rightarrow> wm \<Rightarrow> wm option" where
  "moveclient E x y w h s =
     do {
       m \<leftarrow> selm s;
       case m_sel m of
         None \<Rightarrow> Some s
       | Some c \<Rightarrow> do {
           k \<leftarrow> clis s c;
           if c_isfixed k then Some s
           else do {
             let s = emit (XRaiseWindow (c_win k)) s;
             a \<leftarrow> arrange_of E m;
             s \<leftarrow> (if a = None \<or> c_isfloating k
                  then do { s \<leftarrow> modc c save_geometry s; resize E c x y w h True s }
                  else Some s);
             s \<leftarrow> drawbar E (selmon s) s;
             Some (emit XDropEnterEvents s) } } }"

definition maximize :: "xenv \<Rightarrow> int \<Rightarrow> int \<Rightarrow> int \<Rightarrow> int \<Rightarrow> wm \<Rightarrow> wm option" where
  "maximize E x y w h s =
     do {
       m \<leftarrow> selm s;
       case m_sel m of
         None \<Rightarrow> Some s
       | Some c \<Rightarrow> do {
           k \<leftarrow> clis s c;
           if c_isfixed k then Some s
           else do {
             let s = emit (XRaiseWindow (c_win k)) s;
             s \<leftarrow> (if \<not> c_ismax k then
                    do {
                      a \<leftarrow> arrange_of E m;
                      s \<leftarrow> (if a = None \<or> c_isfloating k
                           then modc c (\<lambda>k. k\<lparr>c_wasfloating := True\<rparr>) s
                           else do {
                             s \<leftarrow> togglefloating E s;
                             modc c (\<lambda>k. k\<lparr>c_wasfloating := False\<rparr>) s });
                      s \<leftarrow> modc c save_geometry s;
                      s \<leftarrow> resize E c x y w h True s;
                      modc c (\<lambda>k. k\<lparr>c_ismax := True\<rparr>) s }
                  else do {
                      s \<leftarrow> resize E c (c_oldx k) (c_oldy k) (c_oldw k) (c_oldh k) True s;
                      k \<leftarrow> clis s c;
                      s \<leftarrow> (if \<not> c_wasfloating k then togglefloating E s else Some s);
                      modc c (\<lambda>k. k\<lparr>c_ismax := False\<rparr>) s });
             s \<leftarrow> drawbar E (selmon s) s;
             Some (emit XDropEnterEvents s) } } }"

text \<open>\<open>*selmon->sel\<close>, followed without a check.\<close>

definition sel_client :: "wm \<Rightarrow> client option" where
  "sel_client s = do { m \<leftarrow> selm s; c \<leftarrow> m_sel m; clis s c }"

definition fmaximize :: "xenv \<Rightarrow> 32 word \<Rightarrow> wm \<Rightarrow> wm option" where
  "fmaximize E a s =
     do {
       m \<leftarrow> selm s;
       let b = borderpx (cfg E);
       if a = 0 then
         maximize E (m_wx m) (m_wy m) (m_ww m - 2 * b) (m_wh m - 2 * b) s
       else if a = 1 then
         do { k \<leftarrow> sel_client s; maximize E (m_wx m) (c_y k) (m_ww m - 2 * b) (c_h k) s }
       else if a = 2 then
         do { k \<leftarrow> sel_client s; maximize E (c_x k) (m_wy m) (c_w k) (m_wh m - 2 * b) s }
       else Some s }"

definition fsnap :: "xenv \<Rightarrow> 32 word \<Rightarrow> wm \<Rightarrow> wm option" where
  "fsnap E a s =
     do {
       m \<leftarrow> selm s;
       let gap = (if m_drawwithgaps m then gappx (cfg E) else 0);
       let hf = (if m_showbar m then bh s else 0);
       let b = borderpx (cfg E);
       if a = 0 then
         do { k \<leftarrow> sel_client s; moveclient E (m_wx m + gap) (c_y k) (c_w k) (c_h k) s }
       else if a = 1 then
         do { k \<leftarrow> sel_client s;
              moveclient E (c_x k) (m_wh m - 2 * b - gap - c_h k + hf) (c_w k) (c_h k) s }
       else if a = 2 then
         do { k \<leftarrow> sel_client s; moveclient E (c_x k) (m_wy m + gap) (c_w k) (c_h k) s }
       else if a = 3 then
         do { k \<leftarrow> sel_client s;
              moveclient E (m_ww m - 2 * b - gap - c_w k) (c_y k) (c_w k) (c_h k) s }
       else Some s }"

text \<open>\<open>borderpx\<close> is unsigned, so that halving a width is an unsigned division.\<close>

definition fdeck :: "xenv \<Rightarrow> 32 word \<Rightarrow> wm \<Rightarrow> wm option" where
  "fdeck E a s =
     do {
       m \<leftarrow> selm s;
       let gap = (if m_drawwithgaps m then gappx (cfg E) else 0);
       let hf = (if m_showbar m then bh s else 0);
       let b = borderpx (cfg E);
       let fw = s32 (m_ww m - 2 * gap - 2 * b);
       let fh = s32 (m_wh m - 2 * gap - 2 * b);
       let hw = s32 (u32 (m_ww m - 3 * gap - 2 * b) div 2);
       let hh = s32 (u32 (m_wh m - 3 * gap - 2 * b) div 2);
       if a = 0 then moveclient E (m_wx m + gap + b) (m_wy m + gap) hw fh s
       else if a = 1 then
         moveclient E (m_wx m + gap) (cdiv (m_wh m) 2 + b + cdiv gap 2 + hf) fw hh s
       else if a = 2 then moveclient E (m_wx m + gap) (m_wy m + gap) fw hh s
       else if a = 3 then moveclient E (cdiv (m_ww m) 2 + b + cdiv gap 2) (m_wy m + gap) hw fh s
       else Some s }"

text \<open>\<open>arg->f < 1.0 ? arg->f * 500.0 : arg->f\<close> stored in a \<open>float\<close>.\<close>

definition step_px :: "flt \<Rightarrow> flt" where
  "step_px f = fl32 (if f < 1 then fl64 (f * 500) else f)"

definition addf :: "int \<Rightarrow> flt \<Rightarrow> flt" where
  "addf n f = fl32 (fl32 (of_int n) + f)"

text \<open>The test of the commands whether to move the selected client.\<close>

definition moves_floating :: "xenv \<Rightarrow> wm \<Rightarrow> bool option" where
  "moves_floating E s =
     do {
       m \<leftarrow> selm s;
       a \<leftarrow> arrange_of E m;
       if a = None then Some True
       else do { k \<leftarrow> sel_client s; Some (c_isfloating k) } }"

definition setwfact :: "xenv \<Rightarrow> flt \<Rightarrow> wm \<Rightarrow> wm option" where
  "setwfact E f s =
     do {
       fl \<leftarrow> moves_floating E s;
       s \<leftarrow> (if fl then
              do {
                m \<leftarrow> selm s;
                k \<leftarrow> sel_client s;
                let g = step_px f;
                let w = (if g > 0 then ctrunc (min (addf (c_w k) g) (fl64 (of_int (m_mw m) * (3 / 2))))
                         else ctrunc (max (addf (c_w k) g) (fl32 (of_int (mincellw (cfg E))))));
                moveclient E (c_x k) (c_y k) w (c_h k) s }
            else Some s);
       arrange E (Some (selmon s)) s }"

definition sethfact :: "xenv \<Rightarrow> flt \<Rightarrow> wm \<Rightarrow> wm option" where
  "sethfact E f s =
     do {
       fl \<leftarrow> moves_floating E s;
       s \<leftarrow> (if fl then
              do {
                m \<leftarrow> selm s;
                k \<leftarrow> sel_client s;
                let g = step_px f;
                let h = (if g > 0 then ctrunc (min (addf (c_h k) g) (fl64 (of_int (m_mh m) * (3 / 2))))
                         else ctrunc (max (addf (c_h k) g) (fl32 (of_int (mincellh (cfg E))))));
                moveclient E (c_x k) (c_y k) (c_w k) h s }
            else Some s);
       arrange E (Some (selmon s)) s }"

definition incfloat :: "xenv \<Rightarrow> int \<Rightarrow> wm \<Rightarrow> wm option" where
  "incfloat E i s =
     do {
       m \<leftarrow> selm s;
       case m_sel m of
         None \<Rightarrow> Some s
       | Some c \<Rightarrow> do {
           k \<leftarrow> clis s c;
           a \<leftarrow> arrange_of E m;
           Some (if c_win k = XNone then s
                 else if a = None \<or> c_isfloating k
                 then emit (if i < 0 then XLowerWindow (c_win k) else XRaiseWindow (c_win k)) s
                 else s) } }"

section \<open>The frame\<close>

definition no_sel :: "wm \<Rightarrow> bool" where
  "no_sel s \<longleftrightarrow> selid s = None"

lemma fr_sel_client_bind [fr_intro]:
  assumes F: "fr cf s t" and S: "\<not> no_sel t" and k: "\<And>k. res (fr cf s) (f k)"
  shows "res (fr cf s) (sel_client t \<bind> f)"
proof -
  obtain m where m: "selm t = Some m" "mmem t (selmon t) = Some m"
    using wfx_selmon [OF fr_wf [OF F]] by metis
  obtain c where c: "m_sel m = Some c" using S m(1) by (auto simp: no_sel_def selid_def)
  obtain j where "clis t c = Some j" using fr_still(3) [OF F F m(2) c] by blast
  then show ?thesis using m(1) c k by (simp add: sel_client_def)
qed

lemma moves_floating_bind [fr_intro]:
  assumes F: "fr (cfg E) s t" and S: "\<not> no_sel t" and k: "\<And>b. res (fr (cfg E) s) (f b)"
  shows "res (fr (cfg E) s) (moves_floating E t \<bind> f)"
proof -
  obtain m where m: "selm t = Some m" "mmem t (selmon t) = Some m"
    using wfx_selmon [OF fr_wf [OF F]] by metis
  obtain a where a: "arrange_of E m = Some a"
    using arrange_of_total [OF wfx_shape [OF fr_wf [OF F] m(2)]] by auto
  obtain c where c: "m_sel m = Some c" using S m(1) by (auto simp: no_sel_def selid_def)
  obtain j where "clis t c = Some j" using fr_still(3) [OF F F m(2) c] by blast
  then show ?thesis using m(1) a c k by (simp add: moves_floating_def sel_client_def)
qed

lemma togglefloating_fr [fr_intro]:
  assumes F: "fr (cfg E) s t" and ok: "config_ok (cfg E)"
  shows "res (fr (cfg E) s) (togglefloating E t)"
  unfolding togglefloating_def Let_def
  by (intro fr_intro res_intro) (use F ok in \<open>auto intro: fr_still\<close>)

lemma setfullscreen_fr [fr_intro]:
  assumes F: "frx (cfg E) X s t" and ok: "config_ok (cfg E)" and c: "clis t c \<noteq> None"
  shows "res (frx (cfg E) X s) (setfullscreen E c b t)"
  unfolding setfullscreen_def
  by (intro fr_intro res_intro) (use F ok c in \<open>auto intro: fr_still\<close>)

lemma setsticky_fr [fr_intro]:
  assumes F: "frx (cfg E) X s t" and ok: "config_ok (cfg E)" and c: "clis t c \<noteq> None"
  shows "res (frx (cfg E) X s) (setsticky E c b t)"
  unfolding setsticky_def
  by (intro fr_intro res_intro) (use F ok c in \<open>auto intro: fr_still\<close>)

lemma updatewindowtype_fr [fr_intro]:
  assumes F: "frx (cfg E) X s t" and ok: "config_ok (cfg E)" and c: "clis t c \<noteq> None"
  shows "res (frx (cfg E) X s) (updatewindowtype E c t)"
  unfolding updatewindowtype_def
  by (intro fr_intro res_intro) (use F ok c in \<open>auto intro: fr_still\<close>)

lemma togglefullscr_fr [fr_intro]:
  assumes F: "fr (cfg E) s t" and ok: "config_ok (cfg E)"
  shows "res (fr (cfg E) s) (togglefullscr E t)"
  unfolding togglefullscr_def
  by (intro fr_intro res_intro) (use F ok in \<open>auto intro: fr_still\<close>)

lemma togglesticky_fr [fr_intro]:
  assumes F: "fr (cfg E) s t" and ok: "config_ok (cfg E)"
  shows "res (fr (cfg E) s) (togglesticky E t)"
  unfolding togglesticky_def
  by (intro fr_intro res_intro) (use F ok in \<open>auto intro: fr_still\<close>)

lemma save_geometry_frame [simp]:
  "c_mon (save_geometry k) = c_mon k" "c_name (save_geometry k) = c_name k"
  by (simp_all add: save_geometry_def)

lemma moveclient_fr [fr_intro]:
  assumes F: "fr (cfg E) s t" and ok: "config_ok (cfg E)"
  shows "res (fr (cfg E) s) (moveclient E x y w h t)"
  unfolding moveclient_def
  by (intro fr_intro res_intro) (use F ok in \<open>auto intro: fr_still\<close>)

lemma maximize_fr [fr_intro]:
  assumes F: "fr (cfg E) s t" and ok: "config_ok (cfg E)"
  shows "res (fr (cfg E) s) (maximize E x y w h t)"
  unfolding maximize_def
  by (intro fr_intro res_intro) (use F ok in \<open>auto intro: fr_still\<close>)

lemma fmaximize_fr [fr_intro]:
  assumes F: "fr (cfg E) s t" and ok: "config_ok (cfg E)" and S: "a = 1 \<or> a = 2 \<Longrightarrow> \<not> no_sel t"
  shows "res (fr (cfg E) s) (fmaximize E a t)"
  unfolding fmaximize_def
  by (intro fr_intro res_intro) (use F ok S in auto)

lemma fsnap_fr [fr_intro]:
  assumes F: "fr (cfg E) s t" and ok: "config_ok (cfg E)" and S: "a < 4 \<Longrightarrow> \<not> no_sel t"
  shows "res (fr (cfg E) s) (fsnap E a t)"
  unfolding fsnap_def
  by (intro fr_intro res_intro) (use F ok S in auto)

lemma fdeck_fr [fr_intro]:
  assumes F: "fr (cfg E) s t" and ok: "config_ok (cfg E)"
  shows "res (fr (cfg E) s) (fdeck E a t)"
  unfolding fdeck_def
  by (intro fr_intro res_intro) (use F ok in auto)

lemma setwfact_fr [fr_intro]:
  assumes F: "fr (cfg E) s t" and ok: "config_ok (cfg E)" and S: "\<not> no_sel t"
  shows "res (fr (cfg E) s) (setwfact E f t)"
  unfolding setwfact_def
  by (intro fr_intro res_intro) (use F ok S in \<open>auto intro: fr_still\<close>)

lemma sethfact_fr [fr_intro]:
  assumes F: "fr (cfg E) s t" and ok: "config_ok (cfg E)" and S: "\<not> no_sel t"
  shows "res (fr (cfg E) s) (sethfact E f t)"
  unfolding sethfact_def
  by (intro fr_intro res_intro) (use F ok S in \<open>auto intro: fr_still\<close>)

lemma incfloat_fr [fr_intro]:
  assumes F: "fr (cfg E) s t"
  shows "res (fr (cfg E) s) (incfloat E i t)"
  unfolding incfloat_def
  by (intro fr_intro res_intro) (use F in \<open>auto intro: fr_still\<close>)

end
