(* ===== verification/Views.thy ===== *)
theory Views
  imports Floating
begin

text \<open>
  Tags and views: which tags a client has and which tags a monitor shows, the settings kept
  per tag, and the commands that change the layout and its parameters. The update of a
  monitor that \<open>view\<close> and \<open>toggleview\<close> make is a function on the monitor (\<open>view_mon\<close>,
  \<open>toggleview_mon\<close>).

  \<open>shiftviewclients\<close> has a loop without a bound, which is a \<open>partial_function\<close>: that it ends
  is proved for the shipped arguments.
\<close>

section \<open>Operations\<close>

text \<open>The settings of the current tag are copied into the monitor.\<close>

definition apply_pertag :: "monitor \<Rightarrow> monitor" where
  "apply_pertag m =
     (let p = m_pertag m; t = curtag p; l = sellts p ! t
      in m\<lparr>m_mfact := mfacts p ! t, m_smfact := smfacts p ! t, m_dmfact := dmfacts p ! t,
           m_zmfact := zmfacts p ! t, m_nmaster := nmasters p ! t, m_sellt := l,
           m_lt := (m_lt m)[l := ltidxs p ! t ! l, l XOR 1 := ltidxs p ! t ! (l XOR 1)]\<rparr>)"

definition view_mon :: "config \<Rightarrow> 32 word \<Rightarrow> monitor \<Rightarrow> monitor option" where
  "view_mon cf ui m =
     do {
       let m = m\<lparr>m_seltags := m_seltags m XOR 1\<rparr>;
       let p = m_pertag m;
       m \<leftarrow> (if ui AND TAGMASK cf \<noteq> 0 then
              do {
                t \<leftarrow> (if ui = NOT 0 then Some 0 else map_option Suc (lowbit ui));
                Some (m\<lparr>m_tagset := (m_tagset m)[m_seltags m := ui AND TAGMASK cf],
                        m_pertag := p\<lparr>curtag := t, prevtag := curtag p\<rparr>\<rparr>) }
            else Some (m\<lparr>m_pertag := p\<lparr>curtag := prevtag p, prevtag := curtag p\<rparr>\<rparr>));
       Some (apply_pertag m) }"

definition view :: "xenv \<Rightarrow> 32 word \<Rightarrow> wm \<Rightarrow> wm option" where
  "view E ui s =
     do {
       m \<leftarrow> selm s;
       if ui AND TAGMASK (cfg E) = tagsel m then Some s
       else do {
         m' \<leftarrow> view_mon (cfg E) ui m;
         s \<leftarrow> modm (selmon s) (\<lambda>_. m') s;
         s \<leftarrow> focus E None s;
         s \<leftarrow> arrange E (Some (selmon s)) s;
         updatecurrentdesktop E s } }"

text \<open>\<open>1 << (curtag - 1)\<close> with the tag number 0 shifts by more than the width.\<close>

definition toggleview_mon :: "32 word \<Rightarrow> monitor \<Rightarrow> monitor option" where
  "toggleview_mon new m =
     do {
       let m = m\<lparr>m_tagset := (m_tagset m)[m_seltags m := new]\<rparr>;
       let p = m_pertag m;
       let p = (if new = NOT 0 then p\<lparr>curtag := 0, prevtag := curtag p\<rparr> else p);
       if curtag p = 0 then None
       else do {
         p \<leftarrow> (if new AND push_bit (curtag p - 1) 1 = 0
              then do { i \<leftarrow> lowbit new; Some (p\<lparr>curtag := i + 1, prevtag := curtag p\<rparr>) }
              else Some p);
         Some (apply_pertag (m\<lparr>m_pertag := p\<rparr>)) } }"

definition toggleview :: "xenv \<Rightarrow> 32 word \<Rightarrow> wm \<Rightarrow> wm option" where
  "toggleview E ui s =
     do {
       m \<leftarrow> selm s;
       let new = tagsel m XOR (ui AND TAGMASK (cfg E));
       s \<leftarrow> (if new \<noteq> 0 then
              do {
                m' \<leftarrow> toggleview_mon new m;
                s \<leftarrow> modm (selmon s) (\<lambda>_. m') s;
                s \<leftarrow> focus E None s;
                arrange E (Some (selmon s)) s }
            else Some s);
       updatecurrentdesktop E s }"

text \<open>After the client has been moved, \<open>selmon->sel\<close> is followed without a check.\<close>

definition tag :: "xenv \<Rightarrow> 32 word \<Rightarrow> wm \<Rightarrow> wm option" where
  "tag E ui s =
     do {
       m \<leftarrow> selm s;
       let t = ui AND TAGMASK (cfg E);
       case m_sel m of
         None \<Rightarrow> Some s
       | Some c \<Rightarrow>
           if t = 0 then Some s
           else do {
             s \<leftarrow> modc c (\<lambda>k. k\<lparr>c_tags := t\<rparr>) s;
             s \<leftarrow> focus E None s;
             s \<leftarrow> arrange E (Some (selmon s)) s;
             s \<leftarrow> (if viewontag (cfg E) \<and> t \<noteq> TAGMASK (cfg E) then view E ui s else Some s);
             m \<leftarrow> selm s;
             c \<leftarrow> m_sel m;
             updateclientdesktop E c s } }"

definition toggletag :: "xenv \<Rightarrow> 32 word \<Rightarrow> wm \<Rightarrow> wm option" where
  "toggletag E ui s =
     do {
       m \<leftarrow> selm s;
       case m_sel m of
         None \<Rightarrow> Some s
       | Some c \<Rightarrow> do {
           k \<leftarrow> clis s c;
           let new = c_tags k XOR (ui AND TAGMASK (cfg E));
           s \<leftarrow> (if new \<noteq> 0 then
                  do {
                    s \<leftarrow> modc c (\<lambda>k. k\<lparr>c_tags := new\<rparr>) s;
                    s \<leftarrow> focus E None s;
                    arrange E (Some (selmon s)) s }
                else Some s);
           updatecurrentdesktop E s } }"

definition swap_tags :: "32 word \<Rightarrow> 32 word \<Rightarrow> client \<Rightarrow> client" where
  "swap_tags new cur k =
     (let t = (if c_tags k AND new \<noteq> 0 \<or> c_tags k AND cur \<noteq> 0
               then c_tags k XOR (cur XOR new) else c_tags k)
      in k\<lparr>c_tags := (if t = 0 then new else t)\<rparr>)"

definition swaptag :: "xenv \<Rightarrow> 32 word \<Rightarrow> wm \<Rightarrow> wm option" where
  "swaptag E ui s =
     do {
       m \<leftarrow> selm s;
       let new = ui AND TAGMASK (cfg E);
       let cur = tagsel m;
       if new = cur \<or> cur = 0 \<or> cur AND (cur - 1) \<noteq> 0 then Some s
       else do {
         s \<leftarrow> each (\<lambda>c. modc c (swap_tags new cur)) (m_clients m) s;
         s \<leftarrow> modm (selmon s) (\<lambda>m. m\<lparr>m_tagset := (m_tagset m)[m_seltags m := new]\<rparr>) s;
         s \<leftarrow> focus E None s;
         s \<leftarrow> arrange E (Some (selmon s)) s;
         m \<leftarrow> selm s;
         each (\<lambda>c s. do {
           k \<leftarrow> clis s c;
           if c_tags k AND new \<noteq> 0 then updateclientdesktop E c s else Some s }) (m_clients m) s } }"

text \<open>A rotation of \<open>n\<close> tags by \<open>r\<close>; a distance past \<open>n\<close> shifts by a negative number.\<close>

definition rotate_left :: "nat \<Rightarrow> nat \<Rightarrow> 32 word \<Rightarrow> 32 word option" where
  "rotate_left n r w = (if r \<le> n then Some (push_bit r w OR drop_bit (n - r) w) else None)"

definition rotate_right :: "nat \<Rightarrow> nat \<Rightarrow> 32 word \<Rightarrow> 32 word option" where
  "rotate_right n r w = (if r \<le> n then Some (drop_bit r w OR push_bit (n - r) w) else None)"

definition rotatetags :: "xenv \<Rightarrow> int \<Rightarrow> wm \<Rightarrow> wm option" where
  "rotatetags E i s =
     do {
       m \<leftarrow> selm s;
       let n = ntags (cfg E);
       new \<leftarrow> (if i < 0 then rotate_right n (nat \<bar>i\<bar>) (tagsel m)
              else rotate_left n (nat \<bar>i\<bar>) (tagsel m));
       let new = new AND TAGMASK (cfg E);
       if new \<noteq> 0 then
         do {
           s \<leftarrow> modm (selmon s) (\<lambda>m. m\<lparr>m_tagset := (m_tagset m)[m_seltags m := new]\<rparr>) s;
           s \<leftarrow> focus E None s;
           arrange E (Some (selmon s)) s }
       else Some s }"

definition shift_step :: "nat \<Rightarrow> int \<Rightarrow> 32 word \<Rightarrow> 32 word option" where
  "shift_step n i w = (if i > 0 then rotate_left n (nat i) w else rotate_right n (nat (- i)) w)"

text \<open>\<open>do ... while (tagmask && !(shifted.ui & tagmask))\<close>, on the unmasked word.\<close>

partial_function (option) shift_loop :: "nat \<Rightarrow> int \<Rightarrow> 32 word \<Rightarrow> 32 word \<Rightarrow> 32 word option" where
  [code]: "shift_loop n i mk w =
     do {
       w \<leftarrow> shift_step n i w;
       if mk \<noteq> 0 \<and> w AND mk = 0 then shift_loop n i mk w else Some w }"

definition shiftviewclients :: "xenv \<Rightarrow> int \<Rightarrow> wm \<Rightarrow> wm option" where
  "shiftviewclients E i s =
     do {
       m \<leftarrow> selm s;
       ks \<leftarrow> those (map (clis s) (m_clients m));
       let mk = fold (\<lambda>k w. w OR c_tags k) ks 0;
       w \<leftarrow> shift_loop (ntags (cfg E)) i mk (tagsel m);
       view E w s }"

definition setlayout_mon :: "lptr option \<Rightarrow> monitor \<Rightarrow> monitor" where
  "setlayout_mon v m =
     (let p = m_pertag m; t = curtag p;
          m = (if v = None \<or> v \<noteq> Some (ltsel m) then
                 let l = sellts p ! t XOR 1
                 in m\<lparr>m_sellt := l, m_pertag := p\<lparr>sellts := (sellts p)[t := l]\<rparr>\<rparr>
               else m);
          p = m_pertag m; l = m_sellt m
      in case v of
           None \<Rightarrow> m
         | Some x \<Rightarrow> m\<lparr>m_lt := (m_lt m)[l := x],
                       m_pertag := p\<lparr>ltidxs := (ltidxs p)[t := (ltidxs p ! t)[l := x]]\<rparr>\<rparr>)"

definition setlayout :: "xenv \<Rightarrow> lptr option \<Rightarrow> wm \<Rightarrow> wm option" where
  "setlayout E v s =
     do {
       s \<leftarrow> modm (selmon s) (setlayout_mon v) s;
       m \<leftarrow> selm s;
       l \<leftarrow> deref_layout (cfg E) (ltsel m);
       sym \<leftarrow> symbol l;
       s \<leftarrow> modm (selmon s) (\<lambda>m. m\<lparr>m_ltsymbol := strncpy 63 sym\<rparr>) s;
       if m_sel m \<noteq> None then arrange E (Some (selmon s)) s else drawbar E (selmon s) s }"

text \<open>The search for the current layout runs off the table when it is not there.\<close>

definition cyclelayout :: "xenv \<Rightarrow> int \<Rightarrow> wm \<Rightarrow> wm option" where
  "cyclelayout E i s =
     do {
       m \<leftarrow> selm s;
       case ltsel m of
         LtFoo \<Rightarrow> None
       | Lt j \<Rightarrow> do {
           l \<leftarrow> deref_layout (cfg E) (Lt j);
           if i > 0 then
             do {
               more \<leftarrow> (if symbol l \<noteq> None
                       then do { n \<leftarrow> deref_layout (cfg E) (Lt (j + 1)); Some (symbol n \<noteq> None) }
                       else Some False);
               setlayout E (Some (Lt (if more then j + 1 else 0))) s }
           else
             do {
               less \<leftarrow> (if j \<noteq> 0
                       then do { n \<leftarrow> deref_layout (cfg E) (Lt (j - 1)); Some (symbol n \<noteq> None) }
                       else Some False);
               setlayout E (Some (Lt (if less then j - 1 else length (layouts (cfg E)) - 2))) s } } }"

definition setdeflayouts :: "xenv \<Rightarrow> wm \<Rightarrow> wm option" where
  "setdeflayouts E s =
     do {
       s \<leftarrow> each_from 0 (\<lambda>i l s.
              if l \<noteq> 0 then
                do { s \<leftarrow> view E (push_bit i 1) s; setlayout E (Some (Lt l)) s }
              else Some s) (taglayouts (cfg E)) s;
       view E (push_bit ((deftag (cfg E) - 1) mod ntags (cfg E)) 1) s }"

definition setgaps_mon :: "config \<Rightarrow> int \<Rightarrow> monitor \<Rightarrow> monitor" where
  "setgaps_mon cf i m =
     (if i = GAP_TOGGLE then m\<lparr>m_drawwithgaps := \<not> m_drawwithgaps m\<rparr>
      else if i = GAP_RESET then m\<lparr>m_gappx := gappx cf\<rparr>
      else m\<lparr>m_gappx := (if m_gappx m + i < 0 then 0 else min (m_gappx m + i) (maxgappx cf))\<rparr>)"

definition setgaps :: "xenv \<Rightarrow> int \<Rightarrow> wm \<Rightarrow> wm option" where
  "setgaps E i s =
     do {
       s \<leftarrow> modm (selmon s) (setgaps_mon (cfg E) i) s;
       arrange E (Some (selmon s)) s }"

definition clamp_nmaster :: "config \<Rightarrow> int \<Rightarrow> int" where
  "clamp_nmaster cf n = min (max n (nminmaster cf)) (nmaxmaster cf)"

definition incnmaster :: "xenv \<Rightarrow> int \<Rightarrow> wm \<Rightarrow> wm option" where
  "incnmaster E i s =
     do {
       fl \<leftarrow> moves_floating E s;
       if fl then incfloat E i s
       else do {
         s \<leftarrow> modm (selmon s) (\<lambda>m.
                let n = (if m_nmaster m > 0 \<or> m_nmaster m = 0 \<and> i > 0
                         then clamp_nmaster (cfg E) (m_nmaster m + i)
                         else nminmaster (cfg E));
                    p = m_pertag m
                in m\<lparr>m_nmaster := n, m_pertag := p\<lparr>nmasters := (nmasters p)[curtag p := n]\<rparr>\<rparr>) s;
         arrange E (Some (selmon s)) s } }"

definition resetnmaster :: "xenv \<Rightarrow> 32 word \<Rightarrow> wm \<Rightarrow> wm option" where
  "resetnmaster E ui s =
     do {
       s \<leftarrow> modm (selmon s) (\<lambda>m. m\<lparr>m_nmaster :=
              s32 (min (max (uint ui) (u32 (nminmaster (cfg E)))) (u32 (nmaxmaster (cfg E))))\<rparr>) s;
       arrange E (Some (selmon s)) s }"

text \<open>The factors are compared with \<open>double\<close> constants.\<close>

definition new_fact :: "flt \<Rightarrow> flt \<Rightarrow> flt" where
  "new_fact f old = fl32 (if f < 1 then fl32 (f + old) else fl64 (f - 1))"

definition setmfact :: "xenv \<Rightarrow> flt \<Rightarrow> wm \<Rightarrow> wm option" where
  "setmfact E f s =
     do {
       fl \<leftarrow> moves_floating E s;
       m \<leftarrow> selm s;
       a \<leftarrow> arrange_of E m;
       if fl then
         do {
           k \<leftarrow> sel_client s;
           let g = step_px f;
           let go = (if g > 0
                     then c_x k < m_mw m - lrpad s \<and> addf (c_x k) g < fl32 (of_int (m_mw m - lrpad s))
                     else c_x k + c_w k > m_mx m + lrpad s
                          \<and> addf (c_x k + c_w k) g > fl32 (of_int (m_mx m + lrpad s)));
           s \<leftarrow> (if go then moveclient E (ctrunc (addf (c_x k) g)) (c_y k) (c_w k) (c_h k) s
                else Some s);
           arrange E (Some (selmon s)) s }
       else do {
         let deck = (a = Some Doubledeck);
         let g = new_fact f (if deck then m_dmfact m else m_mfact m);
         if g < fl64 (5 / 100) \<or> g > fl64 (95 / 100) then Some s
         else do {
           s \<leftarrow> modm (selmon s) (\<lambda>m. let p = m_pertag m in
                  if deck then m\<lparr>m_dmfact := g, m_pertag := p\<lparr>dmfacts := (dmfacts p)[curtag p := g]\<rparr>\<rparr>
                  else m\<lparr>m_mfact := g, m_pertag := p\<lparr>mfacts := (mfacts p)[curtag p := g]\<rparr>\<rparr>) s;
           arrange E (Some (selmon s)) s } } }"

definition setsmfact :: "xenv \<Rightarrow> flt \<Rightarrow> wm \<Rightarrow> wm option" where
  "setsmfact E f s =
     do {
       fl \<leftarrow> moves_floating E s;
       m \<leftarrow> selm s;
       a \<leftarrow> arrange_of E m;
       if fl then
         do {
           k \<leftarrow> sel_client s;
           let g = step_px f;
           let bar = (if m_showbar m then bh s else 0);
           let go = (if g > 0
                     then c_y k < m_mh m - lrpad s \<and> addf (c_y k) g < fl32 (of_int (m_mh m - lrpad s))
                     else c_y k + c_h k - bar > m_my m + lrpad s
                          \<and> addf (c_y k + c_h k + bar) g > fl32 (of_int (m_my m + lrpad s)));
           s \<leftarrow> (if go then moveclient E (c_x k) (ctrunc (addf (c_y k) g)) (c_w k) (c_h k) s
                else Some s);
           arrange E (Some (selmon s)) s }
       else do {
         let deck = (a = Some Zetadeck);
         let g = new_fact f (if deck then m_zmfact m else m_smfact m);
         if (if deck then g < fl64 (5 / 100) \<or> g > fl64 (95 / 100) else g < 0 \<or> g > fl64 (9 / 10))
         then Some s
         else do {
           s \<leftarrow> modm (selmon s) (\<lambda>m. let p = m_pertag m in
                  if deck then m\<lparr>m_zmfact := g, m_pertag := p\<lparr>zmfacts := (zmfacts p)[curtag p := g]\<rparr>\<rparr>
                  else m\<lparr>m_smfact := g, m_pertag := p\<lparr>smfacts := (smfacts p)[curtag p := g]\<rparr>\<rparr>) s;
           arrange E (Some (selmon s)) s } } }"

definition resetmfact_mon :: "config \<Rightarrow> arrfn \<Rightarrow> monitor \<Rightarrow> monitor" where
  "resetmfact_mon cf a m =
     (let p = m_pertag m; t = curtag p
      in if a = Doubledeck then
           m\<lparr>m_dmfact := dmfact cf, m_pertag := p\<lparr>dmfacts := (dmfacts p)[t := dmfact cf]\<rparr>\<rparr>
         else if a = Zetadeck then
           m\<lparr>m_zmfact := zmfact cf, m_pertag := p\<lparr>zmfacts := (zmfacts p)[t := zmfact cf]\<rparr>\<rparr>
         else
           m\<lparr>m_mfact := mfact cf, m_smfact := smfact cf,
             m_pertag := p\<lparr>mfacts := (mfacts p)[t := mfact cf],
                           smfacts := (smfacts p)[t := smfact cf]\<rparr>\<rparr>)"

definition resetmfact :: "xenv \<Rightarrow> wm \<Rightarrow> wm option" where
  "resetmfact E s =
     do {
       m \<leftarrow> selm s;
       a \<leftarrow> arrange_of E m;
       case a of
         None \<Rightarrow> Some s
       | Some a \<Rightarrow> do {
           s \<leftarrow> modm (selmon s) (resetmfact_mon (cfg E) a) s;
           arrange E (Some (selmon s)) s } }"

definition togglebar :: "xenv \<Rightarrow> wm \<Rightarrow> wm option" where
  "togglebar E s =
     do {
       s \<leftarrow> modm (selmon s) (\<lambda>m. m\<lparr>m_showbar := \<not> m_showbar m\<rparr>) s;
       s \<leftarrow> updatebarpos (selmon s) s;
       m \<leftarrow> selm s;
       let s = emit (XMoveResizeWindow (m_barwin m) (m_wx m) (m_by m) (m_ww m) (bh s)) s;
       arrange E (Some (selmon s)) s }"

section \<open>Updates of a monitor\<close>

lemma ball_update: "\<forall>l \<in> set xs. P l \<Longrightarrow> P x \<Longrightarrow> \<forall>l \<in> set (xs[i := x]). P l"
  using set_update_subset_insert [of xs i x] by blast

lemma xor1_less [simp]: "(l :: nat) < 2 \<Longrightarrow> l XOR Suc 0 < 2"
  by (drule less_2_cases, erule disjE) simp_all

text \<open>A layout that a monitor may have.\<close>

definition lt_ok :: "config \<Rightarrow> bool \<Rightarrow> lptr \<Rightarrow> bool" where
  "lt_ok cf r l \<longleftrightarrow> (r \<longrightarrow> l \<noteq> LtFoo) \<and> (\<exists>k. deref_layout cf l = Some k \<and> symbol k \<noteq> None)"

lemma mon_shape_lts:
  assumes "mon_shape cf b r m"
  shows "\<forall>l \<in> set (m_lt m). lt_ok cf r l" "\<forall>ls \<in> set (ltidxs (m_pertag m)). \<forall>l \<in> set ls. lt_ok cf r l"
proof -
  have *: "\<exists>k. x = Some k \<and> symbol k \<noteq> None" if "x \<noteq> None" "\<forall>k. x = Some k \<longrightarrow> symbol k \<noteq> None" for x
    using that by auto
  show "\<forall>l \<in> set (m_lt m). lt_ok cf r l" "\<forall>ls \<in> set (ltidxs (m_pertag m)). \<forall>l \<in> set ls. lt_ok cf r l"
    using assms * unfolding mon_shape_def lts_proper_def lt_ok_def by blast+
qed

text \<open>What of \<open>mon_shape\<close> is not about the layouts.\<close>

definition base_shape :: "config \<Rightarrow> int \<Rightarrow> monitor \<Rightarrow> bool" where
  "base_shape cf b m \<longleftrightarrow>
     screen_ok cf b (m_mh m) \<and> screen_ok cf 0 (m_wh m) \<and> 0 < m_ww m \<and> 0 \<le> m_gappx m \<and> m_gappx m \<le> maxgappx cf
     \<and> length (m_tagset m) = 2 \<and> m_seltags m < 2 \<and> length (m_lt m) = 2 \<and> m_sellt m < 2
     \<and> (\<forall>t \<in> set (m_tagset m). t \<noteq> 0 \<and> t AND TAGMASK cf = t)
     \<and> length (m_tagmarked m) = 32"

definition pertag_shape :: "config \<Rightarrow> pertag \<Rightarrow> bool" where
  "pertag_shape cf p \<longleftrightarrow>
     curtag p \<le> ntags cf \<and> prevtag p \<le> ntags cf
     \<and> length (nmasters p) = Suc (ntags cf) \<and> length (mfacts p) = Suc (ntags cf)
     \<and> length (smfacts p) = Suc (ntags cf) \<and> length (dmfacts p) = Suc (ntags cf)
     \<and> length (zmfacts p) = Suc (ntags cf) \<and> length (sellts p) = Suc (ntags cf)
     \<and> (\<forall>i \<in> set (sellts p). i < 2) \<and> length (ltidxs p) = Suc (ntags cf)
     \<and> (\<forall>ls \<in> set (ltidxs p). length ls = 2)"

lemma mon_shapeI:
  assumes "base_shape cf b m" "pertag_shape cf (m_pertag m)" "\<forall>l \<in> set (m_lt m). lt_ok cf r l"
    "\<forall>ls \<in> set (ltidxs (m_pertag m)). \<forall>l \<in> set ls. lt_ok cf r l"
  shows "mon_shape cf b r m"
proof -
  have "r \<longrightarrow> lts_proper m" using assms(3,4) by (auto simp: lts_proper_def lt_ok_def)
  moreover have "\<forall>l \<in> set (m_lt m). deref_layout cf l \<noteq> None
      \<and> (\<forall>k. deref_layout cf l = Some k \<longrightarrow> symbol k \<noteq> None)"
    using assms(3) unfolding lt_ok_def by force
  moreover have "\<forall>ls \<in> set (ltidxs (m_pertag m)). \<forall>l \<in> set ls. deref_layout cf l \<noteq> None
      \<and> (\<forall>k. deref_layout cf l = Some k \<longrightarrow> symbol k \<noteq> None)"
    using assms(4) unfolding lt_ok_def by force
  ultimately show ?thesis
    using assms(1,2) unfolding mon_shape_def base_shape_def pertag_shape_def by blast
qed

lemma mon_shapeD:
  assumes "mon_shape cf b r m"
  shows "base_shape cf b m" "pertag_shape cf (m_pertag m)"
  using assms unfolding mon_shape_def base_shape_def pertag_shape_def by blast+

lemma apply_pertag_shape:
  assumes "base_shape cf b m" "pertag_shape cf (m_pertag m)" "\<forall>l \<in> set (m_lt m). lt_ok cf r l"
    "\<forall>ls \<in> set (ltidxs (m_pertag m)). \<forall>l \<in> set ls. lt_ok cf r l"
  shows "mon_shape cf b r (apply_pertag m)"
proof -
  let ?p = "m_pertag m"
  let ?t = "curtag ?p"
  let ?l = "sellts ?p ! ?t"
  have t: "?t < Suc (ntags cf)" using assms(2) by (simp add: pertag_shape_def)
  have l: "?l < 2" using assms(2) t by (auto simp: pertag_shape_def)
  have ls: "ltidxs ?p ! ?t \<in> set (ltidxs ?p)" "length (ltidxs ?p ! ?t) = 2"
    using assms(2) t by (auto simp: pertag_shape_def)
  have x: "lt_ok cf r (ltidxs ?p ! ?t ! i)" if "i < 2" for i
    using assms(4) ls that by (metis nth_mem)
  have "\<forall>k \<in> set ((m_lt m)[?l := ltidxs ?p ! ?t ! ?l, ?l XOR 1 := ltidxs ?p ! ?t ! (?l XOR 1)]). lt_ok cf r k"
    using l by (intro ball_update assms(3) x) simp_all
  then show ?thesis
    using assms l
    by (intro mon_shapeI) (simp_all add: apply_pertag_def Let_def base_shape_def)
qed

lemma mon_lists_cong:
  assumes "m_clients k' = m_clients k" "m_stack k' = m_stack k" "m_sel k' = m_sel k" "m_tagmarked k' = m_tagmarked k"
  shows "mon_lists cf k' = mon_lists cf k"
  using assms by (simp add: mon_lists_def)

text \<open>An update of a monitor that keeps its lists and their order.\<close>

definition keeps_lists :: "monitor \<Rightarrow> monitor \<Rightarrow> bool" where
  "keeps_lists k k' \<longleftrightarrow> m_clients k' = m_clients k \<and> m_stack k' = m_stack k \<and> m_sel k' = m_sel k
     \<and> m_tagmarked k' = m_tagmarked k"

lemma apply_pertag_lists [simp]:
  "m_clients (apply_pertag k) = m_clients k" "m_stack (apply_pertag k) = m_stack k"
  "m_sel (apply_pertag k) = m_sel k" "m_tagmarked (apply_pertag k) = m_tagmarked k"
  by (simp_all add: apply_pertag_def Let_def)

lemma lowbit_least: "lowbit w = Some i \<Longrightarrow> bit w j \<Longrightarrow> i \<le> j"
proof (rule ccontr)
  assume l: "lowbit w = Some i" and j: "bit w j" and "\<not> i \<le> j"
  then have ij: "j < i" by simp
  from l obtain n where n: "n < 32" "bit w ([0..<32] ! n)" "i = [0..<32] ! n" "\<forall>k < n. \<not> bit w ([0..<32] ! k)"
    unfolding lowbit_def find_Some_iff by auto
  then have "i = n" by simp
  then show False using n(1,4) ij j by auto
qed

lemma lowbit_tag:
  assumes "ui AND TAGMASK cf \<noteq> 0"
  obtains i where "lowbit ui = Some i" "i < ntags cf"
proof -
  obtain j where j: "lowbit (ui AND TAGMASK cf) = Some j" using lowbit_total assms by blast
  have "j < ntags cf"
    using lowbit_masked [of "ui AND TAGMASK cf" "ntags cf" j] j by (simp add: TAGMASK_def ac_simps)
  have "bit ui j" using lowbit_Some [OF j] by (simp add: bit_and_iff)
  moreover have "ui \<noteq> 0" using assms by auto
  then obtain i where i: "lowbit ui = Some i" using lowbit_total by blast
  ultimately have "i \<le> j" using lowbit_least by blast
  with i \<open>j < ntags cf\<close> that show ?thesis by simp
qed

lemma view_mon_total:
  assumes S: "mon_shape cf b r m"
  shows "\<exists>m'. view_mon cf ui m = Some m' \<and> mon_shape cf b r m' \<and> keeps_lists m m'
    \<and> (ui AND TAGMASK cf \<noteq> 0 \<longrightarrow> tagsel m' = ui AND TAGMASK cf)"
proof -
  let ?m = "m\<lparr>m_seltags := m_seltags m XOR 1\<rparr>"
  let ?p = "m_pertag m"
  note B = mon_shapeD [OF S] mon_shape_lts [OF S]
  have ts: "length (m_tagset m) = 2" "m_seltags m < 2" using B(1) by (simp_all add: base_shape_def)
  show ?thesis
  proof (cases "ui AND TAGMASK cf = 0")
    case True
    let ?m' = "?m\<lparr>m_pertag := ?p\<lparr>curtag := prevtag ?p, prevtag := curtag ?p\<rparr>\<rparr>"
    have "mon_shape cf b r (apply_pertag ?m')"
      using B by (intro apply_pertag_shape) (simp_all add: base_shape_def pertag_shape_def)
    then show ?thesis
      using True by (simp add: view_mon_def Let_def keeps_lists_def)
  next
    case False
    then obtain i where i: "lowbit ui = Some i" "i < ntags cf" by (rule lowbit_tag)
    obtain t where t: "(if ui = NOT 0 then Some 0 else map_option Suc (lowbit ui)) = Some t" "t \<le> ntags cf"
      using i by (cases "ui = NOT 0") auto
    let ?m' = "?m\<lparr>m_tagset := (m_tagset m)[m_seltags m XOR 1 := ui AND TAGMASK cf],
        m_pertag := ?p\<lparr>curtag := t, prevtag := curtag ?p\<rparr>\<rparr>"
    have "\<forall>x \<in> set ((m_tagset m)[m_seltags m XOR 1 := ui AND TAGMASK cf]). x \<noteq> 0 \<and> x AND TAGMASK cf = x"
      using B(1) False by (intro ball_update) (simp_all add: base_shape_def ac_simps)
    then have "mon_shape cf b r (apply_pertag ?m')"
      using B t(2) by (intro apply_pertag_shape) (simp_all add: base_shape_def pertag_shape_def)
    moreover have "tagsel (apply_pertag ?m') = ui AND TAGMASK cf"
      using ts by (simp add: tagsel_def apply_pertag_def Let_def)
    ultimately show ?thesis
      using False t(1) by (simp add: view_mon_def Let_def keeps_lists_def)
  qed
qed

end
