(* ===== verification/ViewFrames.thy ===== *)
theory ViewFrames
  imports Views
begin

text \<open>
  The commands of \<open>Views\<close> stay within the frame: they do not crash, and they keep the
  invariant. The conditions of some of them are the crashes of the code: \<open>all_view\<close> for
  \<open>toggleview\<close>, \<open>no_sel\<close> for the commands that follow the selected client, \<open>stray_tags\<close>
  for the search of \<open>shiftviewclients\<close>; \<open>tag\<close> needs \<open>viewontag\<close>.
\<close>

section \<open>Views and tags\<close>

lemma fr_set_mon:
  assumes F: "fr cf s t" and k: "mmem t m = Some k" and S: "mon_shape cf (bh t) (running t) k'" and K: "keeps_lists k k'"
  shows "res (fr cf s) (modm m (\<lambda>_. k') t)"
  by (rule fr_modm [OF F]) (use k S K mon_lists_cong [of k' k cf] in \<open>auto simp: keeps_lists_def\<close>)

lemma fr_view_mon_bind:
  assumes F: "fr cf s t" and k: "mmem t m = Some k"
    and Q: "\<And>k'. view_mon cf ui k = Some k' \<Longrightarrow> mon_shape cf (bh t) (running t) k' \<Longrightarrow> keeps_lists k k' \<Longrightarrow> res (fr cf s) (f k')"
  shows "res (fr cf s) (view_mon cf ui k \<bind> f)"
  using view_mon_total [OF wfx_shape [OF fr_wf [OF F] k], of ui] Q by auto

lemma fr_selm_ex: "fr cf s t \<Longrightarrow> \<exists>k. selm t = Some k"
  using fr_selm by auto

lemma view_fr [fr_intro]:
  assumes F: "fr (cfg E) s t" and ok: "config_ok (cfg E)"
  shows "res (fr (cfg E) s) (view E ui t)"
  unfolding view_def
  by (intro fr_view_mon_bind fr_set_mon fr_intro res_intro) (use F ok in \<open>auto intro: fr_still fr_selm_ex\<close>)

lemma within_tags:
  assumes "new AND TAGMASK cf = new" "config_ok cf"
  shows "new \<noteq> NOT 0"
proof
  assume "new = NOT 0"
  then have "TAGMASK cf = NOT 0" using assms(1) by simp
  then have "bit (TAGMASK cf) 31" by simp
  then show False using assms(2) by (simp add: TAGMASK_def config_ok_def)
qed

lemma toggleview_mon_total:
  assumes S: "mon_shape cf b r m" and ok: "config_ok cf"
    and new: "new \<noteq> 0" "new AND TAGMASK cf = new" and c: "curtag (m_pertag m) \<noteq> 0"
  shows "\<exists>m'. toggleview_mon new m = Some m' \<and> mon_shape cf b r m' \<and> keeps_lists m m' \<and> tagsel m' = new"
proof -
  note B = mon_shapeD [OF S] mon_shape_lts [OF S]
  have ts: "length (m_tagset m) = 2" "m_seltags m < 2" using B(1) by (simp_all add: base_shape_def)
  obtain i where i: "lowbit new = Some i" "i < ntags cf"
    using new by (metis lowbit_tag)
  let ?m = "m\<lparr>m_tagset := (m_tagset m)[m_seltags m := new]\<rparr>"
  obtain p where p: "toggleview_mon new m = Some (apply_pertag (?m\<lparr>m_pertag := p\<rparr>))"
    "pertag_shape cf p" "ltidxs p = ltidxs (m_pertag m)"
  proof (cases "new AND push_bit (curtag (m_pertag m) - 1) 1 = 0")
    case True
    then show ?thesis
      using that [of "(m_pertag m)\<lparr>curtag := i + 1, prevtag := curtag (m_pertag m)\<rparr>"] B(2) i c
        within_tags [OF new(2) ok]
      by (simp add: toggleview_mon_def pertag_shape_def Let_def)
  next
    case False
    then show ?thesis
      using that [of "m_pertag m"] B(2) c within_tags [OF new(2) ok] by (simp add: toggleview_mon_def Let_def)
  qed
  have "\<forall>x \<in> set ((m_tagset m)[m_seltags m := new]). x \<noteq> 0 \<and> x AND TAGMASK cf = x"
    using B(1) new by (intro ball_update) (simp_all add: base_shape_def)
  then have "mon_shape cf b r (apply_pertag (?m\<lparr>m_pertag := p\<rparr>))"
    using B p(2,3) by (intro apply_pertag_shape) (simp_all add: base_shape_def)
  moreover have "tagsel (apply_pertag (?m\<lparr>m_pertag := p\<rparr>)) = new"
    using ts by (simp add: tagsel_def apply_pertag_def Let_def)
  ultimately show ?thesis using p(1) by (simp add: keeps_lists_def)
qed

definition all_view :: "wm \<Rightarrow> bool" where
  "all_view s \<longleftrightarrow> (\<exists>m. selm s = Some m \<and> curtag (m_pertag m) = 0)"

lemma masked_xor: "t AND TAGMASK cf = t \<Longrightarrow> (t XOR (ui AND TAGMASK cf)) AND TAGMASK cf = t XOR (ui AND TAGMASK cf)"
  by (metis and.assoc and.idem bit.conj_xor_distrib2)

lemma fr_toggleview_mon_bind:
  assumes F: "fr cf s t" and k: "mmem t m = Some k" and ok: "config_ok cf"
    and new: "new \<noteq> 0" "new AND TAGMASK cf = new" and c: "curtag (m_pertag k) \<noteq> 0"
    and Q: "\<And>k'. mon_shape cf (bh t) (running t) k' \<Longrightarrow> keeps_lists k k' \<Longrightarrow> res (fr cf s) (f k')"
  shows "res (fr cf s) (toggleview_mon new k \<bind> f)"
  using toggleview_mon_total [OF wfx_shape [OF fr_wf [OF F] k] ok new c] Q by auto

lemma toggleview_fr [fr_intro]:
  assumes F: "fr (cfg E) s t" and ok: "config_ok (cfg E)" and S: "\<not> all_view t"
  shows "res (fr (cfg E) s) (toggleview E ui t)"
proof -
  obtain m where m: "selm t = Some m" "mmem t (selmon t) = Some m"
    using wfx_selmon [OF fr_wf [OF F]] by metis
  have "tagsel m AND TAGMASK (cfg E) = tagsel m" using tagsel_ok wfx_shape [OF fr_wf [OF F] m(2)] by blast
  note new = masked_xor [OF this, of ui]
  have "curtag (m_pertag m) \<noteq> 0" using S m(1) by (auto simp: all_view_def)
  then show ?thesis
    unfolding toggleview_def Let_def m(1) bind.bind_lunit
    by (intro fr_toggleview_mon_bind fr_set_mon fr_intro res_intro) (use F ok m new in \<open>auto intro: fr_still fr_selm_ex\<close>)
qed

lemma toggletag_fr [fr_intro]:
  assumes F: "fr (cfg E) s t" and ok: "config_ok (cfg E)"
  shows "res (fr (cfg E) s) (toggletag E ui t)"
  unfolding toggletag_def Let_def
  by (intro fr_intro res_intro) (use F ok in \<open>auto intro: fr_still fr_selm_ex\<close>)

lemma tagset_shape:
  assumes "mon_shape cf b r m" "new \<noteq> 0" "new AND TAGMASK cf = new"
  shows "mon_shape cf b r (m\<lparr>m_tagset := (m_tagset m)[i := new]\<rparr>)"
proof -
  note B = mon_shapeD [OF assms(1)] mon_shape_lts [OF assms(1)]
  have "\<forall>x \<in> set ((m_tagset m)[i := new]). x \<noteq> 0 \<and> x AND TAGMASK cf = x"
    using B(1) assms(2,3) by (intro ball_update) (simp_all add: base_shape_def)
  then show ?thesis using B by (intro mon_shapeI) (simp_all add: base_shape_def)
qed

lemma fr_tagset:
  assumes F: "fr cf s t" and m: "mmem t m \<noteq> None" and new: "new \<noteq> 0" "new AND TAGMASK cf = new"
  shows "res (fr cf s) (modm m (\<lambda>m. m\<lparr>m_tagset := (m_tagset m)[m_seltags m := new]\<rparr>) t)"
  by (rule fr_modm [OF F m]) (use new tagset_shape in \<open>auto simp: mon_lists_def\<close>)

lemma swap_tags_frame [simp]:
  "c_mon (swap_tags new cur k) = c_mon k" "c_name (swap_tags new cur k) = c_name k"
  by (simp_all add: swap_tags_def Let_def)

lemma masked_twice [simp]: "ui AND TAGMASK cf AND TAGMASK cf = ui AND TAGMASK cf"
  by (simp add: and.assoc)

lemma swaptag_fr [fr_intro]:
  assumes F: "fr (cfg E) s t" and ok: "config_ok (cfg E)" and S: "ui AND TAGMASK (cfg E) \<noteq> 0"
  shows "res (fr (cfg E) s) (swaptag E ui t)"
  unfolding swaptag_def Let_def
  by (intro fr_tagset fr_intro res_intro) (use F ok S in \<open>auto intro: fr_still fr_selm_ex\<close>)

text \<open>The client \<open>c\<close> is on the selected monitor and has the tags \<open>x\<close>.\<close>

definition shown_on :: "cid \<Rightarrow> 32 word \<Rightarrow> wm \<Rightarrow> bool" where
  "shown_on c x s \<longleftrightarrow>
     (\<exists>k j. mmem s (selmon s) = Some k \<and> c \<in> set (m_clients k) \<and> clis s c = Some j \<and> c_mon j = selmon s \<and> c_tags j = x)"

lemma cosm_selid:
  assumes "cosm s t"
  shows "selid t = selid s"
proof -
  have "map_option mskel (mmem t (selmon t)) = map_option mskel (mmem s (selmon s))"
    using assms by (simp add: cosm_def skel_def fun_eq_iff)
  then show ?thesis
    by (cases "mmem s (selmon s)"; cases "mmem t (selmon t)")
      (auto simp: selid_def selm_def dest: mskel_fields(3))
qed

lemma cosm_shown_on:
  assumes "cosm s t" "shown_on c x s"
  shows "shown_on c x t"
proof -
  obtain k j where k: "mmem s (selmon s) = Some k" "c \<in> set (m_clients k)" "clis s c = Some j" "c_mon j = selmon s" "c_tags j = x"
    using assms(2) by (auto simp: shown_on_def)
  obtain k' where k': "mmem t (selmon s) = Some k'" "mskel k' = mskel k" by (rule cosm_monitor [OF assms(1) k(1)])
  obtain j' where j': "clis t c = Some j'" "cskel j' = cskel j" by (rule cosm_client [OF assms(1) k(3)])
  show ?thesis
    unfolding shown_on_def
    using k k' j' cosm_fields(2) [OF assms(1)] mskel_fields(1) [OF k'(2)] cskel_fields(1,3) [OF j'(2)] by auto
qed

lemma focus_shown:
  assumes F: "fr (cfg E) s t" and ok: "config_ok (cfg E)" and c: "shown_on c x t"
  shows "res (\<lambda>u. fr (cfg E) s u \<and> shown_on c x u \<and> selmon u = selmon t \<and>
      map_option tagsel (selm u) = map_option tagsel (selm t) \<and>
      (\<forall>m. selm t = Some m \<longrightarrow> x AND tagsel m \<noteq> 0 \<longrightarrow> selid u \<noteq> None)) (focus E None t)"
proof -
  note W = fr_wf [OF F]
  obtain k j where k: "mmem t (selmon t) = Some k" "c \<in> set (m_clients k)" "clis t c = Some j" "c_mon j = selmon t" "c_tags j = x"
    using c by (auto simp: shown_on_def)
  obtain r where r: "focus_target t None = Some r"
    "res (\<lambda>u. wf (cfg E) u \<and> focused t u r) (focus E None t)"
    by (rule focus_spec [OF W ok, of None]) simp_all
  have ft: "firstO (ISVISIBLE t) (m_stack k) = Some r"
    using r(1) k(1) by (simp add: focus_target_def selm_def)
  have mem: "\<exists>i. clis t a = Some i \<and> c_mon i = selmon t" if "r = Some a" for a
  proof -
    have "a \<in> set (m_clients k)"
      using ft that firstO_mem [of "ISVISIBLE t" "m_stack k" a] wfx_stack_clients [OF W k(1)] by simp
    then show ?thesis by (rule wfx_clientD [OF W k(1)])
  qed
  have vis: "r \<noteq> None" if "x AND tagsel k \<noteq> 0"
  proof
    assume "r = None"
    have "ISVISIBLE t c = Some True"
      using k that by (simp add: ISVISIBLE_def ISVISIBLEONTAG_def)
    moreover have "c \<in> set (m_stack k)" using k(2) wfx_stack_clients [OF W k(1)] by simp
    ultimately show False using firstO_none [of "ISVISIBLE t" "m_stack k" c] ft \<open>r = None\<close> by simp
  qed
  show ?thesis
  proof (rule res_mono [OF r(2)], elim conjE)
    fix u assume u: "wf (cfg E) u" "focused t u r"
    have sm: "selmon u = selmon t" using u(2) mem by (auto simp: focused_def split: option.splits)
    obtain k' where k': "mmem u (selmon t) = Some k'" "m_clients k' = m_clients k" "m_sel k' = r"
      using u(2) k(1) sm by (auto simp: focused_def)
    have "keep t u" using u(2) by (simp add: focused_def)
    then have tk: "tagsel k' = tagsel k"
      by (rule keep_monitor [OF _ k(1)]) (use k'(1) in \<open>auto dest: mcore_fields(1)\<close>)
    obtain j' where j': "clis u c = Some j'" "cskel j' = cskel j"
      using u(2) keep_client [OF _ k(3)] by (auto simp: focused_def)
    have "shown_on c x u"
      unfolding shown_on_def using k' k j' sm cskel_fields(1,3) [OF j'(2)] by auto
    moreover have "selid u = r" using k' sm by (simp add: selid_def selm_def)
    moreover have "map_option tagsel (selm u) = map_option tagsel (selm t)"
      using k' k(1) sm tk by (simp add: selm_def)
    ultimately show "fr (cfg E) s u \<and> shown_on c x u \<and> selmon u = selmon t \<and>
      map_option tagsel (selm u) = map_option tagsel (selm t) \<and>
      (\<forall>m. selm t = Some m \<longrightarrow> x AND tagsel m \<noteq> 0 \<longrightarrow> selid u \<noteq> None)"
      using focused_fr [OF F u] sm vis k(1) by (auto simp: selm_def)
  qed
qed

lemma tag_done_fr:
  assumes F: "fr (cfg E) s u" and S: "selid u \<noteq> None"
  shows "res (fr (cfg E) s) (do { m \<leftarrow> selm u; c \<leftarrow> m_sel m; updateclientdesktop E c u })"
proof -
  obtain m where m: "selm u = Some m" "mmem u (selmon u) = Some m"
    using wfx_selmon [OF fr_wf [OF F]] by metis
  obtain c where c: "m_sel m = Some c" using S m(1) by (auto simp: selid_def)
  then have "\<exists>j. clis u c = Some j" using fr_still(4) [OF F F m(1)] by blast
  then show ?thesis
    unfolding m(1) bind.bind_lunit c
    by (intro fr_intro) (use F in \<open>auto intro: fr_still fr_selm_ex\<close>)
qed

text \<open>The view follows a client that has been tagged, so that one is selected.\<close>

lemma arrange_shown:
  assumes F: "fr (cfg E) s t" and ok: "config_ok (cfg E)" and m: "mmem t m \<noteq> None"
  shows "res (\<lambda>u. fr (cfg E) s u \<and> selid u = selid t \<and> selmon u = selmon t
      \<and> (\<forall>c x. shown_on c x t \<longrightarrow> shown_on c x u)
      \<and> map_option mskel (selm u) = map_option mskel (selm t)) (arrange E (Some m) t)"
proof (rule res_mono)
  show "res (cosm t) (arrange E (Some m) t)"
    by (rule arrange_cosm [OF cosm_refl fr_wf [OF F] ok]) (use m in auto)
  fix u assume C: "cosm t u"
  have "map_option mskel (selm u) = map_option mskel (selm t)"
    using C by (simp add: selm_def cosm_def skel_def fun_eq_iff)
  then show "fr (cfg E) s u \<and> selid u = selid t \<and> selmon u = selmon t
      \<and> (\<forall>c x. shown_on c x t \<longrightarrow> shown_on c x u) \<and> map_option mskel (selm u) = map_option mskel (selm t)"
    using cosm_fr [OF C F] cosm_selid [OF C] cosm_shown_on [OF C] cosm_fields(2) [OF C] by simp
qed

lemma view_shown:
  assumes F: "fr (cfg E) s t" and ok: "config_ok (cfg E)" and c: "shown_on c (ui AND TAGMASK (cfg E)) t"
    and S: "\<And>m. selm t = Some m \<Longrightarrow> tagsel m = ui AND TAGMASK (cfg E) \<Longrightarrow> selid t \<noteq> None" and nz: "ui AND TAGMASK (cfg E) \<noteq> 0"
  shows "res (\<lambda>u. fr (cfg E) s u \<and> selid u \<noteq> None) (view E ui t)"
proof -
  let ?x = "ui AND TAGMASK (cfg E)"
  obtain m where m: "selm t = Some m" "mmem t (selmon t) = Some m"
    using wfx_selmon [OF fr_wf [OF F]] by metis
  show ?thesis
  proof (cases "?x = tagsel m")
    case True
    then show ?thesis using m F S [OF m(1)] by (simp add: view_def)
  next
    case False
    obtain m' where m': "view_mon (cfg E) ui m = Some m'" "mon_shape (cfg E) (bh t) (running t) m'"
      "keeps_lists m m'" "tagsel m' = ?x"
      using view_mon_total [OF wfx_shape [OF fr_wf [OF F] m(2)], of ui] nz by blast
    define u where "u = t\<lparr>mmem := (mmem t)(selmon t \<mapsto> m')\<rparr>"
    have u: "modm (selmon t) (\<lambda>_. m') t = Some u" using m(2) by (simp add: modm_def u_def)
    have Fu: "fr (cfg E) s u"
      using fr_set_mon [OF F m(2) m'(2,3)] u by simp
    have mu: "selm u = Some m'" "selmon u = selmon t" by (simp_all add: u_def selm_def)
    have cu: "shown_on c ?x u"
      using c m(2) m'(3) by (auto simp: shown_on_def u_def keeps_lists_def)
    have 1: "res (\<lambda>v. fr (cfg E) s v \<and> selid v \<noteq> None) (focus E None u)"
      by (rule res_mono [OF focus_shown [OF Fu ok cu]]) (use mu m'(4) nz in auto)
    have 2: "res (\<lambda>v. fr (cfg E) s v \<and> selid v \<noteq> None) (arrange E (Some (selmon v)) v)"
      if "fr (cfg E) s v \<and> selid v \<noteq> None" for v
      by (rule res_mono [OF arrange_shown [of E s v]]) (use that ok fr_selm_ex [of "cfg E" s v] in \<open>auto simp: selm_def\<close>)
    have 3: "res (\<lambda>v. fr (cfg E) s v \<and> selid v \<noteq> None) (updatecurrentdesktop E v)"
      if "fr (cfg E) s v \<and> selid v \<noteq> None" for v
      by (rule res_mono [OF updatecurrentdesktop_cosm [OF cosm_refl, of v E]])
        (use that cosm_fr cosm_selid fr_selm in auto)
    show ?thesis
      using m(1) False m'(1) u
      by (simp add: view_def del: not_None_eq) (intro res_bind [OF 1] res_bind [OF 2] 3)
  qed
qed

lemma tag_fr [fr_intro]:
  assumes F: "fr (cfg E) s t" and ok: "config_ok (cfg E)" and V: "viewontag (cfg E)"
  shows "res (fr (cfg E) s) (tag E ui t)"
proof -
  let ?x = "ui AND TAGMASK (cfg E)"
  obtain m where m: "selm t = Some m" "mmem t (selmon t) = Some m"
    using wfx_selmon [OF fr_wf [OF F]] by metis
  show ?thesis
  proof (cases "m_sel m = None \<or> ?x = 0")
    case True
    then show ?thesis using m(1) F by (cases "m_sel m") (auto simp: tag_def Let_def)
  next
    case False
    then obtain c where c: "m_sel m = Some c" and nz: "?x \<noteq> 0" by auto
    have cm: "c \<in> set (m_clients m)" by (rule wfx_sel_client [OF fr_wf [OF F] m(2) c])
    obtain j where j: "clis t c = Some j" "c_mon j = selmon t" by (rule wfx_client [OF fr_wf [OF F] m(2) cm])
    define u where "u = t\<lparr>clis := (clis t)(c \<mapsto> j\<lparr>c_tags := ?x\<rparr>)\<rparr>"
    have u: "modc c (\<lambda>k. k\<lparr>c_tags := ?x\<rparr>) t = Some u" using j by (simp add: modc_def u_def)
    have Fu: "fr (cfg E) s u"
      using fr_modc [OF F, of c "\<lambda>k. k\<lparr>c_tags := ?x\<rparr>"] u j by simp
    have cu: "shown_on c ?x u" using m(2) cm j by (auto simp: shown_on_def u_def)
    have mu: "selm u = Some m" "selmon u = selmon t" using m(2) by (simp_all add: u_def selm_def)
    let ?Q = "\<lambda>v. fr (cfg E) s v \<and> shown_on c ?x v \<and>
      (\<forall>m. selm v = Some m \<longrightarrow> ?x AND tagsel m \<noteq> 0 \<longrightarrow> selid v \<noteq> None)"
    have 1: "res ?Q (focus E None u)"
      by (rule res_mono [OF focus_shown [OF Fu ok cu]]) (use mu in auto)
    have 2: "res ?Q (arrange E (Some (selmon v)) v)" if "?Q v" for v
      by (rule res_mono [OF arrange_shown [of E s v]])
        (use that ok fr_selm_ex [of "cfg E" s v] in
          \<open>auto simp: selm_def map_option_eq_Some dest!: mskel_fields(4)\<close>)
    have 3: "res (\<lambda>v. fr (cfg E) s v \<and> selid v \<noteq> None)
        (if viewontag (cfg E) \<and> ?x \<noteq> TAGMASK (cfg E) then view E ui v else Some v)" if Q: "?Q v" for v
    proof (cases "?x = TAGMASK (cfg E)")
      case True
      obtain k where k: "selm v = Some k" "mmem v (selmon v) = Some k"
        using wfx_selmon [OF fr_wf] Q by metis
      have "?x AND tagsel k \<noteq> 0"
        using True tagsel_ok [OF wfx_shape [OF fr_wf k(2)]] Q by (metis and.commute)
      then show ?thesis using True Q k(1) by auto
    next
      case False
      show ?thesis
        using False V view_shown [where E = E and s = s and t = v and ui = ui and c = c] Q ok nz by (simp del: not_None_eq)
    qed
    show ?thesis
      using m(1) c nz u
      by (simp add: tag_def Let_def del: not_None_eq)
        (intro res_bind [OF 1] res_bind [OF 2] res_bind [OF 3] tag_done_fr; blast)
  qed
qed

lemma rotatetags_fr [fr_intro]:
  assumes F: "fr (cfg E) s t" and ok: "config_ok (cfg E)" and S: "nat \<bar>i\<bar> \<le> ntags (cfg E)"
  shows "res (fr (cfg E) s) (rotatetags E i t)"
proof -
  obtain m where m: "selm t = Some m" "mmem t (selmon t) = Some m"
    using wfx_selmon [OF fr_wf [OF F]] by metis
  obtain w where w: "(if i < 0 then rotate_right (ntags (cfg E)) (nat \<bar>i\<bar>) (tagsel m)
      else rotate_left (ntags (cfg E)) (nat \<bar>i\<bar>) (tagsel m)) = Some w"
    using S that by (cases "i < 0") (simp_all add: rotate_right_def rotate_left_def)
  show ?thesis
    unfolding rotatetags_def Let_def m(1) bind.bind_lunit w
    by (intro fr_tagset fr_intro res_intro) (use F ok m in \<open>auto intro: fr_still fr_selm_ex\<close>)
qed

section \<open>Shifting the view\<close>

lemma rotate_left_bit:
  assumes "rotate_left n 1 w = Some v" "bit w j" "j < n" "n \<le> 31"
  shows "bit v (if Suc j = n then 0 else Suc j)"
proof -
  have v: "v = push_bit 1 w OR drop_bit (n - 1) w"
    using assms(1) by (simp only: rotate_left_def option.inject split: if_splits) simp
  show ?thesis
    using assms(2-4) unfolding v
    by (auto simp only: bit_or_iff bit_push_bit_iff possible_bit_word bit_drop_bit_eq o_def split: if_splits) simp_all
qed

lemma rotate_right_bit:
  assumes "rotate_right n 1 w = Some v" "bit w j" "j < n" "n \<le> 31"
  shows "bit v (if j = 0 then n - 1 else j - 1)"
  using assms by (auto simp: rotate_right_def bit_or_iff bit_push_bit_iff possible_bit_word bit_drop_bit_eq)

lemma shift_loop_step:
  assumes "shift_step n i w = Some v" "v AND mk = 0 \<Longrightarrow> \<exists>u. shift_loop n i mk v = Some u \<and> u AND mk \<noteq> 0" "mk \<noteq> 0"
  shows "\<exists>u. shift_loop n i mk w = Some u \<and> u AND mk \<noteq> 0"
  using assms by (subst shift_loop.simps) auto

lemma common_bit: "bit v j \<Longrightarrow> bit mk j \<Longrightarrow> v AND mk \<noteq> (0 :: 32 word)"
  by (metis bit_and_iff bit_0_eq bot_apply bot_bool_def)

lemma shift_step_left: "0 < n \<Longrightarrow> \<exists>v. shift_step n 1 w = Some v \<and> rotate_left n 1 w = Some v"
  by (simp add: shift_step_def rotate_left_def)

lemma shift_step_right: "0 < n \<Longrightarrow> \<exists>v. shift_step n (-1) w = Some v \<and> rotate_right n 1 w = Some v"
  by (simp add: shift_step_def rotate_right_def)

lemma shift_loop_left_up:
  assumes "j < t" "t < n" "n \<le> 31" "bit w j" "bit mk t"
  shows "\<exists>u. shift_loop n 1 mk w = Some u \<and> u AND mk \<noteq> 0"
  using assms
proof (induction "t - j" arbitrary: j w)
  case (Suc d)
  obtain v where v: "shift_step n 1 w = Some v" "rotate_left n 1 w = Some v"
    using shift_step_left [of n w] Suc.prems by auto
  have b: "bit v (Suc j)" using rotate_left_bit [OF v(2) Suc.prems(4)] Suc.prems by (auto split: if_splits)
  have "mk \<noteq> 0" using Suc.prems(5) by auto
  show ?case
  proof (rule shift_loop_step [OF v(1) _ \<open>mk \<noteq> 0\<close>])
    assume z: "v AND mk = 0"
    then have "Suc j \<noteq> t" using common_bit [OF b] Suc.prems(5) by blast
    then show "\<exists>u. shift_loop n 1 mk v = Some u \<and> u AND mk \<noteq> 0"
      using Suc.hyps(1) [of "Suc j" v] Suc.hyps(2) b Suc.prems by auto
  qed
qed simp

lemma shift_loop_left:
  assumes "j < n" "t < n" "n \<le> 31" "bit w j" "bit mk t"
  shows "\<exists>u. shift_loop n 1 mk w = Some u \<and> u AND mk \<noteq> 0"
  using assms
proof (induction "n - j" arbitrary: j w)
  case (Suc d)
  obtain v where v: "shift_step n 1 w = Some v" "rotate_left n 1 w = Some v"
    using shift_step_left [of n w] Suc.prems by auto
  note b = rotate_left_bit [OF v(2) Suc.prems(4,1,3)]
  have "mk \<noteq> 0" using Suc.prems(5) by auto
  show ?case
  proof (rule shift_loop_step [OF v(1) _ \<open>mk \<noteq> 0\<close>])
    assume z: "v AND mk = 0"
    show "\<exists>u. shift_loop n 1 mk v = Some u \<and> u AND mk \<noteq> 0"
    proof (cases "Suc j = n")
      case True
      then have "bit v 0" using b by simp
      moreover from this have "0 < t" using common_bit z Suc.prems(5) by (cases "t = 0") auto
      ultimately show ?thesis using shift_loop_left_up Suc.prems by blast
    next
      case False
      then show ?thesis using b Suc.hyps(1) [of "Suc j" v] Suc.hyps(2) Suc.prems by auto
    qed
  qed
qed simp

lemma shift_loop_right_down:
  assumes "t < j" "j < n" "n \<le> 31" "bit w j" "bit mk t"
  shows "\<exists>u. shift_loop n (-1) mk w = Some u \<and> u AND mk \<noteq> 0"
  using assms
proof (induction "j - t" arbitrary: j w)
  case (Suc d)
  obtain v where v: "shift_step n (-1) w = Some v" "rotate_right n 1 w = Some v"
    using shift_step_right [of n w] Suc.prems by auto
  have b: "bit v (j - 1)" using rotate_right_bit [OF v(2) Suc.prems(4)] Suc.prems by (auto split: if_splits)
  have "mk \<noteq> 0" using Suc.prems(5) by auto
  show ?case
  proof (rule shift_loop_step [OF v(1) _ \<open>mk \<noteq> 0\<close>])
    assume z: "v AND mk = 0"
    then have "j - 1 \<noteq> t" using common_bit [OF b] Suc.prems(5) by blast
    then show "\<exists>u. shift_loop n (-1) mk v = Some u \<and> u AND mk \<noteq> 0"
      using Suc.hyps(1) [of "j - 1" v] Suc.hyps(2) b Suc.prems by auto
  qed
qed simp

lemma shift_loop_right:
  assumes "j < n" "t < n" "n \<le> 31" "bit w j" "bit mk t"
  shows "\<exists>u. shift_loop n (-1) mk w = Some u \<and> u AND mk \<noteq> 0"
  using assms
proof (induction j arbitrary: w)
  case 0
  obtain v where v: "shift_step n (-1) w = Some v" "rotate_right n 1 w = Some v"
    using shift_step_right [of n w] 0 by auto
  have b: "bit v (n - 1)" using rotate_right_bit [OF v(2) 0(4,1,3)] by simp
  have "mk \<noteq> 0" using 0 by auto
  show ?case
  proof (rule shift_loop_step [OF v(1) _ \<open>mk \<noteq> 0\<close>])
    assume "v AND mk = 0"
    then have "t < n - 1" using common_bit [OF b] 0 by (cases "t = n - 1") auto
    then show "\<exists>u. shift_loop n (-1) mk v = Some u \<and> u AND mk \<noteq> 0"
      using shift_loop_right_down [of t "n - 1" n v mk] b 0 by auto
  qed
next
  case (Suc j)
  obtain v where v: "shift_step n (-1) w = Some v" "rotate_right n 1 w = Some v"
    using shift_step_right [of n w] Suc.prems by auto
  have b: "bit v j" using rotate_right_bit [OF v(2) Suc.prems(4,1,3)] by simp
  have "mk \<noteq> 0" using Suc.prems by auto
  show ?case
    by (rule shift_loop_step [OF v(1) _ \<open>mk \<noteq> 0\<close>]) (use Suc.IH [OF _ _ _ b] Suc.prems in auto)
qed

lemma shift_loop_none:
  "0 < n \<Longrightarrow> i = 1 \<or> i = -1 \<Longrightarrow> \<exists>u. shift_loop n i 0 w = Some u"
  by (subst shift_loop.simps) (auto simp: shift_step_def rotate_left_def rotate_right_def)

text \<open>For the shipped distances the loop ends, and at a view that shows a client.\<close>

lemma shift_loop_total:
  assumes "i = 1 \<or> i = -1" "w AND tagmask n \<noteq> 0" "mk AND tagmask n \<noteq> 0" "n \<le> 31"
  shows "\<exists>u. shift_loop n i mk w = Some u \<and> u AND mk \<noteq> 0"
proof -
  have *: "\<exists>j < n. bit x j" if "x AND tagmask n \<noteq> 0" for x :: "32 word"
    using that by (auto simp: bit_eq_iff [of _ "0 :: 32 word"] bit_and_iff)
  obtain j t where "j < n" "bit w j" "t < n" "bit mk t" using * assms(2,3) by metis
  then show ?thesis using assms(1,4) shift_loop_left shift_loop_right by metis
qed

text \<open>Clients have tags, but none of the configuration's.\<close>

definition stray_tags :: "config \<Rightarrow> wm \<Rightarrow> bool" where
  "stray_tags cf s \<longleftrightarrow>
     (\<exists>m ks. selm s = Some m \<and> those (map (clis s) (m_clients m)) = Some ks
        \<and> (let mk = fold (\<lambda>k w. w OR c_tags k) ks 0 in mk \<noteq> 0 \<and> mk AND TAGMASK cf = 0))"

lemma shiftviewclients_fr [fr_intro]:
  assumes F: "fr (cfg E) s t" and ok: "config_ok (cfg E)" and i: "i = 1 \<or> i = -1" and S: "\<not> stray_tags (cfg E) t"
  shows "res (fr (cfg E) s) (shiftviewclients E i t)"
proof -
  note W = fr_wf [OF F]
  obtain m where m: "selm t = Some m" "mmem t (selmon t) = Some m" using wfx_selmon [OF W] by metis
  obtain ks where ks: "those (map (clis t) (m_clients m)) = Some ks"
    using those_total [of "m_clients m" "clis t"] wfx_clientD [OF W m(2)] by blast
  let ?mk = "fold (\<lambda>k w. w OR c_tags k) ks 0"
  have n: "0 < ntags (cfg E)" "ntags (cfg E) \<le> 31" using ok by (simp_all add: config_ok_def)
  have "\<exists>u. shift_loop (ntags (cfg E)) i ?mk (tagsel m) = Some u"
  proof (cases "?mk = 0")
    case True
    then show ?thesis using shift_loop_none [OF n(1) i] by simp
  next
    case False
    then have "?mk AND tagmask (ntags (cfg E)) \<noteq> 0"
      using S m(1) ks by (auto simp: stray_tags_def Let_def TAGMASK_def)
    moreover have "tagsel m AND tagmask (ntags (cfg E)) \<noteq> 0"
      using tagsel_ok [OF wfx_shape [OF W m(2)]] by (simp add: TAGMASK_def)
    ultimately show ?thesis using shift_loop_total [OF i _ _ n(2)] by blast
  qed
  then obtain u where "shift_loop (ntags (cfg E)) i ?mk (tagsel m) = Some u" by blast
  then show ?thesis using m(1) ks view_fr [OF F ok] by (simp add: shiftviewclients_def Let_def)
qed

section \<open>Layouts\<close>

lemma lt_ok_Lt:
  assumes "config_ok cf"
  shows "lt_ok cf r (Lt j) \<longleftrightarrow> j < length (layouts cf) - 1"
proof -
  have L: "layouts cf \<noteq> []" "\<forall>l \<in> set (butlast (layouts cf)). symbol l \<noteq> None" "symbol (last (layouts cf)) = None"
    using assms by (auto simp: config_ok_def)
  have 1: "symbol (layouts cf ! j) \<noteq> None" if "j < length (layouts cf) - 1"
  proof -
    have "layouts cf ! j \<in> set (butlast (layouts cf))"
      using nth_mem [of j "butlast (layouts cf)"] that by (simp add: nth_butlast)
    then show ?thesis using L(2) by blast
  qed
  have 2: "j < length (layouts cf) - 1" if "j < length (layouts cf)" "symbol (layouts cf ! j) \<noteq> None"
  proof -
    have "j \<noteq> length (layouts cf) - 1" using that(2) L(1,3) by (auto simp: last_conv_nth)
    then show ?thesis using that(1) by simp
  qed
  show ?thesis using 1 2 by (auto simp: lt_ok_def deref_layout_def)
qed

lemma mon_shape_upd:
  assumes "mon_shape cf b r m" "base_shape cf b m'" "pertag_shape cf (m_pertag m')" "m_lt m' = m_lt m"
    "ltidxs (m_pertag m') = ltidxs (m_pertag m)"
  shows "mon_shape cf b r m'"
  using assms mon_shape_lts [OF assms(1)] by (intro mon_shapeI) simp_all

lemma setlayout_shape:
  assumes S: "mon_shape cf b r m" and v: "\<And>x. v = Some x \<Longrightarrow> lt_ok cf r x"
  shows "mon_shape cf b r (setlayout_mon v m)"
proof -
  let ?p = "m_pertag m"
  note B = mon_shapeD [OF S] mon_shape_lts [OF S]
  have t: "curtag ?p < length (sellts ?p)" "curtag ?p < length (ltidxs ?p)"
    using B(2) by (simp_all add: pertag_shape_def)
  then have l: "sellts ?p ! curtag ?p < 2" using B(2) by (auto simp: pertag_shape_def)
  define n where "n = (if v = None \<or> v \<noteq> Some (ltsel m) then
       let l = sellts ?p ! curtag ?p XOR 1
       in m\<lparr>m_sellt := l, m_pertag := ?p\<lparr>sellts := (sellts ?p)[curtag ?p := l]\<rparr>\<rparr> else m)"
  have "\<forall>i \<in> set ((sellts ?p)[curtag ?p := sellts ?p ! curtag ?p XOR 1]). i < 2"
    using B(2) l by (intro ball_update) (simp_all add: pertag_shape_def)
  then have n: "mon_shape cf b r n"
    using B l S
    by (cases "v = None \<or> v \<noteq> Some (ltsel m)")
      (auto simp: n_def Let_def base_shape_def pertag_shape_def intro!: mon_shape_upd [OF S])
  have cn: "curtag (m_pertag n) = curtag ?p" by (simp add: n_def Let_def)
  have e: "setlayout_mon v m = (case v of None \<Rightarrow> n
     | Some x \<Rightarrow> n\<lparr>m_lt := (m_lt n)[m_sellt n := x],
         m_pertag := (m_pertag n)\<lparr>ltidxs := (ltidxs (m_pertag n))
           [curtag (m_pertag n) := (ltidxs (m_pertag n) ! curtag (m_pertag n))[m_sellt n := x]]\<rparr>\<rparr>)"
    unfolding setlayout_mon_def Let_def n_def [unfolded Let_def, symmetric] cn by (simp split: option.split)
  note N = mon_shapeD [OF n] mon_shape_lts [OF n]
  show ?thesis
  proof (cases v)
    case (Some x)
    let ?q = "m_pertag n"
    let ?ls = "ltidxs ?q ! curtag ?q"
    have c: "?ls \<in> set (ltidxs ?q)" using N(2) by (simp add: pertag_shape_def)
    have x: "lt_ok cf r x" using v Some by simp
    have "\<forall>l \<in> set ((m_lt n)[m_sellt n := x]). lt_ok cf r l" using N(3) x by (rule ball_update)
    moreover have "\<forall>ls \<in> set ((ltidxs ?q)[curtag ?q := ?ls[m_sellt n := x]]). \<forall>l \<in> set ls. lt_ok cf r l"
      using N(4) c x by (intro ball_update) auto
    moreover have "\<forall>ls \<in> set ((ltidxs ?q)[curtag ?q := ?ls[m_sellt n := x]]). length ls = 2"
      using N(2) c by (intro ball_update) (auto simp: pertag_shape_def)
    ultimately show ?thesis
      unfolding e using Some N by (intro mon_shapeI) (simp_all add: base_shape_def pertag_shape_def)
  qed (use e n in simp)
qed

lemma setlayout_lists: "keeps_lists m (setlayout_mon v m)"
  by (simp add: setlayout_mon_def keeps_lists_def Let_def split: option.split)

lemma fr_upd_mon:
  assumes F: "fr cf s t" and m: "mmem t m \<noteq> None"
    and S: "\<And>k. mmem t m = Some k \<Longrightarrow> mon_shape cf (bh t) (running t) k \<Longrightarrow> mon_shape cf (bh t) (running t) (f k)"
    and K: "\<And>k. keeps_lists k (f k)"
  shows "res (fr cf s) (modm m f t)"
proof (rule fr_modm [OF F m])
  fix k assume k: "mmem t m = Some k"
  then show "mon_shape cf (bh t) (running t) k \<Longrightarrow> mon_shape cf (bh t) (running t) (f k)" by (rule S)
  show "mon_lists cf k \<Longrightarrow> mon_lists cf (f k) \<and> m_clients (f k) = m_clients k"
    using K [of k] mon_lists_cong [of "f k" k cf] by (auto simp: keeps_lists_def)
qed

lemma fr_layout_bind:
  assumes F: "fr cf s t" and k: "mmem t m = Some k"
    and Q: "\<And>l. symbol l \<noteq> None \<Longrightarrow> deref_layout cf (ltsel k) = Some l \<Longrightarrow> res (fr cf s) (f l)"
  shows "res (fr cf s) (deref_layout cf (ltsel k) \<bind> f)"
proof -
  obtain l sym where l: "deref_layout cf (ltsel k) = Some l" "symbol l = Some sym"
    by (rule layout_total [OF wfx_shape [OF fr_wf [OF F] k]])
  then show ?thesis using Q [of l] by simp
qed

lemma res_symbol_bind: "symbol l \<noteq> None \<Longrightarrow> (\<And>y. symbol l = Some y \<Longrightarrow> res Q (f y)) \<Longrightarrow> res Q (symbol l \<bind> f)"
  by auto

lemma fr_ltsymbol:
  assumes "fr cf s t" "mmem t m \<noteq> None"
  shows "res (fr cf s) (modm m (\<lambda>m. m\<lparr>m_ltsymbol := x\<rparr>) t)"
  using cosm_modm [of t m "\<lambda>m. m\<lparr>m_ltsymbol := x\<rparr>"] assms by (intro res_fr) auto

lemma fr_setlayout_mon:
  assumes F: "fr cf s t" and m: "mmem t m \<noteq> None" and v: "\<And>x. v = Some x \<Longrightarrow> lt_ok cf True x"
  shows "res (fr cf s) (modm m (setlayout_mon v) t)"
proof (rule fr_upd_mon [OF F m _ setlayout_lists])
  fix k assume "mon_shape cf (bh t) (running t) k"
  then show "mon_shape cf (bh t) (running t) (setlayout_mon v k)"
    by (rule setlayout_shape) (use v in \<open>auto simp: lt_ok_def\<close>)
qed

lemma setlayout_fr [fr_intro]:
  assumes F: "fr (cfg E) s t" and ok: "config_ok (cfg E)" and v: "\<And>x. v = Some x \<Longrightarrow> lt_ok (cfg E) True x"
  shows "res (fr (cfg E) s) (setlayout E v t)"
  unfolding setlayout_def
  by (intro fr_setlayout_mon fr_ltsymbol fr_layout_bind res_symbol_bind fr_intro res_intro)
    (use F ok v in \<open>auto intro: fr_still fr_selm_ex\<close>)

lemma cyclelayout_fr [fr_intro]:
  assumes F: "fr (cfg E) s t" and ok: "config_ok (cfg E)" and r: "running t"
  shows "res (fr (cfg E) s) (cyclelayout E i t)"
proof -
  note W = fr_wf [OF F]
  obtain m where m: "selm t = Some m" "mmem t (selmon t) = Some m" using wfx_selmon [OF W] by metis
  note S = wfx_shape [OF W m(2)]
  have "ltsel m \<in> set (m_lt m)" using mon_shapeD(1) [OF S] by (simp add: ltsel_def base_shape_def)
  then have l: "lt_ok (cfg E) True (ltsel m)" using mon_shape_lts(1) [OF S] r by simp
  then obtain j where j: "ltsel m = Lt j" by (cases "ltsel m") (auto simp: lt_ok_def)
  let ?n = "length (layouts (cfg E))"
  have b: "j < ?n - 1" "2 < ?n" using l ok by (simp_all add: j lt_ok_Lt) (simp add: config_ok_def)
  note lt = lt_ok_Lt [OF ok]
  have ne: "layouts (cfg E) \<noteq> []" using b(2) by auto
  have d: "deref_layout (cfg E) (Lt i) = Some (layouts (cfg E) ! i)" if "i < ?n" for i
    using that by (simp add: deref_layout_def)
  have sy: "symbol (layouts (cfg E) ! i) \<noteq> None" if "lt_ok (cfg E) True (Lt i)" for i
    using that by (auto simp: lt_ok_def deref_layout_def split: if_splits)
  have more: "lt_ok (cfg E) True (Lt (j + 1))" if "symbol (layouts (cfg E) ! (j + 1)) \<noteq> None"
    using that b by (auto simp: lt_ok_def deref_layout_def)
  show ?thesis
    unfolding cyclelayout_def m(1) bind.bind_lunit j lptr.case
    using b ne d [of j] d [of "j + 1"] d [of "j - 1"] sy more
    by (cases "i > 0"; cases "j = 0")
      (auto intro!: setlayout_fr [OF F ok] simp: lt)
qed

lemma fr_each_from [fr_intro]:
  "fr cf s t \<Longrightarrow> (\<And>i x u. x \<in> set xs \<Longrightarrow> fr cf s u \<Longrightarrow> res (fr cf s) (f i x u)) \<Longrightarrow>
   res (fr cf s) (each_from i f xs t)"
  by (rule res_each_from)

lemma setdeflayouts_fr [fr_intro]:
  assumes F: "fr (cfg E) s t" and ok: "config_ok (cfg E)"
  shows "res (fr (cfg E) s) (setdeflayouts E t)"
proof -
  have "lt_ok (cfg E) True (Lt l)" if "l \<in> set (taglayouts (cfg E))" for l
    using that ok by (simp add: lt_ok_Lt) (simp add: config_ok_def)
  then show ?thesis
    unfolding setdeflayouts_def
    by (intro fr_intro res_intro) (use F ok in auto)
qed

lemma setgaps_fr [fr_intro]:
  assumes F: "fr (cfg E) s t" and ok: "config_ok (cfg E)"
  shows "res (fr (cfg E) s) (setgaps E i t)"
proof -
  have "mon_shape (cfg E) b r (setgaps_mon (cfg E) i k)" if "mon_shape (cfg E) b r k" for b r k
    by (rule mon_shape_upd [OF that])
      (use mon_shapeD [OF that] ok in \<open>auto simp: setgaps_mon_def base_shape_def config_ok_def\<close>)
  moreover have "keeps_lists k (setgaps_mon (cfg E) i k)" for k
    by (simp add: setgaps_mon_def keeps_lists_def)
  ultimately show ?thesis
    unfolding setgaps_def
    by (intro fr_upd_mon fr_intro res_intro) (use F ok in \<open>auto intro: fr_still fr_selm_ex\<close>)
qed

lemma fr_pertag_upd:
  assumes F: "fr cf s t" and m: "mmem t m \<noteq> None"
    and f: "\<And>k. mon_shape cf (bh t) (running t) k \<Longrightarrow> base_shape cf (bh t) (f k) \<and> pertag_shape cf (m_pertag (f k))
      \<and> m_lt (f k) = m_lt k \<and> ltidxs (m_pertag (f k)) = ltidxs (m_pertag k)"
    and K: "\<And>k. keeps_lists k (f k)"
  shows "res (fr cf s) (modm m f t)"
  by (rule fr_upd_mon [OF F m _ K]) (use f in \<open>blast intro: mon_shape_upd\<close>)

text \<open>A monitor whose factors and master count have changed keeps its shape.\<close>

lemma shape_simps:
  "base_shape cf b (m\<lparr>m_pertag := p\<rparr>) = base_shape cf b m"
  "base_shape cf b (m\<lparr>m_nmaster := n\<rparr>) = base_shape cf b m"
  "base_shape cf b (m\<lparr>m_mfact := f\<rparr>) = base_shape cf b m"
  "base_shape cf b (m\<lparr>m_smfact := f\<rparr>) = base_shape cf b m"
  "base_shape cf b (m\<lparr>m_dmfact := f\<rparr>) = base_shape cf b m"
  "base_shape cf b (m\<lparr>m_zmfact := f\<rparr>) = base_shape cf b m"
  "base_shape cf b (m\<lparr>m_showbar := sb\<rparr>) = base_shape cf b m"
  "pertag_shape cf (p\<lparr>nmasters := (nmasters p)[i := n]\<rparr>) = pertag_shape cf p"
  "pertag_shape cf (p\<lparr>mfacts := (mfacts p)[i := f]\<rparr>) = pertag_shape cf p"
  "pertag_shape cf (p\<lparr>mfacts := (mfacts p)[i := f], smfacts := (smfacts p)[i := f']\<rparr>) = pertag_shape cf p"
  "pertag_shape cf (p\<lparr>smfacts := (smfacts p)[i := f]\<rparr>) = pertag_shape cf p"
  "pertag_shape cf (p\<lparr>dmfacts := (dmfacts p)[i := f]\<rparr>) = pertag_shape cf p"
  "pertag_shape cf (p\<lparr>zmfacts := (zmfacts p)[i := f]\<rparr>) = pertag_shape cf p"
  by (simp_all add: base_shape_def pertag_shape_def)

lemmas params = shape_simps keeps_lists_def Let_def

lemma incnmaster_fr [fr_intro]:
  assumes F: "fr (cfg E) s t" and ok: "config_ok (cfg E)" and S: "\<not> no_sel t"
  shows "res (fr (cfg E) s) (incnmaster E i t)"
  unfolding incnmaster_def
  by (intro fr_pertag_upd moves_floating_bind fr_intro res_intro)
    (use F ok S in \<open>auto intro: fr_still fr_selm_ex simp: params dest: mon_shapeD\<close>)

lemma resetnmaster_fr [fr_intro]:
  assumes F: "fr (cfg E) s t" and ok: "config_ok (cfg E)"
  shows "res (fr (cfg E) s) (resetnmaster E u t)"
  unfolding resetnmaster_def
  by (intro fr_pertag_upd fr_intro res_intro)
    (use F ok in \<open>auto intro: fr_still fr_selm_ex simp: params dest: mon_shapeD\<close>)

lemma arrange_fr_here:
  assumes "fr (cfg E) s u" "config_ok (cfg E)"
  shows "res (fr (cfg E) s) (arrange E (Some (selmon u)) u)"
  by (rule focus_fr_ops(2)) (use assms fr_selm [OF assms(1)] in \<open>auto simp: selm_def\<close>)

lemma setmfact_fr [fr_intro]:
  assumes F: "fr (cfg E) s t" and ok: "config_ok (cfg E)" and S: "\<not> no_sel t"
  shows "res (fr (cfg E) s) (setmfact E f t)"
proof -
  note W = fr_wf [OF F]
  obtain m where m: "selm t = Some m" "mmem t (selmon t) = Some m" using wfx_selmon [OF W] by metis
  obtain a where a: "arrange_of E m = Some a" using arrange_of_total [OF wfx_shape [OF W m(2)]] by auto
  have arr: "res (fr (cfg E) s) (arrange E (Some (selmon u)) u)" if "fr (cfg E) s u" for u
    using arrange_fr_here [OF that ok] .
  have P: "\<And>k. mon_shape (cfg E) (bh t) (running t) k \<Longrightarrow>
      base_shape (cfg E) (bh t) k \<and> pertag_shape (cfg E) (m_pertag k)"
    by (simp add: mon_shapeD)
  show ?thesis
    unfolding setmfact_def m(1) a bind.bind_lunit
    by (intro moves_floating_bind fr_sel_client_bind res_intro arr F S fr_bind moveclient_fr ok fr_pertag_upd)
      (use F m(2) P in \<open>auto simp: params\<close>)
qed

lemma setsmfact_fr [fr_intro]:
  assumes F: "fr (cfg E) s t" and ok: "config_ok (cfg E)" and S: "\<not> no_sel t"
  shows "res (fr (cfg E) s) (setsmfact E f t)"
proof -
  note W = fr_wf [OF F]
  obtain m where m: "selm t = Some m" "mmem t (selmon t) = Some m" using wfx_selmon [OF W] by metis
  obtain a where a: "arrange_of E m = Some a" using arrange_of_total [OF wfx_shape [OF W m(2)]] by auto
  have arr: "res (fr (cfg E) s) (arrange E (Some (selmon u)) u)" if "fr (cfg E) s u" for u
    using arrange_fr_here [OF that ok] .
  have P: "\<And>k. mon_shape (cfg E) (bh t) (running t) k \<Longrightarrow>
      base_shape (cfg E) (bh t) k \<and> pertag_shape (cfg E) (m_pertag k)"
    by (simp add: mon_shapeD)
  show ?thesis
    unfolding setsmfact_def m(1) a bind.bind_lunit
    by (intro moves_floating_bind fr_sel_client_bind res_intro arr F S fr_bind moveclient_fr ok fr_pertag_upd)
      (use F m(2) P in \<open>auto simp: params\<close>)
qed

lemma resetmfact_fr [fr_intro]:
  assumes F: "fr (cfg E) s t" and ok: "config_ok (cfg E)"
  shows "res (fr (cfg E) s) (resetmfact E t)"
  unfolding resetmfact_def
  by (intro fr_pertag_upd fr_intro res_intro)
    (use F ok in \<open>auto intro: fr_still fr_selm_ex simp: params resetmfact_mon_def dest: mon_shapeD\<close>)

lemma barpos_shape:
  assumes "mon_shape cf b r m"
  shows "mon_shape cf b r (barpos b m)"
  by (rule mon_shape_upd [OF assms])
    (use mon_shapeD [OF assms] in \<open>auto simp: barpos_def Let_def base_shape_def screen_ok_def\<close>)

lemma updatebarpos_fr [fr_intro]:
  assumes F: "fr cf s t" and m: "mmem t m \<noteq> None"
  shows "res (fr cf s) (updatebarpos m t)"
  unfolding updatebarpos_def
  by (rule fr_upd_mon [OF F m barpos_shape]) (auto simp: barpos_def keeps_lists_def Let_def)

lemma togglebar_fr [fr_intro]:
  assumes F: "fr (cfg E) s t" and ok: "config_ok (cfg E)"
  shows "res (fr (cfg E) s) (togglebar E t)"
  unfolding togglebar_def
  by (intro fr_pertag_upd fr_intro res_intro)
    (use F ok in \<open>auto intro: fr_still fr_selm_ex simp: params dest: mon_shapeD\<close>)

end
