(* ===== verification/Monitors.thy ===== *)
theory Monitors
  imports ViewFrames
begin

text \<open>
  Monitors: their creation and destruction, the search for the monitor or client under a
  point or of a window, the adaptation to the screens the server reports (\<open>updategeom\<close>),
  and the commands that send clients to another monitor.

  A client that is in transit from one monitor to the other is in no list. In \<open>tagswapmon\<close>
  such clients form two local lists, linked by their \<open>next\<close> fields.
\<close>

section \<open>Operations\<close>

definition new_pertag :: "config \<Rightarrow> pertag" where
  "new_pertag cf =
     (let n = Suc (ntags cf)
      in \<lparr>curtag = 1, prevtag = 1, nmasters = replicate n (nmaster cf),
          mfacts = replicate n (mfact cf), smfacts = replicate n (smfact cf),
          dmfacts = replicate n (dmfact cf), zmfacts = replicate n (zmfact cf),
          sellts = replicate n 0,
          ltidxs = replicate n [Lt 0, Lt (1 mod length (layouts cf))]\<rparr>)"

definition new_monitor :: "config \<Rightarrow> string \<Rightarrow> monitor" where
  "new_monitor cf sy =
     \<lparr>m_ltsymbol = strncpy 63 sy, m_mfact = mfact cf, m_smfact = smfact cf,
      m_dmfact = dmfact cf, m_zmfact = zmfact cf, m_nmaster = nmaster cf, m_num = 0,
      m_by = 0, m_mx = 0, m_my = 0, m_mw = 0, m_mh = 0, m_wx = 0, m_wy = 0, m_ww = 0, m_wh = 0,
      m_gappx = gappx cf, m_drawwithgaps = startwithgaps cf, m_seltags = 0, m_sellt = 0,
      m_tagset = [1, 1], m_showbar = showbar cf, m_topbar = topbar cf, m_clients = [],
      m_sel = None, m_stack = [], m_tagmarked = replicate 32 None, m_barwin = XNone,
      m_lt = [Lt 0, Lt (1 mod length (layouts cf))], m_pertag = new_pertag cf\<rparr>"

definition createmon :: "xenv \<Rightarrow> wm \<Rightarrow> (mid \<times> wm) option" where
  "createmon E s =
     do {
       l \<leftarrow> deref_layout (cfg E) (Lt 0);
       sy \<leftarrow> symbol l;
       Some (nextaddr s, s\<lparr>nextaddr := nextaddr s + 1,
         mmem := (mmem s)(nextaddr s \<mapsto> new_monitor (cfg E) sy)\<rparr>) }"

text \<open>Unlinking a monitor that is not in the list follows a null pointer.\<close>

definition cleanupmon :: "mid \<Rightarrow> wm \<Rightarrow> wm option" where
  "cleanupmon m s =
     (if m \<in> set (mons s) then
        do {
          let s = s\<lparr>mons := remove1 m (mons s)\<rparr>;
          k \<leftarrow> mmem s m;
          let s = emit (XDestroyWindow (m_barwin k)) (emit (XUnmapWindow (m_barwin k)) s);
          Some (s\<lparr>mmem := (mmem s)(m := None)\<rparr>) }
      else None)"

text \<open>The monitor, or the tiled client, that has the largest part of a rectangle.\<close>

fun largest :: "('a \<Rightarrow> int option) \<Rightarrow> 'a list \<Rightarrow> int \<Rightarrow> 'b \<Rightarrow> ('a \<Rightarrow> 'b) \<Rightarrow> 'b option" where
  "largest f [] area r g = Some r"
| "largest f (x # xs) area r g =
     do { a \<leftarrow> f x; if a > area then largest f xs a (g x) g else largest f xs area r g }"

definition recttomon :: "int \<Rightarrow> int \<Rightarrow> int \<Rightarrow> int \<Rightarrow> wm \<Rightarrow> mid option" where
  "recttomon x y w h s =
     largest (\<lambda>m. map_option (INTERSECT x y w h) (mmem s m)) (mons s) 0 (selmon s) id"

definition recttoclient :: "int \<Rightarrow> int \<Rightarrow> int \<Rightarrow> int \<Rightarrow> wm \<Rightarrow> cid option option" where
  "recttoclient x y w h s =
     do {
       m \<leftarrow> selm s;
       cs \<leftarrow> tiled s (m_clients m);
       largest (\<lambda>c. map_option (INTERSECTC x y w h) (clis s c)) cs 0 None Some }"

definition wintomon :: "xenv \<Rightarrow> window \<Rightarrow> wm \<Rightarrow> mid option" where
  "wintomon E w s =
     (case (if w = root E then getrootptr E s else None) of
        Some (x, y) \<Rightarrow> recttomon x y 1 1 s
      | None \<Rightarrow> do {
          b \<leftarrow> firstO (\<lambda>m. do { k \<leftarrow> mmem s m; Some (w = m_barwin k) }) (mons s);
          case b of
            Some m \<Rightarrow> Some m
          | None \<Rightarrow> do {
              c \<leftarrow> wintoclient s w;
              case c of
                Some c \<Rightarrow> do { k \<leftarrow> clis s c; Some (c_mon k) }
              | None \<Rightarrow> Some (selmon s) } })"

type_synonym screen = "int \<times> int \<times> int \<times> int"

definition isuniquegeom :: "screen list \<Rightarrow> screen \<Rightarrow> bool" where
  "isuniquegeom unique info \<longleftrightarrow> info \<notin> set unique"

definition unique_screens :: "screen list \<Rightarrow> screen list" where
  "unique_screens = foldl (\<lambda>u i. if isuniquegeom u i then u @ [i] else u) []"

definition place_mon :: "nat \<Rightarrow> screen \<Rightarrow> monitor \<Rightarrow> monitor" where
  "place_mon i g m =
     (let (x, y, w, h) = g
      in m\<lparr>m_num := int i, m_mx := x, m_my := y, m_mw := w, m_mh := h,
           m_wx := x, m_wy := y, m_ww := w, m_wh := h\<rparr>)"

text \<open>One monitor of the loop over the screens; \<open>n\<close> is the old number of monitors.\<close>

definition update_mon :: "nat \<Rightarrow> nat \<Rightarrow> mid \<times> screen \<Rightarrow> bool \<times> wm \<Rightarrow> (bool \<times> wm) option" where
  "update_mon n i ms ds =
     (let (m, g) = ms; (dirty, s) = ds
      in do {
        k \<leftarrow> mmem s m;
        if i \<ge> n \<or> g \<noteq> (m_mx k, m_my k, m_mw k, m_mh k) then
          do {
            s \<leftarrow> modm m (place_mon i g) s;
            s \<leftarrow> updatebarpos m s;
            Some (True, s) }
        else Some (dirty, s) })"

definition add_mon :: "xenv \<Rightarrow> wm \<Rightarrow> wm option" where
  "add_mon E s = do { (m, s) \<leftarrow> createmon E s; Some (s\<lparr>mons := mons s @ [m]\<rparr>) }"

text \<open>
  The clients of a removed monitor go to the first one. On the first monitor itself the
  loop would not end.
\<close>

definition move_first :: "mid \<Rightarrow> wm \<Rightarrow> (cid \<times> wm) option" where
  "move_first m s =
     do {
       k \<leftarrow> mmem s m;
       c \<leftarrow> (case m_clients k of [] \<Rightarrow> None | c # _ \<Rightarrow> Some c);
       s \<leftarrow> modm m (\<lambda>k. k\<lparr>m_clients := tl (m_clients k)\<rparr>) s;
       s \<leftarrow> detachstack c s;
       h \<leftarrow> (case mons s of [] \<Rightarrow> None | h # _ \<Rightarrow> Some h);
       s \<leftarrow> modc c (\<lambda>j. j\<lparr>c_mon := h\<rparr>) s;
       s \<leftarrow> attach c s;
       s \<leftarrow> attachstack c s;
       Some (c, s) }"

partial_function (option) evacuate :: "mid \<Rightarrow> bool \<times> wm \<Rightarrow> (bool \<times> wm) option" where
  [code]: "evacuate m ds =
     do {
       k \<leftarrow> mmem (snd ds) m;
       if m_clients k = [] then Some ds
       else do {
         (_, s) \<leftarrow> move_first m (snd ds);
         evacuate m (True, s) } }"

definition remove_mon :: "bool \<times> wm \<Rightarrow> (bool \<times> wm) option" where
  "remove_mon ds =
     (if mons (snd ds) = [] then None
      else do {
        let m = last (mons (snd ds));
        (dirty, s) \<leftarrow> evacuate m ds;
        let s = (if m = selmon s then s\<lparr>selmon := hd (mons s)\<rparr> else s);
        s \<leftarrow> cleanupmon m s;
        Some (dirty, s) })"

definition xinerama_geom :: "xenv \<Rightarrow> screen list \<Rightarrow> wm \<Rightarrow> (bool \<times> wm) option" where
  "xinerama_geom E info s =
     do {
       let n = length (mons s);
       let unique = unique_screens info;
       s \<leftarrow> each (\<lambda>_. add_mon E) [n..<length unique] s;
       ds \<leftarrow> each_from 0 (update_mon n) (zip (mons s) unique) (False, s);
       each (\<lambda>_. remove_mon) [length unique..<n] ds }"

definition single_geom :: "xenv \<Rightarrow> wm \<Rightarrow> (bool \<times> wm) option" where
  "single_geom E s =
     do {
       s \<leftarrow> (if mons s = [] then add_mon E s else Some s);
       let m = hd (mons s);
       k \<leftarrow> mmem s m;
       if m_mw k \<noteq> sw s \<or> m_mh k \<noteq> sh s then
         do {
           s \<leftarrow> modm m (\<lambda>k. k\<lparr>m_mw := sw s, m_ww := sw s, m_mh := sh s, m_wh := sh s\<rparr>) s;
           s \<leftarrow> updatebarpos m s;
           Some (True, s) }
       else Some (False, s) }"

definition updategeom :: "xenv \<Rightarrow> wm \<Rightarrow> (bool \<times> wm) option" where
  "updategeom E s =
     do {
       (dirty, s) \<leftarrow> (case XineramaScreens E (xlog s) of
                       Some info \<Rightarrow> xinerama_geom E info s
                     | None \<Rightarrow> single_geom E s);
       if dirty then
         do {
           h \<leftarrow> (case mons s of [] \<Rightarrow> None | h # _ \<Rightarrow> Some h);
           let s = s\<lparr>selmon := h\<rparr>;
           m \<leftarrow> wintomon E (root E) s;
           Some (True, s\<lparr>selmon := m\<rparr>) }
       else Some (False, s) }"

definition sendmon :: "xenv \<Rightarrow> cid \<Rightarrow> mid \<Rightarrow> wm \<Rightarrow> wm option" where
  "sendmon E c m s =
     do {
       k \<leftarrow> clis s c;
       if c_mon k = m then Some s
       else do {
         s \<leftarrow> unfocus E (Some c) True s;
         s \<leftarrow> detach E c s;
         s \<leftarrow> detachstack c s;
         k \<leftarrow> mmem s m;
         s \<leftarrow> modc c (\<lambda>j. j\<lparr>c_mon := m, c_tags := tagsel k\<rparr>) s;
         s \<leftarrow> attachx E c s;
         s \<leftarrow> attachstack c s;
         s \<leftarrow> focus E None s;
         arrange E None s } }"

definition tagmon :: "xenv \<Rightarrow> int \<Rightarrow> wm \<Rightarrow> wm option" where
  "tagmon E i s =
     do {
       m \<leftarrow> selm s;
       case m_sel m of
         None \<Rightarrow> Some s
       | Some c \<Rightarrow>
           if length (mons s) < 2 then Some s
           else do { t \<leftarrow> dirtomon i s; sendmon E c t s } }"

text \<open>The loops of \<open>tagswapmon\<close>: taking out the visible clients, and putting clients in.\<close>

fun take_visible :: "xenv \<Rightarrow> cid list \<Rightarrow> cid list \<times> wm \<Rightarrow> (cid list \<times> wm) option" where
  "take_visible E [] r = Some r"
| "take_visible E (c # cs) (out, s) =
     do {
       v \<leftarrow> ISVISIBLE s c;
       if \<not> v then take_visible E cs (out, s)
       else do {
         s \<leftarrow> unfocus E (Some c) True s;
         s \<leftarrow> detach E c s;
         s \<leftarrow> detachstack c s;
         take_visible E cs (c # out, s) } }"

definition give :: "xenv \<Rightarrow> mid \<Rightarrow> cid \<Rightarrow> wm \<Rightarrow> wm option" where
  "give E m c s =
     do {
       k \<leftarrow> mmem s m;
       s \<leftarrow> modc c (\<lambda>j. j\<lparr>c_mon := m, c_tags := tagsel k\<rparr>) s;
       s \<leftarrow> attach c s;
       s \<leftarrow> attachstack c s;
       j \<leftarrow> clis s c;
       if c_isfullscreen j then
         do {
           s \<leftarrow> resizeclient E c (m_mx k) (m_my k) (m_mw k) (m_mh k) s;
           Some (emit (XRaiseWindow (c_win j)) s) }
       else Some s }"

definition tagswapmon :: "xenv \<Rightarrow> int \<Rightarrow> wm \<Rightarrow> wm option" where
  "tagswapmon E i s =
     (if length (mons s) < 2 then Some s
      else do {
        m \<leftarrow> dirtomon i s;
        k \<leftarrow> selm s;
        (sc, s) \<leftarrow> take_visible E (m_clients k) ([], s);
        k \<leftarrow> mmem s m;
        (mc, s) \<leftarrow> take_visible E (m_clients k) ([], s);
        s \<leftarrow> each (give E m) sc s;
        s \<leftarrow> each (give E (selmon s)) mc s;
        s \<leftarrow> focus E None s;
        arrange E None s })"

end
