(* ===== verification/Transit.thy ===== *)
theory Transit
  imports Monitors
begin

text \<open>
  Clients on their way from one monitor to another: a client is taken out of both lists of
  its monitor, gets its new monitor, and is put into the lists of that one. In between the
  state is well-formed up to the clients in transit, which are the set \<open>X\<close> of \<open>frx\<close>.
\<close>

section \<open>Clients in transit\<close>

lemma wfx_modc_transit:
  assumes W: "wfx cf X s" and c: "clis s c = Some k" "c \<in> X"
    and f: "c_mon k' \<in> set (mons s)" "title_ok (c_name k')"
  shows "wfx cf X (s\<lparr>clis := (clis s)(c \<mapsto> k')\<rparr>)"
  unfolding wfx_def
proof (intro conjI allI impI ballI, goal_cases)
  case 1 then show ?case using wfx_distinct_mons [OF W] by simp
next
  case 2 then show ?case using wfx_selmon_in [OF W] by simp
next
  case 3 then show ?case using wfx_dom [OF W] by simp
next
  case (4 m j) then show ?case using wfx_shape [OF W] by simp
next
  case (5 m j) then show ?case using wfx_lists [OF W] by simp
next
  case (6 m j a) then show ?case using wfx_notin [OF W] by simp
next
  case (7 m j a)
  then have "a \<noteq> c" using wfx_notin [OF W] c(2) by auto
  then show ?case using wfx_clientD [OF W, of m j a] 7 by auto
next
  case (8 a j) then show ?case using wfx_owner [OF W] f by (auto split: if_splits)
next
  case (9 a j) then show ?case using wfx_title [OF W] f by (auto split: if_splits)
next
  case (10 a j) then show ?case using wfx_listedD [OF W] c by (fastforce split: if_splits)
next
  case (11 a) then show ?case using wfx_alloc [OF W] by simp
next
  case (12 a) then show ?case using wfx_fresh [OF W, of a] c by auto
next
  case (13 a) then show ?case using wfx_fresh [OF W, of a] by simp
next
  case 14 then show ?case using wfx_screen [OF W] by simp
qed

lemma frx_modc_transit:
  assumes F: "frx cf X s t" and c: "clis t c \<noteq> None" "c \<in> X"
    and f: "\<And>k. clis t c = Some k \<Longrightarrow> c_mon (f k) \<in> set (mons s)"
      "\<And>k. clis t c = Some k \<Longrightarrow> title_ok (c_name k) \<Longrightarrow> title_ok (c_name (f k))"
  shows "res (frx cf X s) (modc c f t)"
proof -
  obtain k where k: "clis t c = Some k" using c by auto
  note W = fr_wf [OF F]
  have "wfx cf X (t\<lparr>clis := (clis t)(c \<mapsto> f k)\<rparr>)"
    by (rule wfx_modc_transit [OF W k c(2)])
      (use f(1) [OF k] f(2) [OF k wfx_title [OF W k]] fr_mons [OF F] in auto)
  moreover have "clis s c \<noteq> None" by (rule fr_alive_back [OF F]) (simp add: k)
  ultimately show ?thesis using F k by (auto simp: frx_def modc_def)
qed

text \<open>Taking a client out of the lists, and putting it into those of its monitor.\<close>

lemma frx_detach:
  assumes F: "frx (cfg E) X s t" and ok: "config_ok (cfg E)" and c: "clis t c \<noteq> None" "c \<notin> X"
  shows "res (frx (cfg E) (insert c X) s) (do { s \<leftarrow> detach E c t; detachstack c s })"
proof -
  have n: "ntags (cfg E) \<le> 31" using ok by (simp add: config_ok_def)
  obtain j where j: "clis t c = Some j" using c(1) by auto
  show ?thesis
    by (rule detach_both [OF fr_wf [OF F] n j c(2)]) (use F in \<open>auto simp: frx_def\<close>)
qed

lemma frx_attachx:
  assumes F: "frx (cfg E) X s t" and c: "c \<in> X"
  shows "res (frx (cfg E) (X - {c}) s) (do { s \<leftarrow> attachx E c t; attachstack c s })"
proof -
  obtain j where j: "clis t c = Some j" using wfx_alloc [OF fr_wf [OF F] c] by auto
  show ?thesis
    by (rule attachx_both [OF fr_wf [OF F] j c]) (use F in \<open>auto simp: frx_def\<close>)
qed

lemma frx_attach:
  assumes F: "frx cf X s t" and c: "c \<in> X"
  shows "res (frx cf (X - {c}) s) (do { s \<leftarrow> attach c t; attachstack c s })"
proof -
  obtain j where j: "clis t c = Some j" using wfx_alloc [OF fr_wf [OF F] c] by auto
  show ?thesis
    by (rule attach_both [OF fr_wf [OF F] j c]) (use F in \<open>auto simp: frx_def\<close>)
qed

section \<open>Sending clients\<close>

text \<open>Two operations in a row, followed by a program.\<close>

lemma res_bind2:
  assumes "res P (do { s \<leftarrow> p; q s })" "\<And>u. P u \<Longrightarrow> res Q (f u)"
  shows "res Q (do { s \<leftarrow> p; s \<leftarrow> q s; f s })"
  using assms by (cases p) (auto simp: res_iff)

lemma arrange_all_fr:
  assumes "frx (cfg E) X s u" "config_ok (cfg E)"
  shows "res (frx (cfg E) X s) (arrange E None u)"
  by (rule focus_fr_ops(2)) (use assms in auto)

lemma sendmon_fr [fr_intro]:
  assumes F: "fr (cfg E) s t" and ok: "config_ok (cfg E)" and c: "clis t c \<noteq> None" and m: "m \<in> set (mons s)"
  shows "res (fr (cfg E) s) (sendmon E c m t)"
proof -
  obtain k where k: "clis t c = Some k" using c by auto
  show ?thesis
  proof (cases "c_mon k = m")
    case True
    then show ?thesis using k F by (simp add: sendmon_def)
  next
    case False
    have 1: "res (fr (cfg E) s) (unfocus E (Some c) True t)"
      by (rule unfocus_fr [OF F]) (use c in auto)
    have 2: "res (frx (cfg E) {c} s) (do { s \<leftarrow> detach E c u; detachstack c s })" if "fr (cfg E) s u" for u
      using frx_detach [OF that ok] fr_alive [OF that fr_alive_back [OF F c]] by simp
    have 3: "res (frx (cfg E) {c} s) (modc c (\<lambda>j. j\<lparr>c_mon := m, c_tags := x\<rparr>) u)" if "frx (cfg E) {c} s u" for u x
      by (rule frx_modc_transit [OF that]) (use m fr_alive [OF that fr_alive_back [OF F c]] in auto)
    have 4: "res (fr (cfg E) s) (do { s \<leftarrow> attachx E c u; attachstack c s })" if "frx (cfg E) {c} s u" for u
      using frx_attachx [OF that] by simp
    have "res (fr (cfg E) s) (do {
        s \<leftarrow> unfocus E (Some c) True t;
        s \<leftarrow> detach E c s;
        s \<leftarrow> detachstack c s;
        k \<leftarrow> mmem s m;
        s \<leftarrow> modc c (\<lambda>j. j\<lparr>c_mon := m, c_tags := tagsel k\<rparr>) s;
        s \<leftarrow> attachx E c s;
        s \<leftarrow> attachstack c s;
        s \<leftarrow> focus E None s;
        arrange E None s })"
    proof (rule res_bind [OF 1], rule res_bind2 [OF 2], assumption)
      fix u assume u: "frx (cfg E) {c} s u"
      then obtain mk where mk: "mmem u m = Some mk" using fr_monitor [OF u m] by auto
      show "res (fr (cfg E) s) (do {
        k \<leftarrow> mmem u m;
        s \<leftarrow> modc c (\<lambda>j. j\<lparr>c_mon := m, c_tags := tagsel k\<rparr>) u;
        s \<leftarrow> attachx E c s;
        s \<leftarrow> attachstack c s;
        s \<leftarrow> focus E None s;
        arrange E None s })"
        unfolding mk bind.bind_lunit
        by (intro res_bind [OF 3 [OF u]] res_bind2 [OF 4] res_bind [OF focus_fr] arrange_all_fr)
          (use ok in auto)
    qed
    then show ?thesis using k False by (simp add: sendmon_def)
  qed
qed

lemma tagmon_fr [fr_intro]:
  assumes F: "fr (cfg E) s t" and ok: "config_ok (cfg E)"
  shows "res (fr (cfg E) s) (tagmon E i t)"
  unfolding tagmon_def
  by (intro fr_intro res_intro) (use F ok in \<open>auto intro: fr_still fr_selm_ex\<close>)

lemma take_visible_frx:
  assumes F: "frx (cfg E) (X \<union> set out) s t" and ok: "config_ok (cfg E)"
    and cs: "distinct cs" "\<And>c. c \<in> set cs \<Longrightarrow> clis t c \<noteq> None \<and> c \<notin> X \<and> c \<notin> set out"
    and out: "distinct out" "set out \<inter> X = {}"
  shows "res (\<lambda>(out', u). frx (cfg E) (X \<union> set out') s u \<and> distinct out' \<and> set out' \<inter> X = {}
      \<and> set out' \<subseteq> set out \<union> set cs) (take_visible E cs (out, t))"
  using assms
proof (induction cs arbitrary: out t)
  case (Cons c cs)
  note F = Cons.prems(1)
  have c: "clis t c \<noteq> None" "c \<notin> X \<union> set out" using Cons.prems(4) by auto
  obtain v where v: "ISVISIBLE t c = Some v" using wfx_ISVISIBLE [OF fr_wf [OF F] c(1)] by auto
  show ?case
  proof (cases v)
    case False
    have "res (\<lambda>(out', u). frx (cfg E) (X \<union> set out') s u \<and> distinct out' \<and> set out' \<inter> X = {}
      \<and> set out' \<subseteq> set out \<union> set cs) (take_visible E cs (out, t))"
      by (rule Cons.IH [OF F ok]) (use Cons.prems in auto)
    then show ?thesis using v False by (auto elim!: res_mono)
  next
    case True
    have 1: "res (frx (cfg E) (X \<union> set out) s) (unfocus E (Some c) True t)"
      by (rule unfocus_fr [OF F]) (use c in auto)
    have 2: "res (frx (cfg E) (X \<union> set (c # out)) s) (do { s \<leftarrow> detach E c u; detachstack c s })"
      if "frx (cfg E) (X \<union> set out) s u" for u
      using frx_detach [OF that ok] fr_alive [OF that fr_alive_back [OF F c(1)]] c(2) by simp
    have 3: "res (\<lambda>(out', u). frx (cfg E) (X \<union> set out') s u \<and> distinct out' \<and> set out' \<inter> X = {}
      \<and> set out' \<subseteq> set (c # out) \<union> set cs) (take_visible E cs (c # out, u))"
      if u: "frx (cfg E) (X \<union> set (c # out)) s u" for u
    proof (rule Cons.IH [OF u ok])
      fix a assume a: "a \<in> set cs"
      then have "clis t a \<noteq> None" using Cons.prems(4) by auto
      then have "clis u a \<noteq> None" using fr_alive [OF u fr_alive_back [OF F]] by blast
      then show "clis u a \<noteq> None \<and> a \<notin> X \<and> a \<notin> set (c # out)" using a Cons.prems(3,4) by auto
    qed (use Cons.prems c in auto)
    have "res (\<lambda>(out', u). frx (cfg E) (X \<union> set out') s u \<and> distinct out' \<and> set out' \<inter> X = {}
      \<and> set out' \<subseteq> set (c # out) \<union> set cs)
      (do { s \<leftarrow> unfocus E (Some c) True t; s \<leftarrow> detach E c s; s \<leftarrow> detachstack c s; take_visible E cs (c # out, s) })"
      by (intro res_bind [OF 1] res_bind2 [OF 2] 3)
    then show ?thesis using v True by (auto elim!: res_mono)
  qed
qed auto

lemma give_frx:
  assumes F: "frx (cfg E) X s t" and c: "c \<in> X" and m: "m \<in> set (mons s)"
  shows "res (frx (cfg E) (X - {c}) s) (give E m c t)"
proof -
  obtain k where k: "mmem t m = Some k" using fr_monitor [OF F m] by auto
  have 1: "res (frx (cfg E) X s) (modc c (\<lambda>j. j\<lparr>c_mon := m, c_tags := tagsel k\<rparr>) t)"
    by (rule frx_modc_transit [OF F]) (use m c wfx_alloc [OF fr_wf [OF F]] in auto)
  have 2: "res (frx (cfg E) (X - {c}) s) (do {
       j \<leftarrow> clis u c;
       if c_isfullscreen j then
         do {
           s \<leftarrow> resizeclient E c (m_mx k) (m_my k) (m_mw k) (m_mh k) u;
           Some (emit (XRaiseWindow (c_win j)) s) }
       else Some u })" if u: "frx (cfg E) (X - {c}) s u" for u
  proof -
    have "clis u c \<noteq> None"
      by (rule fr_alive [OF u fr_alive_back [OF F]]) (use wfx_alloc [OF fr_wf [OF F] c] in simp)
    then show ?thesis
      by (intro fr_intro res_intro) (use u in auto)
  qed
  show ?thesis
    unfolding give_def k bind.bind_lunit
    by (intro res_bind [OF 1] res_bind2 [OF frx_attach [OF _ c]] 2)
qed

lemma give_all_frx:
  assumes "frx (cfg E) (X \<union> set cs) s t" "distinct cs" "set cs \<inter> X = {}" "m \<in> set (mons s)"
  shows "res (frx (cfg E) X s) (each (give E m) cs t)"
  using assms
proof (induction cs arbitrary: t)
  case (Cons c cs)
  have "res (frx (cfg E) (X \<union> set (c # cs) - {c}) s) (give E m c t)"
    by (rule give_frx [OF Cons.prems(1)]) (use Cons.prems in auto)
  moreover have "X \<union> set (c # cs) - {c} = X \<union> set cs" using Cons.prems by auto
  ultimately have 1: "res (frx (cfg E) (X \<union> set cs) s) (give E m c t)" by simp
  show ?case
    unfolding each.simps by (rule res_bind [OF 1], rule Cons.IH) (use Cons.prems in auto)
qed simp

lemma tagswapmon_fr [fr_intro]:
  assumes F: "fr (cfg E) s t" and ok: "config_ok (cfg E)"
  shows "res (fr (cfg E) s) (tagswapmon E i t)"
proof (cases "length (mons t) < 2")
  case True
  then show ?thesis using F by (simp add: tagswapmon_def)
next
  case False
  note W = fr_wf [OF F]
  obtain m where m: "dirtomon i t = Some m" "m \<in> set (mons t)" using dirtomon_total [OF W] by blast
  have ms: "m \<in> set (mons s)" using m fr_mons [OF F] by simp
  obtain k where k: "selm t = Some k" "mmem t (selmon t) = Some k" using wfx_selmon [OF W] by metis
  have d: "distinct (m_clients k')" if "frx (cfg E) X s u" "mmem u a = Some k'" for X u a k'
    using wfx_lists [OF fr_wf [OF that(1)] that(2)] by (simp add: mon_lists_def)
  have al: "clis u c \<noteq> None \<and> c \<notin> X" if "frx (cfg E) X s u" "mmem u a = Some k'" "c \<in> set (m_clients k')" for X u a k' c
    using wfx_clientD [OF fr_wf [OF that(1)] that(2,3)] wfx_notin [OF fr_wf [OF that(1)] that(2,3)] by auto
  have 1: "res (\<lambda>(sc, u). frx (cfg E) (set sc) s u \<and> distinct sc) (take_visible E (m_clients k) ([], t))"
  proof (rule res_mono)
    show "res (\<lambda>(out', u). frx (cfg E) ({} \<union> set out') s u \<and> distinct out' \<and> set out' \<inter> {} = {}
        \<and> set out' \<subseteq> set [] \<union> set (m_clients k)) (take_visible E (m_clients k) ([], t))"
      by (rule take_visible_frx) (use F ok d [OF F k(2)] al [OF F k(2)] in auto)
  qed auto
  have 2: "res (\<lambda>(mc, v). frx (cfg E) (set sc \<union> set mc) s v \<and> distinct mc \<and> set mc \<inter> set sc = {})
      (take_visible E (m_clients k') ([], u))"
    if u: "frx (cfg E) (set sc) s u" and k': "mmem u m = Some k'" for sc u k'
  proof (rule res_mono)
    show "res (\<lambda>(mc, v). frx (cfg E) (set sc \<union> set mc) s v \<and> distinct mc \<and> set mc \<inter> set sc = {}
        \<and> set mc \<subseteq> set [] \<union> set (m_clients k')) (take_visible E (m_clients k') ([], u))"
      by (rule take_visible_frx) (use u ok d [OF u k'] al [OF u k'] in auto)
  qed auto
  have 3: "res (fr (cfg E) s) (do {
      s \<leftarrow> each (give E m) sc v;
      s \<leftarrow> each (give E (selmon s)) mc s;
      s \<leftarrow> focus E None s;
      arrange E None s })"
    if v: "frx (cfg E) (set sc \<union> set mc) s v" "distinct mc" "distinct sc" "set mc \<inter> set sc = {}" for sc mc v
  proof -
    have a: "res (frx (cfg E) (set mc) s) (each (give E m) sc v)"
      by (rule give_all_frx) (use v ms in \<open>auto simp: Un_commute\<close>)
    have b: "res (fr (cfg E) s) (each (give E (selmon w)) mc w)" if w: "frx (cfg E) (set mc) s w" for w
      by (rule give_all_frx) (use v w wfx_selmon_in [OF fr_wf [OF w]] fr_mons [OF w] in auto)
    show ?thesis
      by (intro res_bind [OF a] res_bind [OF b] res_bind [OF focus_fr] arrange_all_fr) (use ok in auto)
  qed
  show ?thesis
    unfolding tagswapmon_def m(1) k(1) bind.bind_lunit if_not_P [OF False]
  proof (rule res_bind [OF 1], clarify)
    fix sc u assume u: "frx (cfg E) (set sc) s u" "distinct sc"
    obtain k' where k': "mmem u m = Some k'" using fr_monitor [OF u(1) ms] by auto
    show "res (fr (cfg E) s) (do {
        k \<leftarrow> mmem u m;
        (mc, s) \<leftarrow> take_visible E (m_clients k) ([], u);
        s \<leftarrow> each (give E m) sc s;
        s \<leftarrow> each (give E (selmon s)) mc s;
        s \<leftarrow> focus E None s;
        arrange E None s })"
      unfolding k' bind.bind_lunit
      by (rule res_bind [OF 2 [OF u(1) k']], clarify, rule 3) (use u in auto)
  qed
qed

end
