(* ===== verification/Screens.thy ===== *)
theory Screens
  imports Transit
begin

text \<open>
  The search for a monitor, and the adaptation to the screens of the server. While
  \<open>updategeom\<close> works the state is not well-formed: a new monitor has no size yet (\<open>sized\<close>),
  and a monitor that is being removed has marks of clients it lost (\<open>unmarked\<close>). The result
  is well-formed when the screens have room for the configuration.
\<close>

section \<open>Finding monitors\<close>

text \<open>The search returns the first element with the largest value above the start.\<close>

lemma largest_total:
  assumes "\<And>x. x \<in> set xs \<Longrightarrow> f x = Some (h x)"
  shows "\<exists>v. largest f xs a r g = Some v \<and>
     ((v = r \<and> (\<forall>x \<in> set xs. h x \<le> a)) \<or> (\<exists>x \<in> set xs. v = g x \<and> h x > a \<and> (\<forall>y \<in> set xs. h y \<le> h x)))"
  using assms
proof (induction xs arbitrary: a r)
  case (Cons x xs)
  show ?case
  proof (cases "h x > a")
    case True
    obtain v where v: "largest f xs (h x) (g x) g = Some v"
      "(v = g x \<and> (\<forall>y \<in> set xs. h y \<le> h x)) \<or> (\<exists>z \<in> set xs. v = g z \<and> h z > h x \<and> (\<forall>y \<in> set xs. h y \<le> h z))"
      using Cons.IH [of "h x" "g x"] Cons.prems by auto
    have "largest f (x # xs) a r g = Some v" using v(1) True Cons.prems by simp
    moreover have "\<exists>z \<in> set (x # xs). v = g z \<and> h z > a \<and> (\<forall>y \<in> set (x # xs). h y \<le> h z)"
      using v(2) True by force
    ultimately show ?thesis by blast
  next
    case False
    obtain v where v: "largest f xs a r g = Some v"
      "(v = r \<and> (\<forall>x \<in> set xs. h x \<le> a)) \<or> (\<exists>x \<in> set xs. v = g x \<and> h x > a \<and> (\<forall>y \<in> set xs. h y \<le> h x))"
      using Cons.IH [of a r] Cons.prems by auto
    have "largest f (x # xs) a r g = Some v" using v(1) False Cons.prems by simp
    moreover have "(v = r \<and> (\<forall>x \<in> set (x # xs). h x \<le> a)) \<or>
        (\<exists>z \<in> set (x # xs). v = g z \<and> h z > a \<and> (\<forall>y \<in> set (x # xs). h y \<le> h z))"
      using v(2) False by force
    ultimately show ?thesis by blast
  qed
qed simp

lemma recttomon_total:
  assumes "wfx cf X s"
  shows "\<exists>m. recttomon x y w h s = Some m \<and> m \<in> set (mons s)"
proof -
  have "map_option (INTERSECT x y w h) (mmem s m) = Some (INTERSECT x y w h (the (mmem s m)))"
    if "m \<in> set (mons s)" for m
    using that wfx_monitor [OF assms] by auto
  then show ?thesis
    using largest_total [of "mons s" "\<lambda>m. map_option (INTERSECT x y w h) (mmem s m)"
        "\<lambda>m. INTERSECT x y w h (the (mmem s m))" 0 "selmon s" id] wfx_selmon_in [OF assms]
    by (auto simp: recttomon_def)
qed

lemma wintomon_total:
  assumes W: "wfx cf X s"
  shows "\<exists>m. wintomon E w s = Some m \<and> m \<in> set (mons s)"
proof (cases "if w = root E then getrootptr E s else None")
  case (Some p)
  then show ?thesis using recttomon_total [OF W] by (cases p) (auto simp: wintomon_def)
next
  case None
  let ?p = "\<lambda>m. do { k \<leftarrow> mmem s m; Some (w = m_barwin k) }"
  have "?p m = Some (w = m_barwin (the (mmem s m)))" if "m \<in> set (mons s)" for m
    using that wfx_monitor [OF W] by auto
  then obtain b where b: "firstO ?p (mons s) = Some b"
    using firstO_total [of "mons s" ?p "\<lambda>m. w = m_barwin (the (mmem s m))"] by simp
  obtain c where c: "wintoclient s w = Some c" "\<And>a. c = Some a \<Longrightarrow> \<exists>j. clis s a = Some j"
    using wintoclient_total [OF W, of w] by blast
  show ?thesis
  proof (cases b)
    case (Some m)
    then show ?thesis using b None firstO_mem [of ?p "mons s" m] by (simp add: wintomon_def)
  next
    case bN: None
    show ?thesis
    proof (cases c)
      case None
      then show ?thesis using b bN c(1) \<open>(if w = root E then _ else _) = None\<close> wfx_selmon_in [OF W]
        by (simp add: wintomon_def)
    next
      case (Some a)
      then obtain j where "clis s a = Some j" using c(2) by blast
      then show ?thesis using b bN c(1) Some None wfx_owner [OF W, of a j] by (simp add: wintomon_def)
    qed
  qed
qed

section \<open>Adding a monitor\<close>

text \<open>
  A new monitor has no size until it is placed. \<open>sized g U s\<close> is the state in which the
  monitors in \<open>U\<close> have the size \<open>g\<close>.
\<close>

definition good_screen :: "config \<Rightarrow> int \<Rightarrow> screen \<Rightarrow> bool" where
  "good_screen cf b g = (let (x, y, w, h) = g in 0 < w \<and> screen_ok cf b h)"

definition sized :: "screen \<Rightarrow> mid set \<Rightarrow> wm \<Rightarrow> wm" where
  "sized g U s = s\<lparr>mmem := \<lambda>m. if m \<in> U then map_option (place_mon 0 g) (mmem s m) else mmem s m\<rparr>"

definition wfs :: "config \<Rightarrow> screen \<Rightarrow> mid set \<Rightarrow> wm \<Rightarrow> bool" where
  "wfs cf g U s \<longleftrightarrow> mons s \<noteq> [] \<and> wf cf (sized g U (s\<lparr>selmon := hd (mons s)\<rparr>))"

text \<open>No monitor and no client exists: the state before \<open>setup\<close>.\<close>

definition blank :: "config \<Rightarrow> wm \<Rightarrow> bool" where
  "blank cf s \<longleftrightarrow> mons s = [] \<and> clis s = Map.empty \<and> mmem s = Map.empty \<and> screen_ok cf (bh s) (sh s)"

lemma sized_frame [simp]:
  "mons (sized g U s) = mons s" "clis (sized g U s) = clis s" "selmon (sized g U s) = selmon s"
  "bh (sized g U s) = bh s" "sh (sized g U s) = sh s" "running (sized g U s) = running s"
  "nextaddr (sized g U s) = nextaddr s"
  by (simp_all add: sized_def)

lemma sized_empty: "sized g {} s = s"
  by (simp add: sized_def)

lemma place_mon_frame [simp]:
  "m_clients (place_mon i g k) = m_clients k" "m_stack (place_mon i g k) = m_stack k"
  "m_sel (place_mon i g k) = m_sel k" "m_tagmarked (place_mon i g k) = m_tagmarked k"
  "m_lt (place_mon i g k) = m_lt k" "m_pertag (place_mon i g k) = m_pertag k"
  by (simp_all add: place_mon_def split_def)

lemma place_shape:
  assumes S: "mon_shape cf b r (place_mon j g k) \<or> mon_shape cf b r k" and g: "good_screen cf b g'"
  shows "mon_shape cf b r (place_mon i g' k)"
proof -
  obtain x y w h where g': "g' = (x, y, w, h)" by (cases g') auto
  have h: "screen_ok cf b h" "screen_ok cf 0 h" "0 < w"
    using g by (auto simp: good_screen_def g' screen_ok_def)
  from S show ?thesis
  proof
    assume S: "mon_shape cf b r (place_mon j g k)"
    show ?thesis
      by (rule mon_shape_upd [OF S])
        (use mon_shapeD [OF S] h in \<open>auto simp: g' place_mon_def base_shape_def split_def\<close>)
  next
    assume S: "mon_shape cf b r k"
    show ?thesis
      by (rule mon_shape_upd [OF S])
        (use mon_shapeD [OF S] h in \<open>auto simp: g' place_mon_def base_shape_def split_def\<close>)
  qed
qed

lemma wf_wfs:
  assumes "wf cf s"
  shows "wfs cf g {} s"
proof -
  have "mons s \<noteq> []" using wfx_selmon_in [OF assms] by auto
  moreover have "wf cf (s\<lparr>selmon := hd (mons s)\<rparr>)"
    by (rule wfx_selmon_upd [OF assms]) (use calculation in simp)
  ultimately show ?thesis by (simp add: wfs_def sized_def)
qed

lemma wfs_wf:
  assumes "wfs cf g {} s" "selmon s \<in> set (mons s)"
  shows "wf cf s"
proof -
  have "sized g {} (s\<lparr>selmon := hd (mons s)\<rparr>) = s\<lparr>selmon := hd (mons s)\<rparr>" by (simp add: sized_def)
  then have "wf cf (s\<lparr>selmon := hd (mons s)\<rparr>)" using assms(1) by (simp only: wfs_def)
  from wfx_selmon_upd [OF this, of "selmon s"] assms(2) show ?thesis by simp
qed

lemma tag1_ok: "config_ok cf \<Longrightarrow> 1 AND TAGMASK cf = 1"
  by (rule bit_word_eqI) (auto simp: TAGMASK_def bit_and_iff bit_1_iff config_ok_def)

lemma new_monitor_shape:
  assumes ok: "config_ok cf" and g: "good_screen cf b g"
  shows "mon_shape cf b r (place_mon i g (new_monitor cf sy))"
proof -
  let ?m = "new_monitor cf sy"
  obtain x y w h where g': "g = (x, y, w, h)" by (cases g) auto
  have h: "screen_ok cf b h" "screen_ok cf 0 h" "0 < w"
    using g by (auto simp: good_screen_def g' screen_ok_def)
  have n: "3 \<le> length (layouts cf)" using ok by (simp add: config_ok_def)
  have l: "lt_ok cf r (Lt 0)" "lt_ok cf r (Lt (1 mod length (layouts cf)))"
    using n by (auto simp: lt_ok_Lt [OF ok])
  have "base_shape cf b (place_mon i g ?m)"
    using h ok tag1_ok [OF ok] by (simp add: base_shape_def place_mon_def g' new_monitor_def config_ok_def)
  moreover have "pertag_shape cf (m_pertag (place_mon i g ?m))"
    using ok by (simp add: pertag_shape_def new_monitor_def new_pertag_def Let_def config_ok_def)
  ultimately show ?thesis
    using l by (intro mon_shapeI) (simp_all add: new_monitor_def new_pertag_def Let_def)
qed

lemma new_monitor_lists: "config_ok cf \<Longrightarrow> mon_lists cf (new_monitor cf sy)"
  by (simp add: mon_lists_def new_monitor_def config_ok_def nth_replicate)

lemma new_monitor_clients [simp]: "m_clients (new_monitor cf sy) = []"
  by (simp add: new_monitor_def)

text \<open>A monitor without clients is added at a fresh address.\<close>

lemma wf_add_mon:
  assumes W: "wf cf s" and k: "mon_shape cf (bh s) (running s) k" "mon_lists cf k" "m_clients k = []"
  shows "wf cf (s\<lparr>nextaddr := nextaddr s + 1, mmem := (mmem s)(nextaddr s \<mapsto> k), mons := mons s @ [nextaddr s]\<rparr>)"
proof -
  let ?a = "nextaddr s"
  have a: "clis s ?a = None" "mmem s ?a = None" "?a \<notin> set (mons s)"
    using wfx_fresh [OF W, of ?a] wfx_monitor [OF W] by auto
  show ?thesis
    unfolding wfx_def
  proof (intro conjI allI impI ballI, goal_cases)
    case 1 then show ?case using wfx_distinct_mons [OF W] a by simp
  next
    case 2 then show ?case using wfx_selmon_in [OF W] by simp
  next
    case 3 then show ?case using wfx_dom [OF W] by simp
  next
    case (4 m j) then show ?case using wfx_shape [OF W] k by (auto split: if_splits)
  next
    case (5 m j) then show ?case using wfx_lists [OF W] k by (auto split: if_splits)
  next
    case (6 m j c) then show ?case by simp
  next
    case (7 m j c) then show ?case using wfx_clientD [OF W] k by (auto split: if_splits)
  next
    case (8 c j) then show ?case using wfx_owner [OF W] by auto
  next
    case (9 c j) then show ?case using wfx_title [OF W] by auto
  next
    case (10 c j)
    then have j: "clis s c = Some j" by simp
    then have "c_mon j \<noteq> ?a" using wfx_owner [OF W j] a by auto
    then show ?case using wfx_listedD [OF W j] by auto
  next
    case (11 c) then show ?case by simp
  next
    case (12 c) then show ?case using wfx_fresh [OF W, of c] by simp
  next
    case (13 c) then show ?case using wfx_fresh [OF W, of c] by simp
  next
    case 14 then show ?case using wfx_screen [OF W] by simp
  qed
qed

lemma wf_first_mon:
  assumes B: "blank cf s" and k: "mon_shape cf (bh s) (running s) k" "mon_lists cf k" "m_clients k = []"
  shows "wf cf (s\<lparr>nextaddr := nextaddr s + 1, mmem := (mmem s)(nextaddr s \<mapsto> k), mons := mons s @ [nextaddr s],
     selmon := nextaddr s\<rparr>)"
  using assms by (auto simp: wfx_def blank_def split: if_splits)

lemma add_mon_wfs:
  assumes I: "blank cf s \<or> wfs cf g U s" and cf: "cf = cfg E" and ok: "config_ok cf" and g: "good_screen cf (bh s) g"
  shows "res (\<lambda>t. wfs cf g (insert (nextaddr s) U) t \<and> mons t = mons s @ [nextaddr s] \<and> selmon t = selmon s
     \<and> bh t = bh s \<and> sh t = sh s \<and> sw t = sw s \<and> xlog t = xlog s \<and> nextaddr t = Suc (nextaddr s) \<and> running t = running s) (add_mon E s)"
proof -
  have "lt_ok cf True (Lt 0)" using ok lt_ok_Lt [OF ok, of True 0] by (simp add: config_ok_def)
  then obtain l sy where l: "deref_layout cf (Lt 0) = Some l" "symbol l = Some sy" by (auto simp: lt_ok_def)
  let ?a = "nextaddr s"
  let ?k = "new_monitor cf sy"
  let ?p = "place_mon 0 g ?k"
  define t where "t = s\<lparr>nextaddr := ?a + 1, mmem := (mmem s)(?a \<mapsto> ?k), mons := mons s @ [?a]\<rparr>"
  have e: "add_mon E s = Some t"
    using l by (simp add: add_mon_def createmon_def t_def cf [symmetric])
  have k: "mon_shape cf (bh s) (running s) ?p" "mon_lists cf ?p" "m_clients ?p = []"
    using new_monitor_shape [OF ok g] new_monitor_lists [OF ok] by (simp_all add: mon_lists_def)
  have "wfs cf g (insert ?a U) t"
    using I
  proof
    assume B: "blank cf s"
    have "sized g (insert ?a U) (t\<lparr>selmon := hd (mons t)\<rparr>) = s\<lparr>nextaddr := ?a + 1, mmem := (mmem s)(?a \<mapsto> ?p),
        mons := mons s @ [?a], selmon := ?a\<rparr>"
      using B by (auto simp: sized_def t_def blank_def fun_eq_iff)
    then show ?thesis using wf_first_mon [OF B k] by (simp add: wfs_def t_def)
  next
    assume B: "wfs cf g U s"
    let ?s = "sized g U (s\<lparr>selmon := hd (mons s)\<rparr>)"
    have W: "wf cf ?s" "mons s \<noteq> []" using B by (simp_all add: wfs_def)
    have "sized g (insert ?a U) (t\<lparr>selmon := hd (mons t)\<rparr>)
        = ?s\<lparr>nextaddr := nextaddr ?s + 1, mmem := (mmem ?s)(nextaddr ?s \<mapsto> ?p), mons := mons ?s @ [nextaddr ?s]\<rparr>"
      using W(2) by (auto simp: sized_def t_def fun_eq_iff)
    then show ?thesis using wf_add_mon [OF W(1)] k by (simp add: wfs_def t_def)
  qed
  then show ?thesis using e by (simp add: t_def)
qed

section \<open>Placing the monitors\<close>

lemma barpos_frame [simp]:
  "m_clients (barpos b k) = m_clients k" "m_stack (barpos b k) = m_stack k" "m_sel (barpos b k) = m_sel k"
  "m_tagmarked (barpos b k) = m_tagmarked k"
  by (simp_all add: barpos_def Let_def)

lemma wfs_monitor:
  assumes "wfs cf g U s" "m \<in> set (mons s)"
  obtains k where "mmem s m = Some k"
    "mon_shape cf (bh s) (running s) (place_mon 0 g k) \<or> mon_shape cf (bh s) (running s) k" "mon_lists cf k"
proof -
  let ?s = "sized g U (s\<lparr>selmon := hd (mons s)\<rparr>)"
  have W: "wf cf ?s" using assms(1) by (simp add: wfs_def)
  obtain k0 where k0: "mmem ?s m = Some k0" using wfx_monitor [OF W] assms(2) by auto
  then obtain k where k: "mmem s m = Some k" "k0 = (if m \<in> U then place_mon 0 g k else k)"
    by (auto simp: sized_def split: if_splits)
  have "mon_shape cf (bh s) (running s) k0" "mon_lists cf k0"
    using wfx_shape [OF W k0] wfx_lists [OF W k0] by simp_all
  then show ?thesis
    using that [OF k(1)] k(2) mon_lists_cong [of "place_mon 0 g k" k cf] by (auto split: if_splits)
qed

lemma wfs_set_mon:
  assumes I: "wfs cf g U s" and m: "m \<in> set (mons s)" and k: "mmem s m = Some k"
    and S: "mon_shape cf (bh s) (running s) k'" and K: "keeps_lists k k'"
  shows "wfs cf g (U - {m}) (s\<lparr>mmem := (mmem s)(m \<mapsto> k')\<rparr>)"
proof -
  let ?s = "sized g U (s\<lparr>selmon := hd (mons s)\<rparr>)"
  have W: "wf cf ?s" using I by (simp add: wfs_def)
  have L: "mon_lists cf k" by (rule wfs_monitor [OF I m]) (use k in simp)
  obtain k0 where k0: "mmem ?s m = Some k0" "m_clients k0 = m_clients k"
    using k by (cases "m \<in> U") (auto simp: sized_def)
  have "sized g (U - {m}) (s\<lparr>mmem := (mmem s)(m \<mapsto> k'), selmon := hd (mons s)\<rparr>) = ?s\<lparr>mmem := (mmem ?s)(m \<mapsto> k')\<rparr>"
    by (auto simp: sized_def fun_eq_iff)
  moreover have "wf cf (?s\<lparr>mmem := (mmem ?s)(m \<mapsto> k')\<rparr>)"
    by (rule wfx_modm [OF W k0(1)])
      (use S K L k0(2) mon_lists_cong [of k' k cf] in \<open>auto simp: keeps_lists_def\<close>)
  ultimately show ?thesis using I by (simp add: wfs_def)
qed

text \<open>What the loops of \<open>updategeom\<close> keep besides the lists of monitors.\<close>

definition same_screen :: "wm \<Rightarrow> wm \<Rightarrow> bool" where
  "same_screen s t \<longleftrightarrow> bh t = bh s \<and> sh t = sh s \<and> sw t = sw s \<and> running t = running s"

lemma same_screen_refl [simp]: "same_screen s s"
  by (simp add: same_screen_def)

lemma same_screen_trans: "same_screen s t \<Longrightarrow> same_screen t u \<Longrightarrow> same_screen s u"
  by (simp add: same_screen_def)

lemma update_mon_wfs:
  assumes I: "wfs cf g U s" and m: "m \<in> set (mons s)" and g': "good_screen cf (bh s) g'"
    and U: "m \<in> U \<Longrightarrow> n \<le> i"
  shows "res (\<lambda>(d', t). wfs cf g (U - {m}) t \<and> mons t = mons s \<and> selmon t = selmon s \<and> same_screen s t
     \<and> nextaddr t = nextaddr s \<and> (d \<longrightarrow> d') \<and> (n \<le> i \<longrightarrow> d')) (update_mon n i (m, g') (d, s))"
proof -
  obtain k where k: "mmem s m = Some k"
    "mon_shape cf (bh s) (running s) (place_mon 0 g k) \<or> mon_shape cf (bh s) (running s) k"
    by (rule wfs_monitor [OF I m])
  let ?k = "barpos (bh s) (place_mon i g' k)"
  show ?thesis
  proof (cases "n \<le> i \<or> g' \<noteq> (m_mx k, m_my k, m_mw k, m_mh k)")
    case True
    have "update_mon n i (m, g') (d, s) = Some (True, s\<lparr>mmem := (mmem s)(m \<mapsto> ?k)\<rparr>)"
      using True k(1) by (auto simp: update_mon_def modm_def updatebarpos_def)
    moreover have "wfs cf g (U - {m}) (s\<lparr>mmem := (mmem s)(m \<mapsto> ?k)\<rparr>)"
      by (rule wfs_set_mon [OF I m k(1) barpos_shape [OF place_shape [OF k(2) g']]])
        (simp add: keeps_lists_def)
    ultimately show ?thesis by (simp add: same_screen_def)
  next
    case False
    then have "update_mon n i (m, g') (d, s) = Some (d, s)" using k(1) by (auto simp: update_mon_def)
    moreover have "U - {m} = U" using U False by auto
    ultimately show ?thesis using I False by simp
  qed
qed

lemma update_all_wfs:
  assumes "wfs cf g U s" "set (map fst ms) \<subseteq> set (mons s)" "\<And>g'. g' \<in> set (map snd ms) \<Longrightarrow> good_screen cf (bh s) g'"
    "\<And>j. j < length ms \<Longrightarrow> fst (ms ! j) \<in> U \<Longrightarrow> n \<le> i + j"
  shows "res (\<lambda>(d', t). wfs cf g (U - set (map fst ms)) t \<and> mons t = mons s \<and> selmon t = selmon s \<and> same_screen s t
     \<and> nextaddr t = nextaddr s \<and> (d \<longrightarrow> d') \<and> (n \<le> i \<and> ms \<noteq> [] \<longrightarrow> d')) (each_from i (update_mon n) ms (d, s))"
  using assms
proof (induction ms arbitrary: i d s U)
  case (Cons mg ms)
  obtain m g' where mg: "mg = (m, g')" by (cases mg)
  have 1: "res (\<lambda>(d', t). wfs cf g (U - {m}) t \<and> mons t = mons s \<and> selmon t = selmon s \<and> same_screen s t
     \<and> nextaddr t = nextaddr s \<and> (d \<longrightarrow> d') \<and> (n \<le> i \<longrightarrow> d')) (update_mon n i (m, g') (d, s))"
  proof (rule update_mon_wfs [OF Cons.prems(1)])
    show "m \<in> U \<Longrightarrow> n \<le> i" using Cons.prems(4) [of 0] mg by simp
  qed (use Cons.prems(2,3) mg in auto)
  show ?case
    unfolding each_from.simps mg
  proof (rule res_bind [OF 1], clarify)
    fix d' t assume t: "wfs cf g (U - {m}) t" "mons t = mons s" "selmon t = selmon s" "same_screen s t"
      "nextaddr t = nextaddr s" "d \<longrightarrow> d'" "n \<le> i \<longrightarrow> d'"
    have U: "U - set (map fst ((m, g') # ms)) = U - {m} - set (map fst ms)" by auto
    have "res (\<lambda>(d'', u). wfs cf g (U - {m} - set (map fst ms)) u \<and> mons u = mons t \<and> selmon u = selmon t
       \<and> same_screen t u \<and> nextaddr u = nextaddr t \<and> (d' \<longrightarrow> d'') \<and> (n \<le> Suc i \<and> ms \<noteq> [] \<longrightarrow> d''))
       (each_from (Suc i) (update_mon n) ms (d', t))"
    proof (rule Cons.IH [OF t(1)])
      fix j assume "j < length ms" "fst (ms ! j) \<in> U - {m}"
      then show "n \<le> Suc i + j" using Cons.prems(4) [of "Suc j"] by simp
    next
      show "set (map fst ms) \<subseteq> set (mons t)" using Cons.prems(2) t(2) by simp
      show "good_screen cf (bh t) g'" if "g' \<in> set (map snd ms)" for g'
        using Cons.prems(3) [of g'] that t(4) by (simp add: same_screen_def)
    qed
    then show "res (\<lambda>(d'', u). wfs cf g (U - set (map fst ((m, g') # ms))) u \<and> mons u = mons s \<and> selmon u = selmon s
       \<and> same_screen s u \<and> nextaddr u = nextaddr s \<and> (d \<longrightarrow> d'') \<and> (n \<le> i \<and> (m, g') # ms \<noteq> [] \<longrightarrow> d''))
       (each_from (Suc i) (update_mon n) ms (d', t))"
      unfolding U by (rule res_mono) (use t in \<open>auto simp: same_screen_def\<close>)
  qed
qed simp

lemma unique_screens_append: "unique_screens (xs @ [x]) = (if isuniquegeom (unique_screens xs) x then unique_screens xs @ [x] else unique_screens xs)"
  by (simp add: unique_screens_def)

lemma unique_screens_props: "distinct (unique_screens xs)" "set (unique_screens xs) = set xs"
proof (induction xs rule: rev_induct)
  case Nil
  { case 1 then show ?case by (simp add: unique_screens_def) }
  { case 2 then show ?case by (simp add: unique_screens_def) }
next
  case (snoc x xs)
  { case 1 then show ?case using snoc by (simp add: unique_screens_append isuniquegeom_def) }
  { case 2 then show ?case using snoc by (auto simp: unique_screens_append isuniquegeom_def) }
qed

lemma add_all_wfs:
  assumes I: "(wfs cf g U s \<or> blank cf s \<and> U = {}) " and cf: "cf = cfg E" and ok: "config_ok cf" and g: "good_screen cf (bh s) g"
  shows "res (\<lambda>t. (wfs cf g (U \<union> set (drop (length (mons s)) (mons t))) t \<or> is = [] \<and> blank cf t)
     \<and> (\<exists>as. mons t = mons s @ as \<and> length as = length is)
     \<and> selmon t = selmon s \<and> same_screen s t) (each (\<lambda>_. add_mon E) is s)"
  using I g
proof (induction "is" arbitrary: s U)
  case (Cons i "is")
  have 1: "res (\<lambda>t. wfs cf g (insert (nextaddr s) U) t \<and> mons t = mons s @ [nextaddr s] \<and> selmon t = selmon s
     \<and> bh t = bh s \<and> sh t = sh s \<and> sw t = sw s \<and> xlog t = xlog s \<and> nextaddr t = Suc (nextaddr s) \<and> running t = running s) (add_mon E s)"
    by (rule add_mon_wfs [OF _ cf ok Cons.prems(2)]) (use Cons.prems(1) in auto)
  show ?case
    unfolding each.simps
  proof (rule res_bind [OF 1], elim conjE)
    fix t assume t: "wfs cf g (insert (nextaddr s) U) t" "mons t = mons s @ [nextaddr s]" "selmon t = selmon s"
      "bh t = bh s" "sh t = sh s" "sw t = sw s" "running t = running s"
    have "res (\<lambda>u. (wfs cf g (insert (nextaddr s) U \<union> set (drop (length (mons t)) (mons u))) u \<or> is = [] \<and> blank cf u)
     \<and> (\<exists>as. mons u = mons t @ as \<and> length as = length is)
     \<and> selmon u = selmon t \<and> same_screen t u) (each (\<lambda>_. add_mon E) is t)"
      by (rule Cons.IH) (use t Cons.prems(2) in auto)
    then show "res (\<lambda>u. (wfs cf g (U \<union> set (drop (length (mons s)) (mons u))) u \<or> i # is = [] \<and> blank cf u)
     \<and> (\<exists>as. mons u = mons s @ as \<and> length as = length (i # is))
     \<and> selmon u = selmon s \<and> same_screen s u) (each (\<lambda>_. add_mon E) is t)"
      by (rule res_mono) (use t in \<open>auto simp: same_screen_def blank_def\<close>)
  qed
qed auto

section \<open>Removing a monitor\<close>

text \<open>
  \<open>updategeom\<close> takes the clients off the last monitor without clearing its marks;
  \<open>unmarked m s\<close> is the state with the marks cleared.
\<close>

definition unmarked :: "mid \<Rightarrow> wm \<Rightarrow> wm" where
  "unmarked m s = s\<lparr>mmem := (mmem s)(m := map_option (\<lambda>k. k\<lparr>m_tagmarked := replicate 32 None\<rparr>) (mmem s m))\<rparr>"

lemma unmarked_frame [simp]:
  "mons (unmarked m s) = mons s" "clis (unmarked m s) = clis s" "selmon (unmarked m s) = selmon s"
  "bh (unmarked m s) = bh s" "sh (unmarked m s) = sh s" "running (unmarked m s) = running s"
  "nextaddr (unmarked m s) = nextaddr s"
  by (simp_all add: unmarked_def)

lemma wf_unmarked:
  assumes W: "wf cf s" and m: "m \<in> set (mons s)" and n: "ntags cf \<le> 31"
  shows "wf cf (unmarked m s)"
proof -
  obtain k where k: "mmem s m = Some k" using wfx_monitor [OF W] m by auto
  have "wf cf (s\<lparr>mmem := (mmem s)(m \<mapsto> k\<lparr>m_tagmarked := replicate 32 None\<rparr>)\<rparr>)"
  proof (rule wfx_modm [OF W k])
    show "mon_shape cf (bh s) (running s) (k\<lparr>m_tagmarked := replicate 32 None\<rparr>)"
      by (rule mon_shape_lists(4)) (use wfx_shape [OF W k] in simp_all)
    show "mon_lists cf (k\<lparr>m_tagmarked := replicate 32 None\<rparr>)"
      using wfx_lists [OF W k] n by (auto simp: mon_lists_def nth_replicate)
  qed simp
  then show ?thesis using k by (simp add: unmarked_def)
qed

lemma clear_no_marks: "clear_marks n c (replicate 32 None) = replicate 32 None"
  by (rule nth_equalityI) (simp_all add: nth_clear_marks)

lemma move_first_wf:
  assumes W: "wf cf (unmarked m s)" and n: "ntags cf \<le> 31" and k: "mmem s m = Some k" "m_clients k = c # cs"
    and h: "hd (mons s) \<noteq> m"
  shows "res (\<lambda>(_, t). wf cf (unmarked m t) \<and> mons t = mons s \<and> selmon t = selmon s \<and> same_screen s t
     \<and> (\<exists>k'. mmem t m = Some k' \<and> m_clients k' = cs)) (move_first m s)"
proof -
  let ?u = "unmarked m s"
  let ?k = "k\<lparr>m_tagmarked := replicate 32 None\<rparr>"
  have ku: "mmem ?u m = Some ?k" using k(1) by (simp add: unmarked_def)
  obtain j where j: "clis s c = Some j" "c_mon j = m" using wfx_clientD [OF W ku, of c] k(2) by auto
  let ?k1 = "k\<lparr>m_clients := cs\<rparr>"
  define s1 where "s1 = s\<lparr>mmem := (mmem s)(m \<mapsto> ?k1)\<rparr>"
  have s1: "s1 = ?u\<lparr>mmem := (mmem ?u)(c_mon j \<mapsto> ?k1)\<rparr>"
    by (simp add: s1_def unmarked_def j(2))
  have al: "clis s1 a \<noteq> None" if "a \<in> set (m_stack ?k1)" for a
  proof -
    have "a \<in> set (m_clients ?k)" using that wfx_stack_clients [OF W ku] by simp
    then show ?thesis using wfx_clientD [OF W ku] by (auto simp: s1_def)
  qed
  have cj: "clis s1 c = Some j" "mmem ?u (c_mon j) = Some ?k" "tagsel ?k1 = tagsel ?k"
    using j ku by (simp_all add: s1_def tagsel_def)
  obtain t where t: "detachstack c s1 = Some (s1\<lparr>mmem := (mmem s1)(c_mon j \<mapsto> ?k1\<lparr>m_stack := remove1 c (m_stack ?k1), m_sel := t\<rparr>)\<rparr>)"
    "m_sel ?k1 = Some c \<Longrightarrow> t = None \<or> (\<exists>a. t = Some a \<and> a \<in> set (remove1 c (m_stack ?k1)) \<and> ISVISIBLE s1 a = Some True)"
    "m_sel ?k1 \<noteq> Some c \<Longrightarrow> t = m_sel ?k1"
    by (rule detachstack_Some [OF W s1 cj al]) (assumption | rule that)+
  let ?k2 = "k\<lparr>m_clients := cs, m_stack := remove1 c (m_stack k), m_sel := t\<rparr>"
  let ?k2u = "?k\<lparr>m_clients := cs, m_stack := remove1 c (m_stack k), m_sel := t\<rparr>"
  define s2 where "s2 = s\<lparr>mmem := (mmem s)(m \<mapsto> ?k2)\<rparr>"
  have e2: "detachstack c s1 = Some s2" using t(1) j(2) by (simp add: s1_def s2_def)
  have L: "mon_lists cf ?k2u"
  proof -
    have sel: "a \<in> set (remove1 c (m_stack ?k))" if "t = Some a" for a
    proof (cases "m_sel k = Some c")
      case True
      then show ?thesis using t(2) that by auto
    next
      case False
      then have "m_sel k = Some a" "a \<noteq> c" using t(3) that by auto
      then show ?thesis
        using wfx_sel_client [OF W ku, of a] wfx_stack_clients [OF W ku] by (simp add: in_set_remove1)
    qed
    have "mon_lists cf (?k\<lparr>m_tagmarked := clear_marks (ntags cf) c (m_tagmarked ?k),
        m_clients := remove1 c (m_clients ?k), m_stack := remove1 c (m_stack ?k), m_sel := t\<rparr>)"
      by (rule mon_lists_remove [OF wfx_lists [OF W ku]]) (use n sel in auto)
    then show ?thesis using k(2) by (simp add: clear_no_marks)
  qed
  have W2: "wfx cf {c} (?u\<lparr>mmem := (mmem ?u)(m \<mapsto> ?k2u)\<rparr>)"
  proof (rule wfx_update [OF W ku _ L])
    show "mon_shape cf (bh ?u) (running ?u) ?k2u"
      using wfx_shape [OF W ku] by (simp add: mon_shape_lists)
    have d: "c \<notin> set cs" using wfx_lists [OF W ku] k(2) by (simp add: mon_lists_def)
    show "a \<notin> {c} \<and> (\<exists>j. clis ?u a = Some j \<and> c_mon j = m)" if "a \<in> set (m_clients ?k2u)" for a
      using that d wfx_clientD [OF W ku, of a] k(2) by auto
    show "a \<in> {c} \<or> a \<in> set (m_clients ?k2u)" if "clis ?u a = Some i" "c_mon i = m" for a i
      using wfx_listedD [OF W that(1)] that(2) ku k(2) by auto
  qed (use j in auto)
  define s3 where "s3 = s2\<lparr>clis := (clis s2)(c \<mapsto> j\<lparr>c_mon := hd (mons s)\<rparr>)\<rparr>"
  have ne: "mons s \<noteq> []" using wfx_selmon_in [OF W] by auto
  have u2: "unmarked m s2 = ?u\<lparr>mmem := (mmem ?u)(m \<mapsto> ?k2u)\<rparr>"
  proof -
    have e: "?k2\<lparr>m_tagmarked := replicate 32 None\<rparr> = ?k2u" by (rule monitor.equality) simp_all
    have "unmarked m s2 = s\<lparr>mmem := (mmem s)(m \<mapsto> ?k2\<lparr>m_tagmarked := replicate 32 None\<rparr>)\<rparr>"
      by (simp add: s2_def unmarked_def)
    then show ?thesis by (simp only: e) (simp add: unmarked_def)
  qed
  have u3: "unmarked m s3 = (unmarked m s2)\<lparr>clis := (clis s2)(c \<mapsto> j\<lparr>c_mon := hd (mons s)\<rparr>)\<rparr>"
    by (simp add: s3_def unmarked_def)
  have W3: "wfx cf {c} (unmarked m s3)"
  proof -
    have "wfx cf {c} ((unmarked m s2)\<lparr>clis := (clis (unmarked m s2))(c \<mapsto> j\<lparr>c_mon := hd (mons s)\<rparr>)\<rparr>)"
      by (rule wfx_modc_transit [of cf "{c}" "unmarked m s2" c j])
        (use W2 j ne wfx_title [OF W, of c j] in \<open>simp_all add: u2\<close>)
    then show ?thesis by (simp add: u3)
  qed
  have c3: "clis (unmarked m s3) c = Some (j\<lparr>c_mon := hd (mons s)\<rparr>)" by (simp add: s3_def)
  obtain kh where kh: "mmem (unmarked m s3) (hd (mons s)) = Some kh"
    "wf cf ((unmarked m s3)\<lparr>mmem := (mmem (unmarked m s3))(hd (mons s) \<mapsto>
       kh\<lparr>m_clients := c # m_clients kh, m_stack := c # m_stack kh\<rparr>)\<rparr>)"
    by (rule attach_both [OF W3 c3]) auto
  have kh3: "mmem s3 (hd (mons s)) = Some kh" using kh(1) h by (simp add: unmarked_def)
  define s4 where "s4 = s3\<lparr>mmem := (mmem s3)(hd (mons s) \<mapsto> kh\<lparr>m_clients := c # m_clients kh, m_stack := c # m_stack kh\<rparr>)\<rparr>"
  have e4: "do { s \<leftarrow> attach c s3; s \<leftarrow> attachstack c s; Some (c, s) } = Some (c, s4)"
    using attach_Some [of s3 c "j\<lparr>c_mon := hd (mons s)\<rparr>" kh]
      attachstack_Some [of "s3\<lparr>mmem := (mmem s3)(hd (mons s) \<mapsto> kh\<lparr>m_clients := c # m_clients kh\<rparr>)\<rparr>" c "j\<lparr>c_mon := hd (mons s)\<rparr>"]
      kh3 c3 by (simp add: s4_def)
  have hc: "(case mons s of [] \<Rightarrow> None | h # _ \<Rightarrow> Some h) = Some (hd (mons s))"
    using ne by (cases "mons s") simp_all
  have e: "move_first m s = Some (c, s4)"
    unfolding move_first_def
    using k e2 e4 j(1) hc
    by (simp add: modm_def s1_def [symmetric] modc_def s3_def s2_def)
  have "unmarked m s4 = (unmarked m s3)\<lparr>mmem := (mmem (unmarked m s3))(hd (mons s) \<mapsto>
       kh\<lparr>m_clients := c # m_clients kh, m_stack := c # m_stack kh\<rparr>)\<rparr>"
    using h by (simp add: s4_def unmarked_def fun_upd_twist)
  then have "wf cf (unmarked m s4)" using kh(2) by simp
  then show ?thesis
    using e h by (simp add: s4_def s3_def s2_def same_screen_def)
qed

lemma evacuate_wf:
  assumes "wf cf (unmarked m s)" "ntags cf \<le> 31" "mmem s m = Some k" "hd (mons s) \<noteq> m"
  shows "res (\<lambda>(d', t). wf cf (unmarked m t) \<and> mons t = mons s \<and> selmon t = selmon s \<and> same_screen s t
     \<and> (\<exists>k'. mmem t m = Some k' \<and> m_clients k' = [])) (evacuate m (d, s))"
  using assms
proof (induction "m_clients k" arbitrary: k s d)
  case Nil
  then show ?case by (subst evacuate.simps) simp
next
  case (Cons c cs)
  have 1: "res (\<lambda>(_, t). wf cf (unmarked m t) \<and> mons t = mons s \<and> selmon t = selmon s \<and> same_screen s t
     \<and> (\<exists>k'. mmem t m = Some k' \<and> m_clients k' = cs)) (move_first m s)"
    by (rule move_first_wf [OF Cons.prems(1,2,3) Cons.hyps(2) [symmetric] Cons.prems(4)])
  have "res (\<lambda>(d', t). wf cf (unmarked m t) \<and> mons t = mons s \<and> selmon t = selmon s \<and> same_screen s t
     \<and> (\<exists>k'. mmem t m = Some k' \<and> m_clients k' = [])) (do { (_, s) \<leftarrow> move_first m s; evacuate m (True, s) })"
  proof (rule res_bind [OF 1], clarify)
    fix t k' assume t: "wf cf (unmarked m t)" "mons t = mons s" "selmon t = selmon s" "same_screen s t"
      "mmem t m = Some k'" "cs = m_clients k'"
    have "res (\<lambda>(d', u). wf cf (unmarked m u) \<and> mons u = mons t \<and> selmon u = selmon t \<and> same_screen t u
       \<and> (\<exists>k'. mmem u m = Some k' \<and> m_clients k' = [])) (evacuate m (True, t))"
      by (rule Cons.hyps(1) [OF t(6,1) Cons.prems(2) t(5)]) (use t(2) Cons.prems(4) in simp)
    then show "res (\<lambda>(d', u). wf cf (unmarked m u) \<and> mons u = mons s \<and> selmon u = selmon s \<and> same_screen s u
       \<and> (\<exists>k'. mmem u m = Some k' \<and> m_clients k' = [])) (evacuate m (True, t))"
      by (rule res_mono) (use t in \<open>auto simp: same_screen_def\<close>)
  qed
  then show ?case using Cons.hyps(2) Cons.prems(3) by (subst evacuate.simps) auto
qed

lemma wf_remove_mon:
  assumes W: "wf cf (unmarked m s)" and k: "mmem s m = Some k" "m_clients k = []" and sel: "selmon s \<noteq> m"
  shows "wf cf (s\<lparr>mons := remove1 m (mons s), mmem := (mmem s)(m := None)\<rparr>)"
proof -
  let ?u = "unmarked m s"
  have ku: "mmem ?u a = mmem s a" if "a \<noteq> m" for a using that by (simp add: unmarked_def)
  have d: "distinct (mons s)" using wfx_distinct_mons [OF W] by simp
  have own: "c_mon j \<noteq> m" if "clis s c = Some j" for c j
  proof
    assume "c_mon j = m"
    then show False using wfx_listedD [OF W, of c j] that k by (auto simp: unmarked_def)
  qed
  show ?thesis
    unfolding wfx_def
  proof (intro conjI allI impI ballI, goal_cases)
    case 1 then show ?case using d by (simp add: distinct_remove1)
  next
    case 2 then show ?case using wfx_selmon_in [OF W] sel by (simp add: in_set_remove1)
  next
    case 3
    have "dom (mmem s) = set (mons s)" using wfx_dom [OF W] k by (auto simp: unmarked_def dom_def split: if_splits)
    then show ?case using d by (simp add: set_remove1_distinct)
  next
    case (4 a j)
    then have "a \<noteq> m" "mmem ?u a = Some j" using ku by (auto split: if_splits)
    then show ?case using wfx_shape [OF W, of a j] by simp
  next
    case (5 a j)
    then have "a \<noteq> m" "mmem ?u a = Some j" using ku by (auto split: if_splits)
    then show ?case using wfx_lists [OF W, of a j] by simp
  next
    case (6 a j c) then show ?case by simp
  next
    case (7 a j c)
    then have "a \<noteq> m" "mmem ?u a = Some j" using ku by (auto split: if_splits)
    then show ?case using wfx_clientD [OF W, of a j c] 7 by simp
  next
    case (8 c j) then show ?case using wfx_owner [OF W, of c j] own by (simp add: in_set_remove1)
  next
    case (9 c j) then show ?case using wfx_title [OF W, of c j] by simp
  next
    case (10 c j) then show ?case using wfx_listedD [OF W, of c j] own ku by (auto simp: unmarked_def)
  next
    case (11 c) then show ?case by simp
  next
    case (12 a) then show ?case using wfx_fresh [OF W, of a] by simp
  next
    case (13 a) then show ?case using wfx_fresh [OF W, of a] ku by (cases "a = m") auto
  next
    case 14 then show ?case using wfx_screen [OF W] by simp
  qed
qed

lemma cleanupmon_Some:
  assumes "m \<in> set (mons s)" "mmem s m = Some k"
  shows "cleanupmon m s = Some (emit (XDestroyWindow (m_barwin k)) (emit (XUnmapWindow (m_barwin k))
     (s\<lparr>mons := remove1 m (mons s), mmem := (mmem s)(m := None)\<rparr>)))"
  using assms by (simp add: cleanupmon_def emit_def)

lemma remove_mon_wf:
  assumes W: "wf cf s" and n: "ntags cf \<le> 31" and l: "2 \<le> length (mons s)"
  shows "res (\<lambda>(d', t). wf cf t \<and> mons t = butlast (mons s) \<and> same_screen s t) (remove_mon (d, s))"
proof -
  let ?m = "last (mons s)"
  have ne: "mons s \<noteq> []" using l by auto
  have d: "distinct (mons s)" by (rule wfx_distinct_mons [OF W])
  have m: "?m \<in> set (mons s)" using ne by simp
  have h: "hd (mons s) \<noteq> ?m"
    using d l ne by (metis One_nat_def Suc_le_lessD diff_less distinct_conv_nth hd_conv_nth last_conv_nth
      length_greater_0_conv numeral_2_eq_2 zero_less_Suc zero_less_diff diff_is_0_eq not_less_eq_eq)
  have rm: "remove1 ?m (mons s) = butlast (mons s)"
  proof -
    have "mons s = butlast (mons s) @ [?m]" using ne by simp
    moreover have "?m \<notin> set (butlast (mons s))" using d ne
      by (metis append_butlast_last_id distinct_append disjoint_iff list.set_intros(1))
    ultimately show ?thesis by (metis append_Nil2 remove1.simps(2) remove1_append)
  qed
  obtain k where k: "mmem s ?m = Some k" using wfx_monitor [OF W] m by auto
  have 1: "res (\<lambda>(d', t). wf cf (unmarked ?m t) \<and> mons t = mons s \<and> selmon t = selmon s \<and> same_screen s t
     \<and> (\<exists>k'. mmem t ?m = Some k' \<and> m_clients k' = [])) (evacuate ?m (d, s))"
    by (rule evacuate_wf [OF wf_unmarked [OF W m n] n k h])
  have 2: "res (\<lambda>(d', t). wf cf t \<and> mons t = butlast (mons s) \<and> same_screen s t)
      (do { s \<leftarrow> cleanupmon ?m (if ?m = selmon t then t\<lparr>selmon := hd (mons t)\<rparr> else t); Some (d', s) })"
    if t: "wf cf (unmarked ?m t)" "mons t = mons s" "selmon t = selmon s" "same_screen s t"
      "mmem t ?m = Some k'" "m_clients k' = []" for d' t k'
  proof -
    let ?t = "if ?m = selmon t then t\<lparr>selmon := hd (mons t)\<rparr> else t"
    have "wf cf (unmarked ?m ?t)"
    proof -
      have "unmarked ?m ?t = (if ?m = selmon t then (unmarked ?m t)\<lparr>selmon := hd (mons t)\<rparr> else unmarked ?m t)"
        by (simp add: unmarked_def)
      moreover have "wf cf ((unmarked ?m t)\<lparr>selmon := hd (mons t)\<rparr>)"
        by (rule wfx_selmon_upd [OF t(1)]) (use t(2) ne in simp)
      ultimately show ?thesis using t(1) by presburger
    qed
    then have "wf cf (?t\<lparr>mons := remove1 ?m (mons ?t), mmem := (mmem ?t)(?m := None)\<rparr>)"
      by (rule wf_remove_mon [where k = k']) (use t h in auto)
    moreover have "cleanupmon ?m ?t = Some (emit (XDestroyWindow (m_barwin k')) (emit (XUnmapWindow (m_barwin k'))
        (?t\<lparr>mons := remove1 ?m (mons ?t), mmem := (mmem ?t)(?m := None)\<rparr>)))"
      by (rule cleanupmon_Some) (use t m in auto)
    ultimately show ?thesis
      using t rm by (cases "?m = selmon t") (simp_all add: same_screen_def split del: if_split)
  qed
  show ?thesis
    using ne by (simp add: remove_mon_def Let_def) (rule res_bind [OF 1], use 2 in auto)
qed

lemma remove_all_wf:
  assumes "wf cf s" "ntags cf \<le> 31" "length is < length (mons s)"
  shows "res (\<lambda>(d', t). wf cf t \<and> same_screen s t) (each (\<lambda>_. remove_mon) is (d, s))"
  using assms
proof (induction "is" arbitrary: d s)
  case (Cons i "is")
  have 1: "res (\<lambda>(d', t). wf cf t \<and> mons t = butlast (mons s) \<and> same_screen s t) (remove_mon (d, s))"
    by (rule remove_mon_wf) (use Cons.prems in auto)
  show ?case
    unfolding each.simps
  proof (rule res_bind [OF 1], clarify)
    fix d' t assume t: "wf cf t" "mons t = butlast (mons s)" "same_screen s t"
    have "res (\<lambda>(d'', u). wf cf u \<and> same_screen t u) (each (\<lambda>_. remove_mon) is (d', t))"
      by (rule Cons.IH) (use t Cons.prems in auto)
    then show "res (\<lambda>(d'', u). wf cf u \<and> same_screen s u) (each (\<lambda>_. remove_mon) is (d', t))"
      by (rule res_mono) (use t(3) in \<open>auto simp: same_screen_def\<close>)
  qed
qed simp

section \<open>The screens of the server\<close>

lemma xinerama_geom_wf:
  assumes I: "wf (cfg E) s \<or> blank (cfg E) s" and ok: "config_ok (cfg E)"
    and ss: "info \<noteq> []" "\<And>g. g \<in> set info \<Longrightarrow> good_screen (cfg E) (bh s) g"
  shows "res (\<lambda>(d, t). mons t \<noteq> [] \<and> wf (cfg E) (t\<lparr>selmon := hd (mons t)\<rparr>) \<and> (\<not> d \<longrightarrow> wf (cfg E) t)
      \<and> same_screen s t) (xinerama_geom E info s)"
proof -
  let ?cf = "cfg E"
  let ?u = "unique_screens info"
  let ?n = "length (mons s)"
  let ?is = "[?n..<length ?u]"
  have u: "set ?u = set info" "?u \<noteq> []" using unique_screens_props ss(1) by (auto simp flip: set_empty)
  define g where "g = hd info"
  have g: "good_screen ?cf (bh s) g" using ss by (simp add: g_def)
  have n: "ntags ?cf \<le> 31" using ok by (simp add: config_ok_def)
  have bl: "mons s = [] \<longleftrightarrow> blank ?cf s" using I wfx_selmon_in [of ?cf "{}" s] by (auto simp: blank_def)
  have 1: "res (\<lambda>t. (wfs ?cf g (set (drop ?n (mons t))) t \<or> ?is = [] \<and> blank ?cf t)
     \<and> (\<exists>as. mons t = mons s @ as \<and> length as = length ?is) \<and> selmon t = selmon s \<and> same_screen s t)
     (each (\<lambda>_. add_mon E) ?is s)"
  proof (rule res_mono)
    show "res (\<lambda>t. (wfs ?cf g ({} \<union> set (drop ?n (mons t))) t \<or> ?is = [] \<and> blank ?cf t)
     \<and> (\<exists>as. mons t = mons s @ as \<and> length as = length ?is) \<and> selmon t = selmon s \<and> same_screen s t)
     (each (\<lambda>_. add_mon E) ?is s)"
      by (rule add_all_wfs [OF _ refl ok g]) (use I wf_wfs [of "cfg E" s g] in blast)
  qed auto
  show ?thesis
    unfolding xinerama_geom_def Let_def
  proof (rule res_bind [OF 1], elim conjE exE)
    fix t as
    assume t: "wfs ?cf g (set (drop ?n (mons t))) t \<or> ?is = [] \<and> blank ?cf t"
      "mons t = mons s @ as" "length as = length ?is" "selmon t = selmon s" "same_screen s t"
    have I2: "wfs ?cf g (set as) t"
    proof -
      have "\<not> (?is = [] \<and> blank ?cf t)"
      proof
        assume b: "?is = [] \<and> blank ?cf t"
        then have "mons s = []" using t(2) by (simp add: blank_def)
        then show False using b u(2) by simp
      qed
      then show ?thesis using t(1,2) by auto
    qed
    have len: "length (mons t) = max ?n (length ?u)" using t(2,3) by auto
    let ?ms = "zip (mons t) ?u"
    have dt: "distinct (mons t)" using I2 wfx_distinct_mons by (fastforce simp: wfs_def)
    have ms1: "set (map fst ?ms) \<subseteq> set (mons t)" by (auto dest: set_zip_leftD)
    have ms2: "good_screen ?cf (bh t) g'" if "g' \<in> set (map snd ?ms)" for g'
      using that u(1) ss(2) t(5) by (auto dest: set_zip_rightD simp: same_screen_def)
    have ms3: "?n \<le> 0 + j" if "j < length ?ms" "fst (?ms ! j) \<in> set as" for j
    proof (rule ccontr)
      assume "\<not> ?n \<le> 0 + j"
      then have "fst (?ms ! j) \<in> set (mons s)" using that(1) t(2) by (simp add: nth_append)
      then show False using that(2) dt t(2) by auto
    qed
    have emp: "set as - set (map fst ?ms) = {}"
    proof (cases "?n \<le> length ?u")
      case True
      then have "map fst ?ms = mons t" using len by simp
      then show ?thesis using t(2) by auto
    next
      case False
      then show ?thesis using t(3) by simp
    qed
    have 2: "res (\<lambda>(d', v). wfs ?cf g {} v \<and> mons v = mons t \<and> selmon v = selmon t \<and> same_screen t v
       \<and> (mons s = [] \<longrightarrow> d')) (each_from 0 (update_mon ?n) ?ms (False, t))"
      by (rule res_mono [OF update_all_wfs [OF I2 ms1 ms2 ms3, unfolded emp]]) (use u(2) t(2) len in auto)
    show "res (\<lambda>(d, t). mons t \<noteq> [] \<and> wf ?cf (t\<lparr>selmon := hd (mons t)\<rparr>) \<and> (\<not> d \<longrightarrow> wf ?cf t) \<and> same_screen s t)
       (do { ds \<leftarrow> each_from 0 (update_mon ?n) ?ms (False, t);
             each (\<lambda>_. remove_mon) [length ?u..<?n] ds })"
    proof (rule res_bind [OF 2], clarify)
      fix d v assume v: "wfs ?cf g {} v" "mons v = mons t" "selmon v = selmon t" "same_screen t v"
        "mons s = [] \<longrightarrow> d"
      show "res (\<lambda>(d, t). mons t \<noteq> [] \<and> wf ?cf (t\<lparr>selmon := hd (mons t)\<rparr>) \<and> (\<not> d \<longrightarrow> wf ?cf t) \<and> same_screen s t)
         (each (\<lambda>_. remove_mon) [length ?u..<?n] (d, v))"
      proof (cases "mons s = []")
        case True
        have "sized g {} (v\<lparr>selmon := hd (mons v)\<rparr>) = v\<lparr>selmon := hd (mons v)\<rparr>" by (simp add: sized_def)
        then have "wf ?cf (v\<lparr>selmon := hd (mons v)\<rparr>)" "mons v \<noteq> []" using v(1) by (auto simp: wfs_def)
        then show ?thesis using True v t(5) by (simp add: same_screen_def)
      next
        case False
        then have "wf ?cf s" using I bl by blast
        then have "selmon v \<in> set (mons v)" using wfx_selmon_in v t by fastforce
        then have W: "wf ?cf v" using wfs_wf v(1) by blast
        have l: "length [length ?u..<?n] < length (mons v)" 
        proof -
          have "0 < length ?u" using u(2) by simp
          then show ?thesis using v(2) len False by (cases "?n \<le> length ?u") simp_all
        qed
        show ?thesis
        proof (rule res_mono [OF remove_all_wf [OF W n l]], clarify)
          fix d' w assume w: "wf ?cf w" "same_screen v w"
          have "mons w \<noteq> []" using wfx_selmon_in [OF w(1)] by auto
          then show "mons w \<noteq> [] \<and> wf ?cf (w\<lparr>selmon := hd (mons w)\<rparr>) \<and> (\<not> d' \<longrightarrow> wf ?cf w) \<and> same_screen s w"
            using w v t wfx_selmon_upd [OF w(1), of "hd (mons w)"] by (simp add: same_screen_def)
        qed
      qed
    qed
  qed
qed

lemma add_mon_new:
  assumes "add_mon E s = Some t"
  obtains k where "mmem t (nextaddr s) = Some k" "m_mw k = 0"
  using assms by (auto simp: add_mon_def createmon_def new_monitor_def split: Option.bind_splits)

lemma single_geom_wf:
  assumes I: "wf (cfg E) s \<or> blank (cfg E) s" and ok: "config_ok (cfg E)" and sw: "0 < sw s"
  shows "res (\<lambda>(d, t). mons t \<noteq> [] \<and> wf (cfg E) (t\<lparr>selmon := hd (mons t)\<rparr>) \<and> (\<not> d \<longrightarrow> wf (cfg E) t)
      \<and> same_screen s t) (single_geom E s)"
proof -
  let ?cf = "cfg E"
  define g where "g = (0 :: int, 0 :: int, sw s, sh s)"
  have sc: "screen_ok ?cf (bh s) (sh s)" using I wfx_screen [of ?cf "{}" s] by (auto simp: blank_def)
  have g: "good_screen ?cf (bh s) g" using sc sw by (simp add: g_def good_screen_def)
  let ?resize = "\<lambda>k. k\<lparr>m_mw := sw s, m_ww := sw s, m_mh := sh s, m_wh := sh s\<rparr> :: monitor"
  have shape: "mon_shape ?cf (bh s) r (?resize k)"
    if "mon_shape ?cf (bh s) r (place_mon 0 g k) \<or> mon_shape ?cf (bh s) r k" for r k
  proof -
    have p: "mon_shape ?cf (bh s) r (place_mon 0 g k)" using place_shape [OF _ g] that by blast
    show ?thesis
      by (rule mon_shape_upd [OF p])
        (use mon_shapeD [OF p] in \<open>auto simp: g_def place_mon_def base_shape_def\<close>)
  qed
  have resized: "res (\<lambda>(d, t). mons t \<noteq> [] \<and> wf ?cf (t\<lparr>selmon := hd (mons t)\<rparr>) \<and> (\<not> d \<longrightarrow> wf ?cf t)
      \<and> same_screen s t)
      (do { v \<leftarrow> modm m ?resize u; v \<leftarrow> updatebarpos m v; Some (True, v) })"
    if u: "wfs ?cf g U u" "U - {m} = {}" "m \<in> set (mons u)" "same_screen s u" for u U m
  proof -
    obtain k where k: "mmem u m = Some k"
      "mon_shape ?cf (bh u) (running u) (place_mon 0 g k) \<or> mon_shape ?cf (bh u) (running u) k"
      by (rule wfs_monitor [OF u(1,3)])
    let ?k = "barpos (bh u) (?resize k)"
    let ?v = "u\<lparr>mmem := (mmem u)(m \<mapsto> ?k)\<rparr>"
    have b: "bh u = bh s" using u(4) by (simp add: same_screen_def)
    have "mon_shape ?cf (bh u) (running u) ?k"
      by (rule barpos_shape) (use shape k(2) b in simp)
    then have "wfs ?cf g {} ?v"
      using wfs_set_mon [OF u(1,3) k(1), of ?k] u(2) by (simp add: keeps_lists_def)
    then have "mons ?v \<noteq> []" "wf ?cf (?v\<lparr>selmon := hd (mons ?v)\<rparr>)" by (simp_all add: wfs_def sized_empty)
    then show ?thesis
      using k(1) u(4) by (simp add: modm_def updatebarpos_def same_screen_def)
  qed
  show ?thesis
  proof (cases "mons s = []")
    case True
    then have B: "blank ?cf s" using I wfx_selmon_in [of ?cf "{}" s] by auto
    let ?P = "\<lambda>t. wfs ?cf g (insert (nextaddr s) {}) t \<and> mons t = mons s @ [nextaddr s] \<and> selmon t = selmon s
     \<and> bh t = bh s \<and> sh t = sh s \<and> sw t = sw s \<and> xlog t = xlog s \<and> nextaddr t = Suc (nextaddr s) \<and> running t = running s"
    have "res ?P (add_mon E s)"
      by (rule add_mon_wfs [OF _ refl ok g]) (use B in blast)
    then obtain t where t: "add_mon E s = Some t" "?P t" unfolding res_iff by blast
    obtain k where k: "mmem t (nextaddr s) = Some k" "m_mw k = 0" using add_mon_new [OF t(1)] by auto
    have m: "mons t = [nextaddr s]" using t(2) True by simp
    have "single_geom E s = do { v \<leftarrow> modm (nextaddr s) ?resize t; v \<leftarrow> updatebarpos (nextaddr s) v; Some (True, v) }"
      using t k sw True m by (simp add: single_geom_def Let_def)
    then show ?thesis
      using resized [of "insert (nextaddr s) {}" t "nextaddr s"] t(2) m by (simp add: same_screen_def)
  next
    case False
    then have W: "wf ?cf s" using I by (auto simp: blank_def)
    let ?m = "hd (mons s)"
    obtain k where k: "mmem s ?m = Some k" using wfx_monitor [OF W, of ?m] False by auto
    have e: "wf ?cf (s\<lparr>selmon := ?m\<rparr>)" by (rule wfx_selmon_upd [OF W]) (use False in simp)
    show ?thesis
    proof (cases "m_mw k \<noteq> sw s \<or> m_mh k \<noteq> sh s")
      case True
      then have "single_geom E s = do { v \<leftarrow> modm ?m ?resize s; v \<leftarrow> updatebarpos ?m v; Some (True, v) }"
        using False k by (simp add: single_geom_def Let_def)
      then show ?thesis using resized [OF wf_wfs [OF W], of ?m] False by simp
    next
      case F: False
      then have "single_geom E s = Some (False, s)" using False k by (simp add: single_geom_def Let_def)
      then show ?thesis using W e False by simp
    qed
  qed
qed

text \<open>
  What \<open>updategeom\<close> needs: the screens that Xinerama reports, or the whole screen when it is
  not active, have room for the configuration.
\<close>

lemma updategeom_wf:
  assumes I: "wf (cfg E) s \<or> blank (cfg E) s" and ok: "config_ok (cfg E)" and sw: "0 < sw s"
    and ss: "screens_ok E (bh s)"
  shows "res (\<lambda>(d, t). wf (cfg E) t \<and> same_screen s t) (updategeom E s)"
proof -
  let ?cf = "cfg E"
  let ?geom = "case XineramaScreens E (xlog s) of Some info \<Rightarrow> xinerama_geom E info s | None \<Rightarrow> single_geom E s"
  have 1: "res (\<lambda>(d, t). mons t \<noteq> [] \<and> wf ?cf (t\<lparr>selmon := hd (mons t)\<rparr>) \<and> (\<not> d \<longrightarrow> wf ?cf t)
      \<and> same_screen s t) ?geom"
  proof (cases "XineramaScreens E (xlog s)")
    case None
    then show ?thesis using single_geom_wf [OF I ok sw] by simp
  next
    case (Some info)
    have i: "info \<noteq> []" "\<And>g. g \<in> set info \<Longrightarrow> good_screen ?cf (bh s) g"
      using ss Some by (auto simp: screens_ok_def good_screen_def split_def)
    show ?thesis using Some xinerama_geom_wf [OF I ok i] by simp
  qed
  show ?thesis
    unfolding updategeom_def
  proof (rule res_bind [OF 1], clarify)
    fix d t assume t: "mons t \<noteq> []" "wf ?cf (t\<lparr>selmon := hd (mons t)\<rparr>)" "\<not> d \<longrightarrow> wf ?cf t" "same_screen s t"
    obtain h hs where h: "mons t = h # hs" using t(1) by (cases "mons t") auto
    obtain m where m: "wintomon E (root E) (t\<lparr>selmon := h\<rparr>) = Some m" "m \<in> set (mons t)"
      using wintomon_total [OF t(2), of E "root E"] h by auto
    have "wf ?cf (t\<lparr>selmon := m\<rparr>)"
      using wfx_selmon_upd [OF t(2), of m] m(2) by simp
    then show "res (\<lambda>(d, t). wf ?cf t \<and> same_screen s t)
       (if d then do { h \<leftarrow> (case mons t of [] \<Rightarrow> None | h # _ \<Rightarrow> Some h);
           let s = t\<lparr>selmon := h\<rparr>; m \<leftarrow> wintomon E (root E) s; Some (True, s\<lparr>selmon := m\<rparr>) }
        else Some (False, t))"
      using t(3,4) h m(1) by (auto simp: Let_def same_screen_def)
  qed
qed

end
