(* ===== verification/Manage.thy ===== *)
theory Manage
  imports Screens
begin

text \<open>
  The life of a client: \<open>manage\<close> makes one for a window, by its properties and the rules of
  the configuration, and \<open>unmanage\<close> destroys it. Then the processes the window manager
  starts and ends, and the end of the program.

  The list \<open>autostart\<close> is flat: each command is a list of words with a null pointer after
  it, and a null pointer in place of a command ends the list.
\<close>

section \<open>Operations\<close>

text \<open>The strings that the rules are matched with, and one rule.\<close>

definition matches :: "string \<Rightarrow> string \<Rightarrow> string \<Rightarrow> rule \<Rightarrow> bool" where
  "matches name cl inst r \<longleftrightarrow>
     (case r_title r of None \<Rightarrow> True | Some t \<Rightarrow> strstr name t)
     \<and> (case r_class r of None \<Rightarrow> True | Some t \<Rightarrow> strstr cl t)
     \<and> (case r_instance r of None \<Rightarrow> True | Some t \<Rightarrow> strstr inst t)"

definition apply_rule :: "cid \<Rightarrow> rule \<Rightarrow> wm \<Rightarrow> wm option" where
  "apply_rule c r s =
     do {
       s \<leftarrow> modc c (\<lambda>k. k\<lparr>c_isfloating := r_isfloating r, c_tags := c_tags k OR r_tags r\<rparr>) s;
       m \<leftarrow> firstO (\<lambda>m. do { k \<leftarrow> mmem s m; Some (m_num k = r_monitor r) }) (mons s);
       case m of
         Some m \<Rightarrow> modc c (\<lambda>k. k\<lparr>c_mon := m\<rparr>) s
       | None \<Rightarrow> Some s }"

definition applyrules :: "xenv \<Rightarrow> cid \<Rightarrow> wm \<Rightarrow> wm option" where
  "applyrules E c s =
     do {
       s \<leftarrow> modc c (\<lambda>k. k\<lparr>c_isfloating := False, c_tags := 0\<rparr>) s;
       k \<leftarrow> clis s c;
       let (nm, cl) = (case XGetClassHint E (xlog s) (c_win k) of
                         None \<Rightarrow> (None, None) | Some p \<Rightarrow> p);
       let inst = (case nm of Some t \<Rightarrow> t | None \<Rightarrow> broken);
       let cl = (case cl of Some t \<Rightarrow> t | None \<Rightarrow> broken);
       s \<leftarrow> each (\<lambda>r s. if matches (c_name k) cl inst r then apply_rule c r s else Some s)
             (rules (cfg E)) s;
       k \<leftarrow> clis s c;
       m \<leftarrow> mmem s (c_mon k);
       let t = c_tags k AND TAGMASK (cfg E);
       modc c (\<lambda>k. k\<lparr>c_tags := (if t \<noteq> 0 then t else tagsel m)\<rparr>) s }"

text \<open>
  A new client is zeroed memory. Its monitor is a null pointer until \<open>manage\<close> sets it, which
  it does before any operation reads it; here it is the selected one from the start.
\<close>

definition zero_client :: "mid \<Rightarrow> window \<Rightarrow> client" where
  "zero_client m w =
     \<lparr>c_name = '''', c_mina = Fin 0, c_maxa = Fin 0, c_x = 0, c_y = 0, c_w = 0, c_h = 0,
      c_oldx = 0, c_oldy = 0, c_oldw = 0, c_oldh = 0, c_basew = 0, c_baseh = 0, c_incw = 0,
      c_inch = 0, c_maxw = 0, c_maxh = 0, c_minw = 0, c_minh = 0, c_hintsvalid = False,
      c_bw = 0, c_oldbw = 0, c_tags = 0, c_ismax = False, c_wasfloating = False,
      c_isfixed = False, c_isfloating = False, c_isurgent = False, c_neverfocus = False,
      c_oldstate = False, c_isfullscreen = False, c_issticky = False, c_beingmoved = False,
      c_mon = m, c_win = w\<rparr>"

definition alloc_client :: "window \<Rightarrow> wm \<Rightarrow> cid \<times> wm" where
  "alloc_client w s =
     (nextaddr s, s\<lparr>nextaddr := nextaddr s + 1,
                    clis := (clis s)(nextaddr s \<mapsto> zero_client (selmon s) w)\<rparr>)"

definition free_client :: "cid \<Rightarrow> wm \<Rightarrow> wm option" where
  "free_client c s = do { _ \<leftarrow> clis s c; Some (s\<lparr>clis := (clis s)(c := None)\<rparr>) }"

text \<open>The geometry of a new client: what the window has, moved onto its monitor.\<close>

definition initial_geometry :: "wattr \<Rightarrow> client \<Rightarrow> client" where
  "initial_geometry wa k =
     k\<lparr>c_x := wa_x wa, c_y := wa_y wa, c_w := wa_width wa, c_h := wa_height wa,
       c_oldx := wa_x wa, c_oldy := wa_y wa, c_oldw := wa_width wa, c_oldh := wa_height wa,
       c_oldbw := wa_border_width wa\<rparr>"

definition fit_monitor :: "config \<Rightarrow> monitor \<Rightarrow> client \<Rightarrow> client" where
  "fit_monitor cf m k =
     (let x = (if c_x k + WIDTH k > m_wx m + m_ww m then m_wx m + m_ww m - WIDTH k else c_x k);
          y = (if c_y k + HEIGHT k > m_wy m + m_wh m then m_wy m + m_wh m - HEIGHT k else c_y k)
      in k\<lparr>c_x := max x (m_wx m), c_y := max y (m_wy m), c_bw := borderpx cf\<rparr>)"

definition center_on :: "monitor \<Rightarrow> client \<Rightarrow> client" where
  "center_on m k =
     k\<lparr>c_x := m_mx m + cdiv (m_mw m - WIDTH k) 2, c_y := m_my m + cdiv (m_mh m - HEIGHT k) 2\<rparr>"

text \<open>
  \<open>manage\<close> up to the point where the client goes into the lists (\<open>prepare\<close>), and the rest
  (\<open>enter\<close>).
\<close>

definition prepare :: "xenv \<Rightarrow> cid \<Rightarrow> window \<Rightarrow> wattr \<Rightarrow> wm \<Rightarrow> wm option" where
  "prepare E c w wa s =
     do {
       s \<leftarrow> modc c (initial_geometry wa) s;
       s \<leftarrow> updatetitle E c s;
       let trans = XGetTransientForHint E (xlog s) w;
       t \<leftarrow> (case trans of None \<Rightarrow> Some None | Some v \<Rightarrow> wintoclient s v);
       s \<leftarrow> (case t of
              Some t \<Rightarrow> do {
                j \<leftarrow> clis s t;
                modc c (\<lambda>k. k\<lparr>c_mon := c_mon j, c_tags := c_tags j\<rparr>) s }
            | None \<Rightarrow> do {
                s \<leftarrow> modc c (\<lambda>k. k\<lparr>c_mon := selmon s\<rparr>) s;
                applyrules E c s });
       k \<leftarrow> clis s c;
       m \<leftarrow> mmem s (c_mon k);
       s \<leftarrow> modc c (fit_monitor (cfg E) m) s;
       let s = emit (XConfigureWindow w [CWBorderWidth (borderpx (cfg E))]) s;
       let s = emit (XSetWindowBorder w SchemeNorm ColBorder) s;
       s \<leftarrow> configure c s;
       s \<leftarrow> updatewindowtype E c s;
       s \<leftarrow> updatesizehints E c s;
       s \<leftarrow> updatewmhints E c s;
       s \<leftarrow> updatemotifhints E c s;
       k \<leftarrow> clis s c;
       m \<leftarrow> mmem s (c_mon k);
       s \<leftarrow> modc c (center_on m) s;
       s \<leftarrow> grabbuttons E c False (emit (XSelectInput w True) s);
       s \<leftarrow> modc c (\<lambda>k. k\<lparr>c_wasfloating := False, c_ismax := False\<rparr>) s;
       let tr = (trans \<noteq> None \<and> trans \<noteq> Some XNone);
       s \<leftarrow> modc c (\<lambda>k. if c_isfloating k then k
              else k\<lparr>c_isfloating := tr \<or> c_isfixed k, c_oldstate := tr \<or> c_isfixed k\<rparr>) s;
       k \<leftarrow> clis s c;
       let s = (if c_isfloating k then emit (XRaiseWindow (c_win k)) s else s);
       updateclientdesktop E c s }"

definition enter :: "xenv \<Rightarrow> cid \<Rightarrow> window \<Rightarrow> wm \<Rightarrow> wm option" where
  "enter E c w s =
     do {
       s \<leftarrow> attachx E c s;
       s \<leftarrow> attachstack c s;
       k \<leftarrow> clis s c;
       let s = emit (XChangeProperty RootWin (netatom E NetClientList) Append [int (c_win k)]) s;
       let s = emit (XMoveResizeWindow (c_win k) (c_x k + 2 * sw s) (c_y k) (c_w k) (c_h k)) s;
       s \<leftarrow> setclientstate E c NormalState s;
       s \<leftarrow> (if c_mon k = selmon s
            then do { m \<leftarrow> selm s; unfocus E (m_sel m) False s } else Some s);
       s \<leftarrow> modm (c_mon k) (\<lambda>m. m\<lparr>m_sel := Some c\<rparr>) s;
       s \<leftarrow> arrange E (Some (c_mon k)) s;
       k \<leftarrow> clis s c;
       let s = emit (XMapWindow (c_win k)) s;
       s \<leftarrow> focus E None s;
       m \<leftarrow> selm s;
       warp E (m_sel m) s }"

definition manage :: "xenv \<Rightarrow> window \<Rightarrow> wattr \<Rightarrow> wm \<Rightarrow> wm option" where
  "manage E w wa s =
     do {
       let (c, s) = alloc_client w s;
       if getatomprop E s w (netatom E NetWMWindowType) = netatom E NetWMWindowTypeDesktop
       then free_client c (emit (XLowerWindow w) (emit (XMapWindow w) s))
       else do {
         s \<leftarrow> prepare E c w wa s;
         enter E c w s } }"

definition unmanage :: "xenv \<Rightarrow> cid \<Rightarrow> bool \<Rightarrow> wm \<Rightarrow> wm option" where
  "unmanage E c destroyed s =
     do {
       k \<leftarrow> clis s c;
       let m = c_mon k;
       s \<leftarrow> detach E c s;
       s \<leftarrow> detachstack c s;
       k \<leftarrow> clis s c;
       s \<leftarrow> (if \<not> destroyed then
              do {
                let s = fold emit [XGrabServer, XSetErrorHandler HandlerDummy,
                          XSelectInput (c_win k) False,
                          XConfigureWindow (c_win k) [CWBorderWidth (c_oldbw k)],
                          XUngrabButton (c_win k)] s;
                s \<leftarrow> setclientstate E c WithdrawnState s;
                Some (fold emit [XSync, XSetErrorHandler HandlerXerror, XUngrabServer] s) }
            else Some s);
       s \<leftarrow> free_client c s;
       s \<leftarrow> focus E None s;
       s \<leftarrow> updateclientlist E s;
       s \<leftarrow> arrange E (Some m) s;
       m \<leftarrow> selm s;
       warp E (m_sel m) s }"

definition killclient :: "xenv \<Rightarrow> 32 word \<Rightarrow> wm \<Rightarrow> wm option" where
  "killclient E ui s =
     do {
       m \<leftarrow> selm s;
       case m_sel m of
         None \<Rightarrow> Some s
       | Some x \<Rightarrow>
           if ui = 0 then killthis E x s
           else each (\<lambda>c s. do {
             v \<leftarrow> ISVISIBLE s c;
             m \<leftarrow> selm s;
             if \<not> v \<or> ui = 1 \<and> m_sel m = Some c then Some s else killthis E c s }) (m_clients m) s }"

definition killclientev :: "xenv \<Rightarrow> cid option \<Rightarrow> wm \<Rightarrow> wm option" where
  "killclientev E v s = (case v of None \<Rightarrow> Some s | Some c \<Rightarrow> killthis E c s)"

text \<open>The two passes of \<open>scan\<close> over the windows that exist: transient windows come last.\<close>

definition scan_window :: "xenv \<Rightarrow> bool \<Rightarrow> window \<Rightarrow> wm \<Rightarrow> wm option" where
  "scan_window E transients w s =
     (case XGetWindowAttributes E (xlog s) w of
        None \<Rightarrow> Some s
      | Some wa \<Rightarrow>
          let tr = XGetTransientForHint E (xlog s) w \<noteq> None;
              shown = (wa_viewable wa \<or> getstate E s w = IconicState)
          in if \<not> transients then
               (if wa_override_redirect wa \<or> tr then Some s
                else if shown then manage E w wa s else Some s)
             else (if tr \<and> shown then manage E w wa s else Some s))"

definition scan :: "xenv \<Rightarrow> wm \<Rightarrow> wm option" where
  "scan E s =
     (case XQueryTree E (xlog s) of
        None \<Rightarrow> Some s
      | Some wins \<Rightarrow> do {
          s \<leftarrow> each (scan_window E False) wins s;
          each (scan_window E True) wins s })"

section \<open>Processes\<close>

text \<open>
  The commands of such a list, where \<open>cur\<close> are the words of the current one read so far. A
  list without its end is read past the end.
\<close>

fun autostart_commands :: "string list \<Rightarrow> string option list \<Rightarrow> string list list option" where
  "autostart_commands cur [] = None"
| "autostart_commands cur (Some w # ws) = autostart_commands (cur @ [w]) ws"
| "autostart_commands cur (None # ws) =
     (if cur = [] then Some [] else map_option ((#) cur) (autostart_commands [] ws))"

definition fork_exec :: "xenv \<Rightarrow> string list \<Rightarrow> wm \<Rightarrow> int \<times> wm" where
  "fork_exec E cmd s = (fork_pid E (xlog s), emit (ForkExec cmd) s)"

definition autostart_exec :: "xenv \<Rightarrow> wm \<Rightarrow> wm option" where
  "autostart_exec E s =
     do {
       cmds \<leftarrow> autostart_commands [] (autostart (cfg E));
       each (\<lambda>cmd s. let (pid, s) = fork_exec E cmd s
                     in Some (s\<lparr>autostart_pids := autostart_pids s @ [pid]\<rparr>)) cmds s }"

text \<open>In the child of \<open>spawn\<close> the command takes over; the parent goes on.\<close>

definition spawn :: "xenv \<Rightarrow> string list \<Rightarrow> wm \<Rightarrow> wm option" where
  "spawn E cmd s = Some (snd (fork_exec E cmd s))"

definition quit :: "int \<Rightarrow> wm \<Rightarrow> wm" where
  "quit i s =
     (let s = fold (\<lambda>p s. if 0 < p then emit (WaitPid p) (emit (KillPid p) s) else s) (autostart_pids s) s;
          s = (if i \<noteq> 0 then s\<lparr>restart := True\<rparr> else s)
      in s\<lparr>running := False\<rparr>)"

definition sighup :: "wm \<Rightarrow> wm" where "sighup s = quit 1 s"
definition sigterm :: "wm \<Rightarrow> wm" where "sigterm s = quit 0 s"

text \<open>
  At the end every client is given up, monitor by monitor. Each \<open>unmanage\<close> takes the first
  client off the focus list of its monitor, so that the loop runs once per client; the
  number of clients of the monitor is the fuel.
\<close>

fun unmanage_all :: "xenv \<Rightarrow> nat \<Rightarrow> mid \<Rightarrow> wm \<Rightarrow> wm option" where
  "unmanage_all E n m s =
     do {
       k \<leftarrow> mmem s m;
       case (m_stack k, n) of
         ([], _) \<Rightarrow> Some s
       | (_ # _, 0) \<Rightarrow> None
       | (c # _, Suc i) \<Rightarrow> do { s \<leftarrow> unmanage E c False s; unmanage_all E i m s } }"

declare unmanage_all.simps [simp del]

definition cleanup :: "xenv \<Rightarrow> wm \<Rightarrow> wm option" where
  "cleanup E s =
     do {
       s \<leftarrow> view E (NOT 0) s;
       s \<leftarrow> modm (selmon s) (\<lambda>m. m\<lparr>m_lt := (m_lt m)[m_sellt m := LtFoo]\<rparr>) s;
       s \<leftarrow> each (\<lambda>m s. do { k \<leftarrow> mmem s m; unmanage_all E (length (m_stack k)) m s }) (mons s) s;
       s \<leftarrow> each cleanupmon (mons s) (emit XUngrabKey s);
       Some (fold emit [XDestroyWindow (wmcheckwin s), XSync, XSetInputFocusPointerRoot,
               XDeleteProperty RootWin (netatom E NetActiveWindow)] s) }"

end
