(* ===== verification/Handlers.thy ===== *)
theory Handlers
  imports Manage
begin

text \<open>
  The event handlers that are also called from inside the mouse commands
  (\<open>configurerequest\<close>, \<open>expose\<close>, \<open>maprequest\<close>) and the handlers of the events about one window
  or about the keyboard. A mask of values with the values themselves is a record of options.
\<close>

section \<open>Operations\<close>

text \<open>A request that a floating client makes for its own geometry.\<close>

definition request_geometry :: "cfgreq \<Rightarrow> monitor \<Rightarrow> client \<Rightarrow> client" where
  "request_geometry r m k =
     (let k = (case cr_x r of Some x \<Rightarrow> k\<lparr>c_oldx := c_x k, c_x := m_mx m + x\<rparr> | None \<Rightarrow> k);
          k = (case cr_y r of Some y \<Rightarrow> k\<lparr>c_oldy := c_y k, c_y := m_my m + y\<rparr> | None \<Rightarrow> k);
          k = (case cr_width r of Some w \<Rightarrow> k\<lparr>c_oldw := c_w k, c_w := w\<rparr> | None \<Rightarrow> k);
          k = (case cr_height r of Some h \<Rightarrow> k\<lparr>c_oldh := c_h k, c_h := h\<rparr> | None \<Rightarrow> k);
          k = (if c_x k + c_w k > m_mx m + m_mw m \<and> c_isfloating k
               then k\<lparr>c_x := m_mx m + (cdiv (m_mw m) 2 - cdiv (WIDTH k) 2)\<rparr> else k)
      in if c_y k + c_h k > m_my m + m_mh m \<and> c_isfloating k
         then k\<lparr>c_y := m_my m + (cdiv (m_mh m) 2 - cdiv (HEIGHT k) 2)\<rparr> else k)"

definition request_changes :: "cfgreq \<Rightarrow> wchange list" where
  "request_changes r =
     (case cr_x r of Some v \<Rightarrow> [CWX v] | None \<Rightarrow> [])
     @ (case cr_y r of Some v \<Rightarrow> [CWY v] | None \<Rightarrow> [])
     @ (case cr_width r of Some v \<Rightarrow> [CWWidth v] | None \<Rightarrow> [])
     @ (case cr_height r of Some v \<Rightarrow> [CWHeight v] | None \<Rightarrow> [])
     @ (case cr_border_width r of Some v \<Rightarrow> [CWBorderWidth v] | None \<Rightarrow> [])
     @ (case cr_above r of Some v \<Rightarrow> [CWSibling v] | None \<Rightarrow> [])
     @ (case cr_detail r of Some v \<Rightarrow> [CWStackMode v] | None \<Rightarrow> [])"

definition configurerequest :: "xenv \<Rightarrow> window \<Rightarrow> cfgreq \<Rightarrow> wm \<Rightarrow> wm option" where
  "configurerequest E w r s =
     do {
       co \<leftarrow> wintoclient s w;
       s \<leftarrow> (case co of
              None \<Rightarrow> Some (emit (XConfigureWindow w (request_changes r)) s)
            | Some c \<Rightarrow> do {
                k \<leftarrow> clis s c;
                case cr_border_width r of
                  Some b \<Rightarrow> modc c (\<lambda>k. k\<lparr>c_bw := b\<rparr>) s
                | None \<Rightarrow> do {
                    a \<leftarrow> (if c_isfloating k then Some None
                         else do { m \<leftarrow> selm s; arrange_of E m });
                    if a = None then
                      do {
                        m \<leftarrow> mmem s (c_mon k);
                        s \<leftarrow> modc c (request_geometry r m) s;
                        s \<leftarrow> (if (cr_x r \<noteq> None \<or> cr_y r \<noteq> None)
                                \<and> \<not> (cr_width r \<noteq> None \<or> cr_height r \<noteq> None)
                             then configure c s else Some s);
                        v \<leftarrow> ISVISIBLE s c;
                        k \<leftarrow> clis s c;
                        Some (if v then emit (XMoveResizeWindow (c_win k) (c_x k) (c_y k) (c_w k) (c_h k)) s
                              else s) }
                    else configure c s } });
       Some (emit XSync s) }"

definition expose :: "xenv \<Rightarrow> window \<Rightarrow> int \<Rightarrow> wm \<Rightarrow> wm option" where
  "expose E w count s =
     (if count = 0 then do { m \<leftarrow> wintomon E w s; drawbar E m s } else Some s)"

definition maprequest :: "xenv \<Rightarrow> window \<Rightarrow> wm \<Rightarrow> wm option" where
  "maprequest E w s =
     (case XGetWindowAttributes E (xlog s) w of
        None \<Rightarrow> Some s
      | Some wa \<Rightarrow>
          if wa_override_redirect wa then Some s
          else do {
            c \<leftarrow> wintoclient s w;
            if c = None then manage E w wa s else Some s })"

definition destroynotify :: "xenv \<Rightarrow> window \<Rightarrow> wm \<Rightarrow> wm option" where
  "destroynotify E w s =
     do {
       c \<leftarrow> wintoclient s w;
       case c of None \<Rightarrow> Some s | Some c \<Rightarrow> unmanage E c True s }"

definition unmapnotify :: "xenv \<Rightarrow> window \<Rightarrow> bool \<Rightarrow> wm \<Rightarrow> wm option" where
  "unmapnotify E w send_event s =
     do {
       c \<leftarrow> wintoclient s w;
       case c of
         None \<Rightarrow> Some s
       | Some c \<Rightarrow> if send_event then setclientstate E c WithdrawnState s else unmanage E c False s }"

definition mappingnotify :: "xenv \<Rightarrow> bool \<Rightarrow> wm \<Rightarrow> wm option" where
  "mappingnotify E keyboard s =
     (let s = emit XRefreshKeyboardMapping s in Some (if keyboard then grabkeys E s else s))"

text \<open>The \<open>switch\<close> over the property that changed, and the tests after it.\<close>

definition property_switch :: "xenv \<Rightarrow> cid \<Rightarrow> atom \<Rightarrow> wm \<Rightarrow> wm option" where
  "property_switch E c a s =
     (if a = XA_WM_TRANSIENT_FOR then
        do {
          k \<leftarrow> clis s c;
          if c_isfloating k then Some s
          else case XGetTransientForHint E (xlog s) (c_win k) of
            None \<Rightarrow> Some s
          | Some v \<Rightarrow> do {
              t \<leftarrow> wintoclient s v;
              s \<leftarrow> modc c (\<lambda>k. k\<lparr>c_isfloating := t \<noteq> None\<rparr>) s;
              if t \<noteq> None then arrange E (Some (c_mon k)) s else Some s } }
      else if a = XA_WM_NORMAL_HINTS then modc c (\<lambda>k. k\<lparr>c_hintsvalid := False\<rparr>) s
      else if a = XA_WM_HINTS then
        do {
          s \<leftarrow> updatewmhints E c s;
          s \<leftarrow> drawbars E s;
          k \<leftarrow> clis s c;
          Some (if c_isurgent k then emit (XSetWindowBorder (c_win k) SchemeSel ColFg) s else s) }
      else Some s)"

definition propertynotify :: "xenv \<Rightarrow> window \<Rightarrow> atom \<Rightarrow> bool \<Rightarrow> wm \<Rightarrow> wm option" where
  "propertynotify E w a deleted s =
     (if w = root E \<and> a = XA_WM_NAME then updatestatus E s
      else if deleted then Some s
      else do {
        co \<leftarrow> wintoclient s w;
        case co of
          None \<Rightarrow> Some s
        | Some c \<Rightarrow> do {
            s \<leftarrow> property_switch E c a s;
            s \<leftarrow> (if a = XA_WM_NAME \<or> a = netatom E NetWMName then
                   do {
                     s \<leftarrow> updatetitle E c s;
                     k \<leftarrow> clis s c;
                     m \<leftarrow> mmem s (c_mon k);
                     if m_sel m = Some c then drawbar E (c_mon k) s else Some s }
                 else Some s);
            s \<leftarrow> (if a = netatom E NetWMWindowType then updatewindowtype E c s else Some s);
            if a = motifatom E then updatemotifhints E c s else Some s } })"

text \<open>
  A client asks for another tag: the desktop index of the message is stored as a tag mask.
\<close>

definition data :: "int list \<Rightarrow> nat \<Rightarrow> int" where
  "data d i = (if i < length d then d ! i else 0)"

definition clientmessage :: "xenv \<Rightarrow> window \<Rightarrow> atom \<Rightarrow> int list \<Rightarrow> wm \<Rightarrow> wm option" where
  "clientmessage E w mtype d s =
     do {
       co \<leftarrow> wintoclient s w;
       case co of
         None \<Rightarrow> Some s
       | Some c \<Rightarrow>
           if mtype = netatom E NetWMState then
             do {
               k \<leftarrow> clis s c;
               s \<leftarrow> (if data d 1 = netatom E NetWMFullscreen \<or> data d 2 = netatom E NetWMFullscreen
                    then setfullscreen E c (data d 0 = 1 \<or> data d 0 = 2 \<and> \<not> c_isfullscreen k) s
                    else Some s);
               k \<leftarrow> clis s c;
               if data d 1 = netatom E NetWMSticky \<or> data d 2 = netatom E NetWMSticky
               then setsticky E c (data d 0 = 1 \<or> data d 0 = 2 \<and> \<not> c_issticky k) s
               else Some s }
           else if mtype = netatom E NetActiveWindow then
             do {
               k \<leftarrow> clis s c;
               case find (\<lambda>i. bit (c_tags k) i) [0..<ntags (cfg E)] of
                 None \<Rightarrow> Some s
               | Some i \<Rightarrow> do {
                   s \<leftarrow> view E (push_bit i 1) (s\<lparr>selmon := c_mon k\<rparr>);
                   s \<leftarrow> focus E (Some c) s;
                   restack E (selmon s) s } }
           else if mtype = netatom E NetWMDesktop then
             do {
               s \<leftarrow> modc c (\<lambda>k. k\<lparr>c_tags := word_of_int (data d 0)\<rparr>) s;
               k \<leftarrow> clis s c;
               arrange E (Some (c_mon k)) s }
           else if mtype = netatom E NetCloseWindow then killclientev E (Some c) s
           else Some s }"

text \<open>The size of the root window changed.\<close>

definition refit_fullscreen :: "xenv \<Rightarrow> mid \<Rightarrow> wm \<Rightarrow> wm option" where
  "refit_fullscreen E m s =
     do {
       k \<leftarrow> mmem s m;
       s \<leftarrow> each (\<lambda>c s. do {
              j \<leftarrow> clis s c;
              if c_isfullscreen j then resizeclient E c (m_mx k) (m_my k) (m_mw k) (m_mh k) s
              else Some s }) (m_clients k) s;
       Some (emit (XMoveResizeWindow (m_barwin k) (m_wx k) (m_by k) (m_ww k) (bh s)) s) }"

definition configurenotify :: "xenv \<Rightarrow> window \<Rightarrow> int \<Rightarrow> int \<Rightarrow> wm \<Rightarrow> wm option" where
  "configurenotify E w width height s =
     (if w \<noteq> root E then Some s
      else do {
        let dirty = (sw s \<noteq> width \<or> sh s \<noteq> height);
        (geom, s) \<leftarrow> updategeom E (s\<lparr>sw := width, sh := height\<rparr>);
        if geom \<or> dirty then
          do {
            s \<leftarrow> updatebars E (emit (DrwResize (sw s) (bh s)) s);
            s \<leftarrow> each (refit_fullscreen E) (mons s) s;
            s \<leftarrow> focus E None s;
            arrange E None s }
        else Some s })"

end
