(* ===== verification/Mouse.thy ===== *)
theory Mouse
  imports Handlers
begin

text \<open>
  The commands that follow the pointer while a button is held: \<open>movemouse\<close>, \<open>placemouse\<close> and
  \<open>resizemouse\<close>. Each reads events until the button is released; \<open>XMaskEvents\<close> of the
  environment is the list of the events that arrive from then on, and a list without a
  release keeps the command waiting for ever, which is \<^term>\<open>None\<close>.

  The three loops differ in what they do with a motion event; \<open>drag\<close> is the loop, with that
  step and its local variables as parameters. Time stamps are of type \<open>unsigned long\<close>.
\<close>

section \<open>Operations\<close>

definition elapsed :: "int \<Rightarrow> int \<Rightarrow> int" where
  "elapsed t t0 = (t - t0) mod 2 ^ 64"

fun drag ::
  "xenv \<Rightarrow> int \<Rightarrow> (int \<Rightarrow> int \<Rightarrow> 'a \<times> wm \<Rightarrow> ('a \<times> wm) option) \<Rightarrow> xevent list \<Rightarrow> int \<Rightarrow> 'a \<times> wm \<Rightarrow>
   ((int \<times> int \<times> int \<times> int) \<times> 'a \<times> wm) option" where
  "drag E period f [] t0 r = None"
| "drag E period f (e # es) t0 r =
     (case e of
        ButtonRelease x y xr yr \<Rightarrow> Some ((x, y, xr, yr), r)
      | MotionNotify x y xr yr t \<Rightarrow>
          if elapsed t t0 \<le> period then drag E period f es t0 r
          else do { r \<leftarrow> f x y r; drag E period f es t r }
      | ConfigureRequest w q \<Rightarrow>
          do { s \<leftarrow> configurerequest E w q (snd r); drag E period f es t0 (fst r, s) }
      | Expose w n \<Rightarrow> do { s \<leftarrow> expose E w n (snd r); drag E period f es t0 (fst r, s) }
      | MapRequest w \<Rightarrow> do { s \<leftarrow> maprequest E w (snd r); drag E period f es t0 (fst r, s) }
      | _ \<Rightarrow> drag E period f es t0 r)"

text \<open>\<open>1000 / refreshrate\<close>: a rate of zero divides by zero.\<close>

definition period :: "config \<Rightarrow> int option" where
  "period cf = (if refreshrate cf = 0 then None else Some (cdiv 1000 (refreshrate cf)))"

text \<open>Snapping of one coordinate to the two ends of the window area.\<close>

definition snap_to :: "int \<Rightarrow> int \<Rightarrow> int \<Rightarrow> int \<Rightarrow> int \<Rightarrow> int" where
  "snap_to sn lo len v sz =
     (if \<bar>lo - v\<bar> < sn then lo
      else if \<bar>lo + len - (v + sz)\<bar> < sn then lo + len - sz
      else v)"

definition move_step ::
  "xenv \<Rightarrow> cid \<Rightarrow> int \<Rightarrow> int \<Rightarrow> int \<Rightarrow> int \<Rightarrow> int \<Rightarrow> int \<Rightarrow> unit \<times> wm \<Rightarrow> (unit \<times> wm) option" where
  "move_step E c ocx ocy x y ex ey r =
     do {
       let s = snd r;
       let sn = snap (cfg E);
       k \<leftarrow> clis s c;
       m \<leftarrow> selm s;
       let nx = snap_to sn (m_wx m) (m_ww m) (ocx + (ex - x)) (WIDTH k);
       let ny = snap_to sn (m_wy m) (m_wh m) (ocy + (ey - y)) (HEIGHT k);
       a \<leftarrow> arrange_of E m;
       s \<leftarrow> (if \<not> c_isfloating k \<and> a \<noteq> None \<and> (\<bar>nx - c_x k\<bar> > sn \<or> \<bar>ny - c_y k\<bar> > sn)
            then togglefloating E s else Some s);
       k \<leftarrow> clis s c;
       m \<leftarrow> selm s;
       a \<leftarrow> arrange_of E m;
       s \<leftarrow> (if a = None \<or> c_isfloating k then resize E c nx ny (c_w k) (c_h k) True s else Some s);
       Some ((), s) }"

text \<open>A client that was moved to another monitor's area goes to that monitor.\<close>

definition follow_rect :: "xenv \<Rightarrow> cid \<Rightarrow> wm \<Rightarrow> wm option" where
  "follow_rect E c s =
     do {
       k \<leftarrow> clis s c;
       m \<leftarrow> recttomon (c_x k) (c_y k) (c_w k) (c_h k) s;
       if m \<noteq> selmon s then
         do { s \<leftarrow> sendmon E c m s; focus E None (s\<lparr>selmon := m\<rparr>) }
       else Some s }"

definition movemouse :: "xenv \<Rightarrow> wm \<Rightarrow> wm option" where
  "movemouse E s =
     do {
       m \<leftarrow> selm s;
       case m_sel m of
         None \<Rightarrow> Some s
       | Some c \<Rightarrow> do {
           k \<leftarrow> clis s c;
           if c_isfullscreen k then Some s
           else do {
             s \<leftarrow> restack E (selmon s) s;
             k \<leftarrow> clis s c;
             let s = emit (XGrabPointer CurMove) s;
             if \<not> XGrabPointerOk E (xlog s) then Some s
             else case getrootptr E s of
               None \<Rightarrow> Some s
             | Some (x, y) \<Rightarrow> do {
                 (_, _, s) \<leftarrow> drag E 16 (move_step E c (c_x k) (c_y k) x y)
                                (XMaskEvents E (xlog s)) 0 ((), s);
                 follow_rect E c (emit XUngrabPointer s) } } } }"

text \<open>The local variables of \<open>placemouse\<close> that a motion event changes.\<close>

record place =
  pl_nx :: int
  pl_ny :: int
  freemove :: bool
  prevr :: cid
  prevattach :: int

text \<open>Whether the client goes above (1) or below (0) the client under the pointer.\<close>

definition place_side :: "client \<Rightarrow> int \<Rightarrow> int \<Rightarrow> int" where
  "place_side k px py =
     (if xless (fquot (c_x k + c_w k - px) (c_w k)) (fquot (c_y k + c_h k - py) (c_h k))
      then (if \<bar>c_y k - py\<bar> < cdiv (c_h k) 2 then 1 else 0)
      else if \<bar>c_x k - px\<bar> < cdiv (c_w k) 2 then 1 else 0)"

text \<open>The client goes next to \<open>r\<close> in the client list of the monitor of \<open>r\<close>.\<close>

definition place_at :: "xenv \<Rightarrow> cid \<Rightarrow> cid \<Rightarrow> int \<Rightarrow> wm \<Rightarrow> wm option" where
  "place_at E c r side s =
     do {
       s \<leftarrow> detachstack c s;
       s \<leftarrow> detach E c s;
       k \<leftarrow> clis s c;
       rk \<leftarrow> clis s r;
       s \<leftarrow> (if c_mon k \<noteq> c_mon rk then
              do {
                s \<leftarrow> arrangemon E (c_mon k) s;
                m \<leftarrow> mmem s (c_mon rk);
                modc c (\<lambda>k. k\<lparr>c_tags := tagsel m\<rparr>) s }
            else Some s);
       s \<leftarrow> modc c (\<lambda>k. k\<lparr>c_mon := c_mon rk\<rparr>) s;
       s \<leftarrow> modm (c_mon rk) (\<lambda>m. m\<lparr>m_sel := Some r\<rparr>) s;
       m \<leftarrow> mmem s (c_mon rk);
       s \<leftarrow> (if r \<in> set (m_clients m) then
              modm (c_mon rk) (\<lambda>m. m\<lparr>m_clients :=
                if side \<noteq> 0 then insert_before r c (m_clients m)
                else insert_after r c (m_clients m)\<rparr>) s
            else None);
       s \<leftarrow> attachstack c s;
       arrangemon E (c_mon rk) s }"

definition place_step ::
  "xenv \<Rightarrow> int \<Rightarrow> cid \<Rightarrow> wattr \<Rightarrow> int \<Rightarrow> int \<Rightarrow> int \<Rightarrow> int \<Rightarrow> place \<times> wm \<Rightarrow> (place \<times> wm) option" where
  "place_step E i c wa x y ex ey ps =
     do {
       let (p, s) = ps;
       let sn = snap (cfg E);
       let nx = wa_x wa + (ex - x);
       let ny = wa_y wa + (ey - y);
       let fm = (freemove p \<or> \<bar>nx - wa_x wa\<bar> > sn \<or> \<bar>ny - wa_y wa\<bar> > sn);
       let p = p\<lparr>pl_nx := nx, pl_ny := ny, freemove := fm\<rparr>;
       k \<leftarrow> clis s c;
       let s = (if fm then emit (XMoveWindow (c_win k) nx ny) s else s);
       m \<leftarrow> recttomon ex ey 1 1 s;
       let s = (if m \<noteq> selmon s then s\<lparr>selmon := m\<rparr> else s);
       let (px, py) = (if i = 1 then (nx + cdiv (wa_width wa) 2, ny + cdiv (wa_height wa) 2)
                       else (ex, ey));
       r \<leftarrow> recttoclient px py 1 1 s;
       case r of
         None \<Rightarrow> Some (p, s)
       | Some r \<Rightarrow>
           if r = c then Some (p, s)
           else do {
             rk \<leftarrow> clis s r;
             let side = place_side rk px py;
             if r \<noteq> prevr p \<or> side \<noteq> prevattach p then
               do {
                 s \<leftarrow> place_at E c r side s;
                 Some (p\<lparr>prevr := r, prevattach := side\<rparr>, s) }
             else Some (p, s) } }"

text \<open>The end of \<open>placemouse\<close>, when the button was released at \<open>(ex, ey)\<close>.\<close>

definition place_end :: "xenv \<Rightarrow> cid \<Rightarrow> place \<Rightarrow> int \<Rightarrow> int \<Rightarrow> wm \<Rightarrow> wm option" where
  "place_end E c p ex ey s =
     do {
       m \<leftarrow> recttomon ex ey 1 1 s;
       k \<leftarrow> clis s c;
       s \<leftarrow> (if m \<noteq> c_mon k then
              do {
                s \<leftarrow> detach E c s;
                s \<leftarrow> detachstack c s;
                s \<leftarrow> arrangemon E (c_mon k) s;
                mk \<leftarrow> mmem s m;
                s \<leftarrow> modc c (\<lambda>k. k\<lparr>c_mon := m, c_tags := tagsel mk\<rparr>) s;
                s \<leftarrow> attach c s;
                s \<leftarrow> attachstack c s;
                Some (s\<lparr>selmon := m\<rparr>) }
            else Some s);
       s \<leftarrow> focus E (Some c) s;
       s \<leftarrow> modc c (\<lambda>k. k\<lparr>c_beingmoved := False\<rparr>) s;
       k \<leftarrow> clis s c;
       s \<leftarrow> (if pl_nx p \<noteq> -9999 then resize E c (pl_nx p) (pl_ny p) (c_w k) (c_h k) False s
            else Some s);
       k \<leftarrow> clis s c;
       arrangemon E (c_mon k) s }"

definition placemouse :: "xenv \<Rightarrow> int \<Rightarrow> wm \<Rightarrow> wm option" where
  "placemouse E i s =
     do {
       m \<leftarrow> selm s;
       case m_sel m of
         None \<Rightarrow> Some s
       | Some c \<Rightarrow> do {
           k \<leftarrow> clis s c;
           cm \<leftarrow> mmem s (c_mon k);
           a \<leftarrow> arrange_of E cm;
           if a = None \<or> c_isfullscreen k then Some s
           else do {
             s \<leftarrow> restack E (selmon s) s;
             let s = emit (XGrabPointer CurMove) s;
             if \<not> XGrabPointerOk E (xlog s) then Some s
             else do {
               s \<leftarrow> modc c (\<lambda>k. k\<lparr>c_isfloating := False, c_beingmoved := True\<rparr>) s;
               k \<leftarrow> clis s c;
               let wa = (case XGetWindowAttributes E (xlog s) (c_win k) of
                           Some wa \<Rightarrow> wa | None \<Rightarrow> garbage_attributes E);
               let s = (if i = 2
                        then emit (XWarpPointer (Win (c_win k)) (cdiv (WIDTH k) 2) (cdiv (HEIGHT k) 2)) s
                        else s);
               case getrootptr E s of
                 None \<Rightarrow> Some s
               | Some (x, y) \<Rightarrow> do {
                   per \<leftarrow> period (cfg E);
                   ((ex, ey, _, _), p, s) \<leftarrow>
                     drag E per (place_step E i c wa x y) (XMaskEvents E (xlog s)) 0
                       (\<lparr>pl_nx = -9999, pl_ny = -9999, freemove = False, prevr = c, prevattach = -1\<rparr>, s);
                   place_end E c p ex ey (emit XUngrabPointer s) } } } } }"

definition moveorplace :: "xenv \<Rightarrow> int \<Rightarrow> wm \<Rightarrow> wm option" where
  "moveorplace E i s =
     do {
       m \<leftarrow> selm s;
       a \<leftarrow> arrange_of E m;
       fl \<leftarrow> (case m_sel m of
               None \<Rightarrow> Some False
             | Some c \<Rightarrow> do { k \<leftarrow> clis s c; Some (c_isfloating k) });
       if a = None \<or> fl then movemouse E s else placemouse E i s }"

text \<open>
  \<open>resizemouse\<close>. For a tiled client the variables \<open>x\<close> and \<open>y\<close> stay uninitialised; what
  they hold then is \<open>garbage_point\<close>.
\<close>

definition split_point :: "monitor \<Rightarrow> arrfn option \<Rightarrow> int \<times> int" where
  "split_point m a =
     (if a = Some Doubledeck then
        (ctrunc (addf (m_mx m) (imulf (m_ww m) (m_dmfact m))), m_my m + cdiv (m_wh m) 2)
      else if a = Some Zetadeck then
        (m_mx m + cdiv (m_ww m) 2, ctrunc (addf (m_my m) (imulf (m_wh m) (m_zmfact m))))
      else
        (ctrunc (addf (m_mx m) (imulf (m_ww m) (m_mfact m))), m_my m + cdiv (m_wh m) 2))"

definition dquot :: "int \<Rightarrow> int \<Rightarrow> flt option" where
  "dquot n d = (if d = 0 then None else Some (fl32 (fl64 (of_int n / of_int d))))"

definition resize_step ::
  "xenv \<Rightarrow> cid \<Rightarrow> int \<Rightarrow> int \<Rightarrow> int \<times> int \<Rightarrow> int \<Rightarrow> int \<Rightarrow> unit \<times> wm \<Rightarrow> (unit \<times> wm) option" where
  "resize_step E c ocw och p ex ey r =
     do {
       let s = snd r;
       k \<leftarrow> clis s c;
       m \<leftarrow> selm s;
       a \<leftarrow> arrange_of E m;
       let w = max (ocw + (ex - fst p)) 1;
       let h = max (och + (ey - snd p)) 1;
       s \<leftarrow> (if a = None \<or> c_isfloating k then resize E c (c_x k) (c_y k) w h True s else Some s);
       Some ((), s) }"

definition is_free :: "xenv \<Rightarrow> cid \<Rightarrow> wm \<Rightarrow> bool option" where
  "is_free E c s =
     do {
       k \<leftarrow> clis s c;
       if c_isfloating k then Some True
       else do { m \<leftarrow> mmem s (c_mon k); a \<leftarrow> arrange_of E m; Some (a = None) } }"

text \<open>What the release of the button at \<open>(xr, yr)\<close> on the root window does.\<close>

definition resize_end :: "xenv \<Rightarrow> cid \<Rightarrow> int \<Rightarrow> int \<Rightarrow> wm \<Rightarrow> wm option" where
  "resize_end E c xr yr s =
     do {
       fr \<leftarrow> is_free E c s;
       s \<leftarrow> (if fr then
              do {
                k \<leftarrow> clis s c;
                Some (emit (XWarpPointer (Win (c_win k)) (c_w k + c_bw k - 1) (c_h k + c_bw k - 1)) s) }
            else do {
                m \<leftarrow> selm s;
                a \<leftarrow> arrange_of E m;
                f \<leftarrow> (if a = Some Zetadeck then dquot (yr - m_my m) (m_wh m)
                     else dquot (xr - m_mx m) (m_ww m));
                s \<leftarrow> modm (selmon s) (\<lambda>m. if a = Some Doubledeck then m\<lparr>m_dmfact := f\<rparr>
                       else if a = Some Zetadeck then m\<lparr>m_zmfact := f\<rparr> else m\<lparr>m_mfact := f\<rparr>) s;
                s \<leftarrow> arrange E (Some (selmon s)) s;
                m \<leftarrow> selm s;
                Some (if a = Some Doubledeck \<or> a = Some Zetadeck
                      then case split_point m a of (x, y) \<Rightarrow> emit (XWarpPointer RootWin x y) s
                      else s) });
       follow_rect E c (emit XDropEnterEvents (emit XUngrabPointer s)) }"

definition resizemouse :: "xenv \<Rightarrow> wm \<Rightarrow> wm option" where
  "resizemouse E s =
     do {
       m \<leftarrow> selm s;
       case m_sel m of
         None \<Rightarrow> Some s
       | Some c \<Rightarrow> do {
           k \<leftarrow> clis s c;
           if c_isfullscreen k then Some s
           else do {
             s \<leftarrow> restack E (selmon s) s;
             k \<leftarrow> clis s c;
             let s = emit (XGrabPointer CurResize) s;
             if \<not> XGrabPointerOk E (xlog s) then Some s
             else do {
               fr \<leftarrow> is_free E c s;
               case (if fr then getrootptr E s else Some (garbage_point E)) of
                 None \<Rightarrow> Some s
               | Some p \<Rightarrow> do {
                 m \<leftarrow> selm s;
                 a \<leftarrow> arrange_of E m;
                 let s = (if fr then s
                          else case split_point m a of (x, y) \<Rightarrow> emit (XWarpPointer RootWin x y) s);
                 per \<leftarrow> period (cfg E);
                 ((_, _, xr, yr), _, s) \<leftarrow>
                   drag E per (resize_step E c (c_w k) (c_h k) p) (XMaskEvents E (xlog s)) 0 ((), s);
                 resize_end E c xr yr s } } } } }"

end
