(* ===== verification/Events.thy ===== *)
theory Events
  imports Mouse
begin

text \<open>
  The commands by name (\<open>run_action\<close>), the handlers that run them (\<open>keypress\<close>,
  \<open>buttonpress\<close>), the dispatch of events, and the program: \<open>setup\<close>, the event loop and
  \<open>main\<close>.
\<close>

section \<open>Commands\<close>

fun run_action :: "xenv \<Rightarrow> action \<Rightarrow> wm \<Rightarrow> wm option" where
  "run_action E (Spawn cmd) s = spawn E cmd s"
| "run_action E Togglebar s = togglebar E s"
| "run_action E (Incnmaster i) s = incnmaster E i s"
| "run_action E (Resetnmaster u) s = resetnmaster E u s"
| "run_action E Zoom s = zoom E s"
| "run_action E (View u) s = view E u s"
| "run_action E (Killclient u) s = killclient E u s"
| "run_action E (Setlayout v) s = setlayout E v s"
| "run_action E Togglefloating s = togglefloating E s"
| "run_action E Focusmaster s = focusmaster E s"
| "run_action E Resetmfact s = resetmfact E s"
| "run_action E Togglefullscr s = togglefullscr E s"
| "run_action E Togglesticky s = togglesticky E s"
| "run_action E Swapfocus s = swapfocus E s"
| "run_action E (Tag u) s = tag E u s"
| "run_action E (Setmfact f) s = setmfact E f s"
| "run_action E (Setsmfact f) s = setsmfact E f s"
| "run_action E (Setgaps i) s = setgaps E i s"
| "run_action E (Focusmon i) s = focusmon E i s"
| "run_action E (Tagmon i) s = tagmon E i s"
| "run_action E (Tagswapmon i) s = tagswapmon E i s"
| "run_action E (Rotatetags i) s = rotatetags E i s"
| "run_action E (Rotatestack i) s = rotatestack E i s"
| "run_action E (Cyclelayout i) s = cyclelayout E i s"
| "run_action E (Shiftviewclients i) s = shiftviewclients E i s"
| "run_action E (Focusstack i) s = focusstack E i s"
| "run_action E (Fmaximize u) s = fmaximize E u s"
| "run_action E (Setwfact f) s = setwfact E f s"
| "run_action E (Sethfact f) s = sethfact E f s"
| "run_action E (Fsnap u) s = fsnap E u s"
| "run_action E (Fdeck u) s = fdeck E u s"
| "run_action E (Focussame i) s = focussame E i s"
| "run_action E (Toggleview u) s = toggleview E u s"
| "run_action E (Swaptag u) s = swaptag E u s"
| "run_action E (Toggletag u) s = toggletag E u s"
| "run_action E (Quit i) s = Some (quit i s)"
| "run_action E (Moveorplace i) s = moveorplace E i s"
| "run_action E Resizemouse s = resizemouse E s"
| "run_action E (Incfloat i) s = incfloat E i s"

definition keypress :: "xenv \<Rightarrow> nat \<Rightarrow> 32 word \<Rightarrow> wm \<Rightarrow> wm option" where
  "keypress E code state s =
     (let sy = XKeycodeToKeysym E code
      in each (\<lambda>k s. if sy = k_keysym k \<and> CLEANMASK s (k_mod k) = CLEANMASK s state
                     then run_action E (k_func k) s else Some s) (keys (cfg E)) s)"

text \<open>
  On the tag bar a command whose argument is zero gets the mask of the tag that was clicked
  instead. The argument is a union, and its first four bytes are tested and replaced: a
  float is then the one with these bits, and a null pointer becomes a wild one (\<^term>\<open>None\<close>).
\<close>

definition float_of_bit :: "nat \<Rightarrow> flt" where
  "float_of_bit i = (if i < 23 then 2 ^ i / 2 ^ 149 else 2 ^ (2 ^ (i - 23)) / 2 ^ 127)"

fun tag_arg :: "nat \<Rightarrow> action \<Rightarrow> action option" where
  "tag_arg i (Resetnmaster u) = Some (Resetnmaster (if u = 0 then push_bit i 1 else u))"
| "tag_arg i (View u) = Some (View (if u = 0 then push_bit i 1 else u))"
| "tag_arg i (Killclient u) = Some (Killclient (if u = 0 then push_bit i 1 else u))"
| "tag_arg i (Tag u) = Some (Tag (if u = 0 then push_bit i 1 else u))"
| "tag_arg i (Fmaximize u) = Some (Fmaximize (if u = 0 then push_bit i 1 else u))"
| "tag_arg i (Fsnap u) = Some (Fsnap (if u = 0 then push_bit i 1 else u))"
| "tag_arg i (Fdeck u) = Some (Fdeck (if u = 0 then push_bit i 1 else u))"
| "tag_arg i (Toggleview u) = Some (Toggleview (if u = 0 then push_bit i 1 else u))"
| "tag_arg i (Swaptag u) = Some (Swaptag (if u = 0 then push_bit i 1 else u))"
| "tag_arg i (Toggletag u) = Some (Toggletag (if u = 0 then push_bit i 1 else u))"
| "tag_arg i (Incnmaster n) = Some (Incnmaster (if n = 0 then 2 ^ i else n))"
| "tag_arg i (Setgaps n) = Some (Setgaps (if n = 0 then 2 ^ i else n))"
| "tag_arg i (Focusmon n) = Some (Focusmon (if n = 0 then 2 ^ i else n))"
| "tag_arg i (Tagmon n) = Some (Tagmon (if n = 0 then 2 ^ i else n))"
| "tag_arg i (Tagswapmon n) = Some (Tagswapmon (if n = 0 then 2 ^ i else n))"
| "tag_arg i (Rotatetags n) = Some (Rotatetags (if n = 0 then 2 ^ i else n))"
| "tag_arg i (Rotatestack n) = Some (Rotatestack (if n = 0 then 2 ^ i else n))"
| "tag_arg i (Cyclelayout n) = Some (Cyclelayout (if n = 0 then 2 ^ i else n))"
| "tag_arg i (Shiftviewclients n) = Some (Shiftviewclients (if n = 0 then 2 ^ i else n))"
| "tag_arg i (Focusstack n) = Some (Focusstack (if n = 0 then 2 ^ i else n))"
| "tag_arg i (Focussame n) = Some (Focussame (if n = 0 then 2 ^ i else n))"
| "tag_arg i (Quit n) = Some (Quit (if n = 0 then 2 ^ i else n))"
| "tag_arg i (Moveorplace n) = Some (Moveorplace (if n = 0 then 2 ^ i else n))"
| "tag_arg i (Incfloat n) = Some (Incfloat (if n = 0 then 2 ^ i else n))"
| "tag_arg i (Setmfact f) = Some (Setmfact (if f = 0 then float_of_bit i else f))"
| "tag_arg i (Setsmfact f) = Some (Setsmfact (if f = 0 then float_of_bit i else f))"
| "tag_arg i (Setwfact f) = Some (Setwfact (if f = 0 then float_of_bit i else f))"
| "tag_arg i (Sethfact f) = Some (Sethfact (if f = 0 then float_of_bit i else f))"
| "tag_arg i (Setlayout v) = (if v = None then None else Some (Setlayout v))"
| "tag_arg i a = Some a"

text \<open>The tag under the pointer on the bar, and the right end of the last tag looked at.\<close>

fun tag_under :: "xenv \<Rightarrow> wm \<Rightarrow> int \<Rightarrow> int \<Rightarrow> nat \<Rightarrow> string list \<Rightarrow> nat \<times> int" where
  "tag_under E s ex x i [] = (i, x)"
| "tag_under E s ex x i (t # ts) =
     (let x = x + TEXTW E s t 0
      in if ex \<ge> x then tag_under E s ex x (i + 1) ts else (i, x))"

definition bar_click :: "xenv \<Rightarrow> monitor \<Rightarrow> int \<Rightarrow> wm \<Rightarrow> click \<times> nat" where
  "bar_click E m ex s =
     (let (i, x) = tag_under E s ex 0 0 (tags (cfg E))
      in if i < ntags (cfg E) then (ClkTagBar, i)
         else if ex < x + TEXTW E s (m_ltsymbol m) 0 then (ClkLtSymbol, i)
         else if ex > m_ww m - TEXTW E s (stext s) 0 \<and> showstatus (cfg E) \<noteq> 0 then (ClkStatusText, i)
         else (ClkWinTitle, i))"

definition wheel :: "nat \<Rightarrow> bool" where
  "wheel b \<longleftrightarrow> b = 4 \<or> b = 5"

text \<open>What was clicked; clicks into a client and onto another monitor move the focus.\<close>

definition click_target :: "xenv \<Rightarrow> window \<Rightarrow> nat \<Rightarrow> int \<Rightarrow> wm \<Rightarrow> ((click \<times> nat) \<times> wm) option" where
  "click_target E w b ex s =
     do {
       m \<leftarrow> wintomon E w s;
       s \<leftarrow> (if m \<noteq> selmon s \<and> (focusonwheel (cfg E) \<or> \<not> wheel b) then
              do {
                k \<leftarrow> selm s;
                s \<leftarrow> unfocus E (m_sel k) True s;
                focus E None (s\<lparr>selmon := m\<rparr>) }
            else Some s);
       k \<leftarrow> selm s;
       if w = m_barwin k then Some (bar_click E k ex s, s)
       else do {
         co \<leftarrow> wintoclient s w;
         case co of
           None \<Rightarrow> Some ((ClkRootWin, 0), s)
         | Some c \<Rightarrow> do {
             s \<leftarrow> (if focusonwheel (cfg E) \<or> \<not> wheel b then focus E (Some c) s else Some s);
             Some ((ClkClientWin, 0), emit XAllowEvents s) } } }"

definition buttonpress :: "xenv \<Rightarrow> window \<Rightarrow> nat \<Rightarrow> int \<Rightarrow> 32 word \<Rightarrow> wm \<Rightarrow> wm option" where
  "buttonpress E w b ex state s =
     do {
       ((click, i), s) \<leftarrow> click_target E w b ex s;
       each (\<lambda>bt s.
         if click = b_click bt \<and> b_button bt = b \<and> CLEANMASK s (b_mask bt) = CLEANMASK s state
         then do {
           a \<leftarrow> (if click = ClkTagBar then tag_arg i (b_func bt) else Some (b_func bt));
           run_action E a s }
         else Some s) (buttons (cfg E)) s }"

section \<open>Events\<close>

fun handle :: "xenv \<Rightarrow> xevent \<Rightarrow> wm \<Rightarrow> wm option" where
  "handle E (ButtonPress w b x state) s = buttonpress E w b x state s"
| "handle E (ClientMessage w a d) s = clientmessage E w a d s"
| "handle E (ConfigureRequest w r) s = configurerequest E w r s"
| "handle E (ConfigureNotify w width height) s = configurenotify E w width height s"
| "handle E (DestroyNotify w) s = destroynotify E w s"
| "handle E (Expose w n) s = expose E w n s"
| "handle E (FocusIn w) s = focusin E w s"
| "handle E (KeyPress code state) s = keypress E code state s"
| "handle E (MappingNotify keyboard) s = mappingnotify E keyboard s"
| "handle E (MapRequest w) s = maprequest E w s"
| "handle E (PropertyNotify w a deleted) s = propertynotify E w a deleted s"
| "handle E (UnmapNotify w send) s = unmapnotify E w send s"
| "handle E _ s = Some s"

text \<open>The event loop on the events that arrive; it waits for more when they are used up.\<close>

fun events :: "xenv \<Rightarrow> xevent list \<Rightarrow> wm \<Rightarrow> wm option" where
  "events E [] s = Some s"
| "events E (e # es) s =
     (if running s then do { s \<leftarrow> handle E e s; events E es s } else Some s)"

definition run :: "xenv \<Rightarrow> xevent list \<Rightarrow> wm \<Rightarrow> wm option" where
  "run E es s = events E es (emit XSync s)"

section \<open>The program\<close>

text \<open>
  The error handler: an error of a request to a window that is gone is ignored (true), any
  other goes to the handler of Xlib. The codes are those of the protocol.
\<close>

definition xerror :: "int \<Rightarrow> int \<Rightarrow> bool" where
  "xerror error_code request_code \<longleftrightarrow>
     error_code = 3
     \<or> request_code = 42 \<and> error_code = 8
     \<or> request_code = 74 \<and> error_code = 9
     \<or> request_code = 70 \<and> error_code = 9
     \<or> request_code = 66 \<and> error_code = 9
     \<or> request_code = 12 \<and> error_code = 8
     \<or> request_code = 28 \<and> error_code = 10
     \<or> request_code = 33 \<and> error_code = 10
     \<or> request_code = 62 \<and> error_code = 9"

definition xerrordummy :: "int \<Rightarrow> int \<Rightarrow> bool" where
  "xerrordummy error_code request_code = True"

text \<open>\<open>die\<close> is a value: the message it prints.\<close>

definition checkotherwm :: "xenv \<Rightarrow> wm \<Rightarrow> string + wm" where
  "checkotherwm E s =
     (let s = fold emit [XSetErrorHandler HandlerStart, XSelectRedirect, XSync] s
      in if other_wm E then Inl ''dwm: another window manager is already running''
         else Inr (fold emit [XSetErrorHandler HandlerXerror, XSync] s))"

text \<open>The variables as the program starts; the address 0 is the null pointer.\<close>

definition init_state :: wm where
  "init_state =
     \<lparr>clis = Map.empty, mmem = Map.empty, mons = [], selmon = 0, prevclient = None, stext = '''',
      sw = 0, sh = 0, bh = 0, lrpad = 0, numlockmask = 0, restart = False, running = True,
      lastfocusedwin = XNone, wmcheckwin = XNone, autostart_pids = [], nextaddr = 1, xlog = []\<rparr>"

text \<open>The value of \<open>_NET_SUPPORTED\<close>: the whole array \<open>netatom\<close>.\<close>

definition net_atoms :: "xenv \<Rightarrow> int list" where
  "net_atoms E = map (netatom E) netatoms"

lemma net_atoms_all: "net_atoms E = map (netatom E) (sorted_list_of_set UNIV)"
  by (simp add: net_atoms_def netatoms_sorted)

text \<open>The screen and the bar's measures; then everything that needs the fonts.\<close>

definition setup_screen :: "xenv \<Rightarrow> wm \<Rightarrow> wm" where
  "setup_screen E s =
     (let s = s\<lparr>sw := display_width E, sh := display_height E\<rparr>
      in if background (cfg E) then emit XClearRoot s else s)"

definition setup_check :: "xenv \<Rightarrow> wm \<Rightarrow> wm" where
  "setup_check E s =
     (let w = XNewWindow E (xlog s);
          s = emit (XCreateCheckWindow w) (s\<lparr>wmcheckwin := w\<rparr>);
          s = fold emit
                [XChangeProperty (Win w) (netatom E NetWMCheck) Replace [int w],
                 XChangeProperty (Win w) (netatom E NetWMName) Replace [100, 119, 109],
                 XChangeProperty RootWin (netatom E NetWMCheck) Replace [int w],
                 XChangeProperty RootWin (netatom E NetSupported) Replace (net_atoms E)] s;
          s = setviewport E (setdesktopnames E (setcurrentdesktop E (setnumdesktops E s)))
      in fold emit [XDeleteProperty RootWin (netatom E NetClientList), XSelectRoot] s)"

definition setup_wm :: "xenv \<Rightarrow> wm \<Rightarrow> (string + wm) option" where
  "setup_wm E s =
     (let s = setup_screen E s
      in if \<not> fonts_loaded E then Some (Inl ''no fonts could be loaded.'')
         else do {
           let s = s\<lparr>lrpad := (if barpad (cfg E) \<noteq> 0 then barpad (cfg E) * 2 else font_h E),
                     bh := font_h E + vertpadbar (cfg E)\<rparr>;
           (_, s) \<leftarrow> updategeom E s;
           s \<leftarrow> updatebars E s;
           s \<leftarrow> updatestatus E s;
           let s = grabkeys E (setup_check E s);
           s \<leftarrow> setdeflayouts E s;
           s \<leftarrow> focus E None s;
           Some (Inr s) })"

text \<open>
  How the program ends: by \<open>die\<close>, by starting itself anew, or by returning; when the events
  \<open>es\<close> have not brought about the end, \<open>main\<close> waits for another one. The version and revision that \<open>-v\<close> prints come from the build.
\<close>

datatype (plugins only: code size) outcome =
  Died string | Restarted wm | Exited wm | Waiting wm

definition finish :: "xenv \<Rightarrow> wm \<Rightarrow> outcome option" where
  "finish E s =
     (if restart s \<and> exec_works E then Some (Restarted s)
      else do { s \<leftarrow> cleanup E s; Some (Exited (emit XCloseDisplay s)) })"

definition main :: "xenv \<Rightarrow> string list \<Rightarrow> xevent list \<Rightarrow> outcome option" where
  "main E argv es =
     (if length argv = 2 \<and> argv ! 1 = ''-v'' then Some (Died ''dwm-'')
      else if length argv \<noteq> 1 then Some (Died ''usage: dwm [-v]'')
      else if \<not> display_opens E then Some (Died ''dwm: cannot open display'')
      else case checkotherwm E init_state of
        Inl msg \<Rightarrow> Some (Died msg)
      | Inr s \<Rightarrow> do {
          s \<leftarrow> autostart_exec E s;
          r \<leftarrow> setup_wm E s;
          case r of
            Inl msg \<Rightarrow> Some (Died msg)
          | Inr s \<Rightarrow> do {
              s \<leftarrow> scan E s;
              s \<leftarrow> run E es s;
              if running s then Some (Waiting s) else finish E s } })"

end
