(* ===== verification/Clients.thy ===== *)
theory Clients
  imports Events
begin

text \<open>
  How clients come and go. \<open>grows\<close> relates the state before \<open>manage\<close> to the one after: the
  structure is kept and no client is lost. \<open>unmanage\<close> gives one client up and leaves the others
  where they were; by iterating it \<open>cleanup\<close> gives up everything. The last section is about the
  processes the program starts.
\<close>

section \<open>Allocation\<close>

lemma wf_alloc:
  assumes W: "wf cf s" and a: "alloc_client w s = (c, t)"
  shows "wfx cf {c} t" "mons t = mons s" "bh t = bh s" "running t = running s" "clis t c \<noteq> None"
    "selmon t = selmon s" "nextaddr t = Suc (nextaddr s)" "sh t = sh s"
proof -
  have c: "c = nextaddr s" and t: "t = s\<lparr>nextaddr := nextaddr s + 1, clis := (clis s)(c \<mapsto> zero_client (selmon s) w)\<rparr>"
    using a by (auto simp: alloc_client_def)
  have f: "clis s c = None" "mmem s c = None" using wfx_fresh [OF W, of c] by (simp_all add: c)
  show "wfx cf {c} t"
    unfolding wfx_def
  proof (intro conjI allI impI ballI, goal_cases)
    case 1 then show ?case using wfx_distinct_mons [OF W] by (simp add: t)
  next
    case 2 then show ?case using wfx_selmon_in [OF W] by (simp add: t)
  next
    case 3 then show ?case using wfx_dom [OF W] by (simp add: t)
  next
    case (4 m j) then show ?case using wfx_shape [OF W] by (simp add: t)
  next
    case (5 m j) then show ?case using wfx_lists [OF W] by (simp add: t)
  next
    case (6 m j b)
    then have "clis s b \<noteq> None" using wfx_clientD [OF W, of m j b] by (auto simp: t)
    then show ?case using f by auto
  next
    case (7 m j b)
    then have "\<exists>i. clis s b = Some i \<and> c_mon i = m" using wfx_clientD [OF W, of m j b] by (auto simp: t)
    then show ?case using f by (auto simp: t)
  next
    case (8 b j) then show ?case
      using wfx_owner [OF W] wfx_selmon_in [OF W] by (auto simp: t zero_client_def split: if_splits)
  next
    case (9 b j) then show ?case
      using wfx_title [OF W] by (auto simp: t zero_client_def split: if_splits)
  next
    case (10 b j) then show ?case using wfx_listedD [OF W] by (auto simp: t split: if_splits)
  next
    case (11 b) then show ?case by (simp add: t)
  next
    case (12 b) then show ?case using wfx_fresh [OF W, of b] by (simp add: t c)
  next
    case (13 b) then show ?case using wfx_fresh [OF W, of b] by (simp add: t c)
  next
    case 14 then show ?case using wfx_screen [OF W] by (simp add: t)
  qed
qed (use a in \<open>auto simp: alloc_client_def\<close>)

lemma wf_free:
  assumes W: "wfx cf {c} s"
  shows "wf cf (s\<lparr>clis := (clis s)(c := None)\<rparr>)"
  unfolding wfx_def
proof (intro conjI allI impI ballI, goal_cases)
  case 1 then show ?case using wfx_distinct_mons [OF W] by simp
next
  case 2 then show ?case using wfx_selmon_in [OF W] by simp
next
  case 3 then show ?case using wfx_dom [OF W] by simp
next
  case (4 m j) then show ?case using wfx_shape [OF W] by simp
next
  case (5 m j) then show ?case using wfx_lists [OF W] by simp
next
  case (6 m j b) then show ?case by simp
next
  case (7 m j b)
  then have "b \<noteq> c" using wfx_notin [OF W, of m j b] by auto
  then show ?case using wfx_clientD [OF W, of m j b] 7 by simp
next
  case (8 b j) then show ?case using wfx_owner [OF W] by (auto split: if_splits)
next
  case (9 b j) then show ?case using wfx_title [OF W] by (auto split: if_splits)
next
  case (10 b j) then show ?case using wfx_listedD [OF W] by (auto split: if_splits)
next
  case (11 b) then show ?case by simp
next
  case (12 b) then show ?case using wfx_fresh [OF W, of b] by simp
next
  case (13 b) then show ?case using wfx_fresh [OF W, of b] by simp
next
  case 14 then show ?case using wfx_screen [OF W] by simp
qed

section \<open>A client on its way in\<close>

lemma fr_mon_search:
  assumes F: "frx cf X s t" and Q: "\<And>r. (\<forall>m. r = Some m \<longrightarrow> m \<in> set (mons s)) \<Longrightarrow> res (frx cf X s) (f r)"
  shows "res (frx cf X s) (firstO (\<lambda>m. do { k \<leftarrow> mmem t m; Some (p k) }) (mons t) \<bind> f)"
proof -
  let ?p = "\<lambda>m. do { k \<leftarrow> mmem t m; Some (p k) }"
  have "?p m = Some (p (the (mmem t m)))" if "m \<in> set (mons t)" for m
    using that wfx_monitor [OF fr_wf [OF F]] by auto
  then obtain r where r: "firstO ?p (mons t) = Some r"
    using firstO_total [of "mons t" ?p "\<lambda>m. p (the (mmem t m))"] by simp
  have "m \<in> set (mons s)" if "r = Some m" for m
    using firstO_mem [of ?p "mons t" m] r that fr_mons [OF F] by simp
  then show ?thesis using r Q [of r] by simp
qed

lemma apply_rule_frx:
  assumes F: "frx cf {c} s t"
  shows "res (frx cf {c} s) (apply_rule c r t)"
proof -
  have c: "clis u c \<noteq> None" if "frx cf {c} s u" for u using wfx_alloc [OF fr_wf [OF that]] by simp
  show ?thesis
    unfolding apply_rule_def
    by (intro fr_mon_search fr_bind fr_modc frx_modc_transit res_intro) (use F c in auto)
qed

lemma applyrules_frx:
  assumes F: "frx (cfg E) {c} s t"
  shows "res (frx (cfg E) {c} s) (applyrules E c t)"
proof -
  have c: "clis u c \<noteq> None" if "frx (cfg E) {c} s u" for u using wfx_alloc [OF fr_wf [OF that]] by simp
  show ?thesis
    unfolding applyrules_def Let_def split_def
    by (intro fr_bind fr_client_bind fr_monitor_bind fr_modc fr_each res_if apply_rule_frx F c)
      (use c F in \<open>auto intro: fr_still\<close>)
qed

lemma fr_transient_bind:
  assumes F: "frx cf X s t" and Q: "\<And>r. (\<forall>c. r = Some c \<longrightarrow> clis t c \<noteq> None) \<Longrightarrow> res (frx cf X s) (f r)"
  shows "res (frx cf X s) ((case x of None \<Rightarrow> Some None | Some v \<Rightarrow> wintoclient t v) \<bind> f)"
proof (cases x)
  case None
  then show ?thesis using Q [of None] by simp
next
  case (Some v)
  then show ?thesis using fr_wintoclient_bind [OF F Q] by simp
qed

lemma geometry_frame [simp]:
  "c_mon (initial_geometry wa k) = c_mon k" "c_name (initial_geometry wa k) = c_name k"
  "c_mon (fit_monitor cf m k) = c_mon k" "c_name (fit_monitor cf m k) = c_name k"
  "c_mon (center_on m k) = c_mon k" "c_name (center_on m k) = c_name k"
  by (simp_all add: initial_geometry_def fit_monitor_def center_on_def Let_def)

lemma updatetitle_fr:
  "frx cf X s t \<Longrightarrow> clis t c \<noteq> None \<Longrightarrow> titles_ok E \<Longrightarrow> res (frx cf X s) (updatetitle E c t)"
  by (rule updatetitle_cosm [OF cosm_refl, THEN res_fr]) auto

lemma selm_if: "selm s \<noteq> None \<Longrightarrow> selm (if b then emit r s else s) \<noteq> None"
  by (simp add: selm_def)

lemma fr_if_emit: "frx cf X s t \<Longrightarrow> frx cf X s (if b then emit r t else t)"
  by simp

lemma prepare_frx:
  assumes F: "frx (cfg E) {c} s t" and ok: "env_ok E"
  shows "res (frx (cfg E) {c} s) (prepare E c w wa t)"
proof -
  have c: "\<exists>k. clis u c = Some k" if "frx (cfg E) {c} s u" for u using wfx_alloc [OF fr_wf [OF that]] by simp
  have sel: "selmon u \<in> set (mons s)" if "frx (cfg E) {c} s u" for u by (rule fr_selmon_in [OF that])
  have mon: "c_mon k \<in> set (mons s)" if "frx (cfg E) {c} s u" "clis u a = Some k" for u k a
    by (rule fr_c_mon [OF that])
  have 1: "res (frx (cfg E) {c} s) (case v of
              Some a \<Rightarrow> do {
                j \<leftarrow> clis u a;
                modc c (\<lambda>k. k\<lparr>c_mon := c_mon j, c_tags := c_tags j\<rparr>) u }
            | None \<Rightarrow> do {
                s \<leftarrow> modc c (\<lambda>k. k\<lparr>c_mon := selmon u\<rparr>) u;
                applyrules E c s })"
    if u: "frx (cfg E) {c} s u" and v: "\<forall>a. v = Some a \<longrightarrow> clis u a \<noteq> None" for u v
    by (intro fr_bind fr_client_bind frx_modc_transit applyrules_frx res_option_case u)
      (use u v c sel mon in auto)
  have c': "clis u c \<noteq> None" if "frx (cfg E) {c} s u" for u using c [OF that] by simp
  have mon': "mmem u (c_mon k) \<noteq> None" if "frx (cfg E) {c} s u" "clis u a = Some k" for u k a
    by (rule fr_monitor [OF that(1) mon [OF that]])
  have ok': "config_ok (cfg E)" "titles_ok E" using ok by blast+
  show ?thesis
    unfolding prepare_def Let_def
    by (intro fr_transient_bind fr_bind [OF 1] updatewindowtype_fr updatetitle_fr fr_modc fr_intro res_if)
      (assumption | rule F ok' c' [OF F] | erule fr_wf c' mon' fr_selm | (simp add: c'; fail) | (rule selm_if; erule fr_selm) | (rule fr_if_emit))+
qed

section \<open>Entering and leaving\<close>

definition member :: "mid \<Rightarrow> cid \<Rightarrow> wm \<Rightarrow> bool" where
  "member m c s \<longleftrightarrow> (\<exists>k. mmem s m = Some k \<and> c \<in> set (m_clients k))"

lemma cosm_member:
  assumes "cosm s t" "member m c s"
  shows "member m c t"
proof -
  obtain k where k: "mmem s m = Some k" "c \<in> set (m_clients k)" using assms(2) by (auto simp: member_def)
  obtain k' where "mmem t m = Some k'" "mskel k' = mskel k" by (rule cosm_monitor [OF assms(1) k(1)])
  then show ?thesis using k(2) by (auto simp: member_def dest: mskel_fields(1))
qed

lemma member_simps [simp]:
  "member m c (emit r s) = member m c s" "member m c (s\<lparr>prevclient := p\<rparr>) = member m c s"
  by (simp_all add: member_def)

lemma setclientstate_member:
  assumes "frx cf X s t" "member m a t" "clis t c \<noteq> None"
  shows "res (\<lambda>u. frx cf X s u \<and> member m a u) (setclientstate E c st t)"
  by (rule res_mono [OF setclientstate_cosm [OF cosm_refl assms(3)]])
    (use assms cosm_fr cosm_member in blast)

lemma unfocus_member:
  assumes F: "frx cf X s t" and M: "member m a t" and co: "\<And>c. co = Some c \<Longrightarrow> clis t c \<noteq> None"
  shows "res (\<lambda>u. frx cf X s u \<and> member m a u) (unfocus E co f t)"
proof (cases co)
  case None
  then show ?thesis using F M by (simp add: unfocus_def)
next
  case (Some c)
  have "clis t c \<noteq> None" using co Some by simp
  show ?thesis
    unfolding Some
  proof (rule res_mono [OF unfocus_cosm [OF \<open>clis t c \<noteq> None\<close>]])
    fix u assume C: "cosm (t\<lparr>prevclient := Some c\<rparr>) u"
    have "frx cf X s (t\<lparr>prevclient := Some c\<rparr>)" "member m a (t\<lparr>prevclient := Some c\<rparr>)" using F M by simp_all
    then show "frx cf X s u \<and> member m a u" using cosm_fr [OF C] cosm_member [OF C] by blast
  qed
qed

lemma fr_set_sel:
  assumes F: "frx cf X s t" and M: "member m c t"
  shows "res (frx cf X s) (modm m (\<lambda>m. m\<lparr>m_sel := Some c\<rparr>) t)"
  by (rule fr_modm [OF F]) (use M in \<open>auto simp: member_def mon_lists_def mon_shape_lists\<close>)

lemma enter_fr:
  assumes F: "frx (cfg E) {c} s t" and ok: "config_ok (cfg E)"
  shows "res (fr (cfg E) s) (enter E c w t)"
proof -
  have 1: "res (fr (cfg E) s) (do { s \<leftarrow> attachx E c t; attachstack c s })"
    using frx_attachx [OF F] by simp
  have c: "clis u c \<noteq> None" if "fr (cfg E) s u" for u
    by (rule fr_alive [OF that fr_alive_back [OF F]]) (use wfx_alloc [OF fr_wf [OF F]] in simp)
  show ?thesis
    unfolding enter_def
  proof (rule res_bind2 [OF 1])
    fix u assume u: "fr (cfg E) s u"
    obtain k where k: "clis u c = Some k" using c [OF u] by auto
    obtain mk where mk: "mmem u (c_mon k) = Some mk" using fr_still(6) [OF u u k] by blast
    have M: "member (c_mon k) c u" using fr_listed [OF u k mk] mk by (auto simp: member_def)
    let ?u = "emit (XMoveResizeWindow (c_win k) (c_x k + 2 * sw u) (c_y k) (c_w k) (c_h k))
      (emit (XChangeProperty RootWin (netatom E NetClientList) Append [int (c_win k)]) u)"
    let ?Q = "\<lambda>v. fr (cfg E) s v \<and> member (c_mon k) c v"
    have 2: "res ?Q (setclientstate E c NormalState ?u)"
      by (rule setclientstate_member) (use u M c in auto)
    have 3: "res ?Q (if c_mon k = selmon v then do { m \<leftarrow> selm v; unfocus E (m_sel m) False v } else Some v)"
      if v: "?Q v" for v
    proof -
      obtain m where m: "selm v = Some m" "mmem v (selmon v) = Some m" using wfx_selmon [OF fr_wf] v by metis
      have "res ?Q (unfocus E (m_sel m) False v)"
      proof (rule unfocus_member)
        show "clis v a \<noteq> None" if "m_sel m = Some a" for a
          using fr_here [of "cfg E" "{}" s v "selmon v" m a] v m that by blast
      qed (use v in auto)
      then show ?thesis unfolding m(1) bind.bind_lunit using v by (intro res_if) auto
    qed
    have cm: "c_mon k \<in> set (mons s)" by (rule fr_c_mon [OF u k])
    have 4: "res (fr (cfg E) s) (arrange E (Some (c_mon k)) v)" if "fr (cfg E) s v" for v
      by (rule focus_fr_ops(2)) (use that ok fr_monitor [OF that cm] in auto)
    have 5: "res (fr (cfg E) s) (do {
       k \<leftarrow> clis v c;
       let s = emit (XMapWindow (c_win k)) v;
       s \<leftarrow> focus E None s;
       m \<leftarrow> selm s;
       warp E (m_sel m) s })" if v: "fr (cfg E) s v" for v
      unfolding Let_def
      by (intro fr_intro res_intro) (use v ok c in \<open>auto intro: fr_still fr_selm_ex\<close>)
    show "res (fr (cfg E) s) (do {
       k \<leftarrow> clis u c;
       let s = emit (XChangeProperty RootWin (netatom E NetClientList) Append [int (c_win k)]) u;
       let s = emit (XMoveResizeWindow (c_win k) (c_x k + 2 * sw s) (c_y k) (c_w k) (c_h k)) s;
       s \<leftarrow> setclientstate E c NormalState s;
       s \<leftarrow> (if c_mon k = selmon s
            then do { m \<leftarrow> selm s; unfocus E (m_sel m) False s } else Some s);
       s \<leftarrow> modm (c_mon k) (\<lambda>m. m\<lparr>m_sel := Some c\<rparr>) s;
       s \<leftarrow> arrange E (Some (c_mon k)) s;
       k \<leftarrow> clis s c;
       let s = emit (XMapWindow (c_win k)) s;
       s \<leftarrow> focus E None s;
       m \<leftarrow> selm s;
       warp E (m_sel m) s })"
      unfolding k bind.bind_lunit Let_def emit_sel
      by (intro res_bind [OF 2] res_bind [OF 3] res_bind [OF fr_set_sel] res_bind [OF 4]
          5 [unfolded Let_def]) auto
  qed
qed

text \<open>A client is added: everything that was there is still there.\<close>

definition grows :: "config \<Rightarrow> wm \<Rightarrow> wm \<Rightarrow> bool" where
  "grows cf s t \<longleftrightarrow> wf cf t \<and> mons t = mons s \<and> bh t = bh s \<and> running t = running s
     \<and> (\<forall>c. clis s c \<noteq> None \<longrightarrow> clis t c \<noteq> None)"

text \<open>A window becomes one new client, unless it is the desktop.\<close>

definition is_desktop :: "xenv \<Rightarrow> wm \<Rightarrow> window \<Rightarrow> bool" where
  "is_desktop E s w \<longleftrightarrow> getatomprop E s w (netatom E NetWMWindowType) = netatom E NetWMWindowTypeDesktop"

lemma is_desktop_log: "xlog t = xlog s \<Longrightarrow> is_desktop E t w = is_desktop E s w"
  by (simp add: is_desktop_def getatomprop_def)

lemma manage_adds:
  assumes W: "wf (cfg E) s" and ok: "env_ok E"
  shows "res (\<lambda>t. grows (cfg E) s t
      \<and> dom (clis t) = (if is_desktop E s w then dom (clis s) else insert (nextaddr s) (dom (clis s))))
    (manage E w wa s)"
proof -
  obtain c t where a: "alloc_client w s = (c, t)" by (cases "alloc_client w s")
  note A = wf_alloc [OF W a]
  have f: "clis s c = None" using wfx_fresh [OF W, of c] a by (simp add: alloc_client_def)
  have old: "clis t b \<noteq> None" if "clis s b \<noteq> None" for b using a that by (auto simp: alloc_client_def)
  have d: "is_desktop E t w = is_desktop E s w"
    by (rule is_desktop_log) (use a in \<open>auto simp: alloc_client_def\<close>)
  have dt: "dom (clis t) = insert (nextaddr s) (dom (clis s))" "c = nextaddr s"
    using a by (auto simp: alloc_client_def)
  show ?thesis
  proof (cases "is_desktop E t w")
    case True
    let ?t = "emit (XLowerWindow w) (emit (XMapWindow w) t)"
    have "wf (cfg E) (?t\<lparr>clis := (clis ?t)(c := None)\<rparr>)" by (rule wf_free) (use A in simp)
    moreover obtain k where "clis t c = Some k" using A(5) by auto
    moreover have "dom ((clis t)(c := None)) = dom (clis s)" using dt f by auto
    ultimately have "res (\<lambda>t. grows (cfg E) s t \<and> dom (clis t) = dom (clis s)) (free_client c ?t)"
      using A f old by (auto simp: free_client_def grows_def)
    then show ?thesis using a True d by (simp add: manage_def is_desktop_def)
  next
    case False
    have F: "frx (cfg E) {c} t t" by (rule fr_refl [OF A(1)])
    have 2: "res (fr (cfg E) t) (enter E c w u)" if "frx (cfg E) {c} t u" for u
      by (rule enter_fr [OF that]) (use ok in blast)
    have r: "res (fr (cfg E) t) (do { s \<leftarrow> prepare E c w wa t; enter E c w s })"
      by (rule res_bind [OF prepare_frx [OF F ok] 2])
    have du: "dom (clis u) = dom (clis t)" if "fr (cfg E) t u" for u
      using that by (auto simp: frx_def dom_def)
    have "res (\<lambda>u. grows (cfg E) s u \<and> dom (clis u) = insert (nextaddr s) (dom (clis s)))
        (do { s \<leftarrow> prepare E c w wa t; enter E c w s })"
      by (rule res_mono [OF r]) (use A old dt du in \<open>auto simp: frx_def grows_def\<close>)
    then show ?thesis using a False d by (simp add: manage_def is_desktop_def)
  qed
qed

lemma manage_grows:
  "wf (cfg E) s \<Longrightarrow> env_ok E \<Longrightarrow> res (grows (cfg E) s) (manage E w wa s)"
  by (rule res_mono [OF manage_adds]) simp_all

text \<open>The clients of a monitor, by their owner.\<close>

definition owned :: "mid \<Rightarrow> wm \<Rightarrow> cid set" where
  "owned m s = {c. \<exists>j. clis s c = Some j \<and> c_mon j = m}"

lemma owned_clients:
  assumes "wf cf s" "mmem s m = Some k"
  shows "set (m_clients k) = owned m s"
proof (intro set_eqI iffI)
  fix c assume "c \<in> set (m_clients k)"
  then show "c \<in> owned m s" using wfx_clientD [OF assms] by (simp add: owned_def)
next
  fix c assume "c \<in> owned m s"
  then obtain j where j: "clis s c = Some j" "c_mon j = m" by (auto simp: owned_def)
  then show "c \<in> set (m_clients k)" using wfx_listedD [OF assms(1) j(1)] assms(2) by auto
qed

definition same_owners :: "wm \<Rightarrow> wm \<Rightarrow> bool" where
  "same_owners s t \<longleftrightarrow> (\<forall>c. map_option c_mon (clis t c) = map_option c_mon (clis s c))"

lemma same_owners_trans: "same_owners s t \<Longrightarrow> same_owners t u \<Longrightarrow> same_owners s u"
  by (simp add: same_owners_def)

lemma keep_owners: "keep s t \<Longrightarrow> same_owners s t"
  unfolding same_owners_def keep_def cskel_def
  by (intro allI) (metis (no_types, lifting) fst_conv option.map_comp comp_apply option.map_cong0)

lemma owners_owned: "same_owners s t \<Longrightarrow> owned m t = owned m s"
proof -
  assume o: "same_owners s t"
  have "(\<exists>j. clis t c = Some j \<and> c_mon j = m) \<longleftrightarrow> (\<exists>j. clis s c = Some j \<and> c_mon j = m)" for c
    using o [unfolded same_owners_def, rule_format, of c] by (cases "clis s c"; cases "clis t c") auto
  then show ?thesis by (simp add: owned_def)
qed

lemma cosm_frk: "res (cosm t) p \<Longrightarrow> frx cf X s t \<Longrightarrow> keep s t \<Longrightarrow> res (\<lambda>u. frx cf X s u \<and> keep s u) p"
  by (erule res_mono) (use cosm_fr cosm_keep keep_trans in blast)

text \<open>After the client is freed, the focus and the arrangement are made up.\<close>

lemma unmanage_tail:
  assumes W: "wf (cfg E) s" and ok: "config_ok (cfg E)" and m: "m \<in> set (mons s)"
  shows "res (\<lambda>t. fr (cfg E) s t \<and> keep s t) (do {
       s \<leftarrow> focus E None s;
       s \<leftarrow> updateclientlist E s;
       s \<leftarrow> arrange E (Some m) s;
       m \<leftarrow> selm s;
       warp E (m_sel m) s })"
proof -
  let ?Q = "\<lambda>t. fr (cfg E) s t \<and> keep s t"
  obtain r where r: "res (\<lambda>t. wf (cfg E) t \<and> focused s t r) (focus E None s)"
    by (rule focus_spec [OF W ok, of None]) simp_all
  have 1: "res ?Q (focus E None s)"
    by (rule res_mono [OF r]) (use focused_fr [OF fr_refl [OF W]] in \<open>auto simp: focused_def\<close>)
  have 2: "res ?Q (updateclientlist E u)" if "?Q u" for u
    by (rule cosm_frk [OF updateclientlist_cosm [OF cosm_refl]]) (use that in auto)
  have 3: "res ?Q (arrange E (Some m) u)" if "?Q u" for u
    by (rule cosm_frk [OF arrange_cosm [OF cosm_refl _ ok]]) (use that m fr_monitor in auto)
  have 4: "res ?Q (do { m \<leftarrow> selm u; warp E (m_sel m) u })" if u: "?Q u" for u
  proof -
    obtain k where k: "selm u = Some k" "mmem u (selmon u) = Some k" using wfx_selmon [OF fr_wf] u by metis
    have "res ?Q (warp E (m_sel k) u)"
      by (rule cosm_frk [OF warp_cosm [OF cosm_refl]]) (use u fr_here k in blast)+
    then show ?thesis using k(1) by simp
  qed
  show ?thesis by (intro res_bind [OF 1] res_bind [OF 2] res_bind [OF 3] 4)
qed

lemma unmanage_fr:
  assumes W: "wf (cfg E) s" and ok: "config_ok (cfg E)" and c: "clis s c \<noteq> None"
  shows "res (\<lambda>t. fr (cfg E) (s\<lparr>clis := (clis s)(c := None)\<rparr>) t
      \<and> same_owners (s\<lparr>clis := (clis s)(c := None)\<rparr>) t) (unmanage E c d s)"
proof -
  have n: "ntags (cfg E) \<le> 31" using ok by (simp add: config_ok_def)
  obtain j where j: "clis s c = Some j" using c by auto
  obtain k k' where k: "mmem s (c_mon j) = Some k"
    "do { s \<leftarrow> detach E c s; detachstack c s } = Some (s\<lparr>mmem := (mmem s)(c_mon j \<mapsto> k')\<rparr>)"
    "wfx (cfg E) {c} (s\<lparr>mmem := (mmem s)(c_mon j \<mapsto> k')\<rparr>)"
    by (rule detach_both [OF W n j]) auto
  define u where "u = s\<lparr>mmem := (mmem s)(c_mon j \<mapsto> k')\<rparr>"
  have u: "wfx (cfg E) {c} u" "clis u = clis s" "mons u = mons s" "bh u = bh s" "nextaddr u = nextaddr s" "running u = running s"
    using k(3) by (simp_all add: u_def)
  let ?tell = "\<lambda>k. if \<not> d then
              do {
                let s = fold emit [XGrabServer, XSetErrorHandler HandlerDummy,
                          XSelectInput (c_win k) False,
                          XConfigureWindow (c_win k) [CWBorderWidth (c_oldbw k)],
                          XUngrabButton (c_win k)] u;
                s \<leftarrow> setclientstate E c WithdrawnState s;
                Some (fold emit [XSync, XSetErrorHandler HandlerXerror, XUngrabServer] s) }
            else Some u"
  have 1: "res (\<lambda>v. frx (cfg E) {c} u v \<and> keep u v) (?tell j)"
  proof (cases d)
    case False
    have "res (cosm u) (?tell j)"
      using False j u(2) by (simp add: Let_def) (intro cosm_bind setclientstate_cosm; simp)
    then show ?thesis by (rule cosm_frk [OF _ fr_refl [OF u(1)] keep_refl])
  qed (use fr_refl [OF u(1)] in simp)
  let ?s = "s\<lparr>clis := (clis s)(c := None)\<rparr>"
  have 2: "res (\<lambda>t. fr (cfg E) ?s t \<and> same_owners ?s t) (do {
       s \<leftarrow> free_client c v;
       s \<leftarrow> focus E None s;
       s \<leftarrow> updateclientlist E s;
       s \<leftarrow> arrange E (Some (c_mon j)) s;
       m \<leftarrow> selm s;
       warp E (m_sel m) s })" if v: "frx (cfg E) {c} u v \<and> keep u v" for v
  proof -
    define w where "w = v\<lparr>clis := (clis v)(c := None)\<rparr>"
    have "clis v c \<noteq> None" by (rule fr_alive [of "cfg E" "{c}" u]) (use v c u(2) in auto)
    then have e: "free_client c v = Some w" by (auto simp: free_client_def w_def)
    have Ww: "wf (cfg E) w" unfolding w_def by (rule wf_free) (use v in blast)
    have Fw: "fr (cfg E) ?s w"
      using v u Ww by (auto simp: frx_def w_def)
    have ow: "same_owners ?s w"
      using keep_owners [of u v] v u(2) by (auto simp: same_owners_def w_def)
    have m: "c_mon j \<in> set (mons w)" using wfx_owner [OF W j] u(3) v fr_mons [of _ _ u v] by (auto simp: w_def)
    show ?thesis
      unfolding e bind.bind_lunit
      by (rule res_mono [OF unmanage_tail [OF Ww ok m]])
        (use Fw ow fr_trans keep_owners same_owners_trans in blast)
  qed
  have "unmanage E c d s = do {
       s \<leftarrow> ?tell j;
       s \<leftarrow> free_client c s;
       s \<leftarrow> focus E None s;
       s \<leftarrow> updateclientlist E s;
       s \<leftarrow> arrange E (Some (c_mon j)) s;
       m \<leftarrow> selm s;
       warp E (m_sel m) s }"
  proof -
    obtain d1 where d1: "detach E c s = Some d1" "detachstack c d1 = Some u"
      using k(2) by (auto simp: u_def bind_eq_Some_conv)
    show ?thesis using j d1 u(2) by (simp add: unmanage_def Let_def)
  qed
  then show ?thesis using res_bind [OF 1 2] by simp
qed

section \<open>The end of the program\<close>

lemma owned_free: "owned m (s\<lparr>clis := (clis s)(c := None)\<rparr>) = owned m s - {c}"
  by (auto simp: owned_def)

text \<open>
  All clients of a monitor are given up: the fuel, its number of clients, is enough, and the
  other monitors keep theirs.
\<close>

lemma unmanage_all_spec:
  assumes "wf (cfg E) s" "config_ok (cfg E)" "mmem s m = Some k" "length (m_stack k) \<le> n"
  shows "res (\<lambda>t. wf (cfg E) t \<and> mons t = mons s \<and> running t = running s \<and> owned m t = {}
      \<and> (\<forall>m'. m' \<noteq> m \<longrightarrow> owned m' t = owned m' s)) (unmanage_all E n m s)"
  using assms
proof (induction n arbitrary: s k)
  case 0
  then have "owned m s = {}"
    using owned_clients [OF 0(1,3)] wfx_stack_clients [OF 0(1,3)] by simp
  then show ?case using 0 by (simp add: unmanage_all.simps)
next
  case (Suc n)
  note W = Suc.prems(1)
  note own = owned_clients [OF W Suc.prems(3)] wfx_stack_clients [OF W Suc.prems(3)]
  have d: "distinct (m_stack k)" using wfx_lists [OF W Suc.prems(3)] by (simp add: mon_lists_def)
  show ?case
  proof (cases "m_stack k")
    case Nil
    then show ?thesis using Suc.prems own by (subst unmanage_all.simps) auto
  next
    case (Cons c cs)
    have c: "c \<in> owned m s" using own Cons by auto
    then obtain j where j: "clis s c = Some j" "c_mon j = m" by (auto simp: owned_def)
    have cn: "clis s c \<noteq> None" using j by simp
    have m: "m \<in> set (mons s)" using wfx_monitor [OF W] Suc.prems(3) by auto
    let ?s = "s\<lparr>clis := (clis s)(c := None)\<rparr>"
    have step: "res (\<lambda>t. wf (cfg E) t \<and> mons t = mons s \<and> running t = running s \<and> owned m t = {}
      \<and> (\<forall>m'. m' \<noteq> m \<longrightarrow> owned m' t = owned m' s)) (unmanage_all E n m t)"
      if t: "fr (cfg E) ?s t \<and> same_owners ?s t" for t
    proof -
      note Wt = fr_wf [OF conjunct1 [OF t]]
      have ot: "owned m' t = owned m' s - {c}" for m'
        using owners_owned [OF conjunct2 [OF t]] owned_free by simp
      obtain k' where k': "mmem t m = Some k'"
        using fr_monitor [OF conjunct1 [OF t], of m] m by auto
      have "set (m_stack k') = set cs"
        using owned_clients [OF Wt k'] wfx_stack_clients [OF Wt k'] ot own Cons d by auto
      moreover have "distinct (m_stack k')" using wfx_lists [OF Wt k'] by (simp add: mon_lists_def)
      moreover have "distinct cs" using d Cons by simp
      ultimately have l: "length (m_stack k') \<le> n"
        using Suc.prems(4) Cons by (metis distinct_card length_Cons Suc_le_mono)
      show ?thesis
      proof (rule res_mono [OF Suc.IH [OF Wt Suc.prems(2) k' l]])
        fix u assume u: "wf (cfg E) u \<and> mons u = mons t \<and> running u = running t \<and> owned m u = {}
          \<and> (\<forall>m'. m' \<noteq> m \<longrightarrow> owned m' u = owned m' t)"
        have "c \<notin> owned m' s" if "m' \<noteq> m" for m' using that j by (auto simp: owned_def)
        then show "wf (cfg E) u \<and> mons u = mons s \<and> running u = running s \<and> owned m u = {}
          \<and> (\<forall>m'. m' \<noteq> m \<longrightarrow> owned m' u = owned m' s)"
          using u ot t by (auto simp: frx_def)
      qed
    qed
    have "unmanage_all E (Suc n) m s = do { s \<leftarrow> unmanage E c False s; unmanage_all E n m s }"
      using Suc.prems(3) Cons by (subst unmanage_all.simps) simp
    then show ?thesis
      using res_bind [OF unmanage_fr [OF W Suc.prems(2) cn] step] by simp
  qed
qed

lemma unmanage_every:
  assumes "wf (cfg E) s" "config_ok (cfg E)" "set ms \<subseteq> set (mons s)"
  shows "res (\<lambda>t. wf (cfg E) t \<and> mons t = mons s \<and> (\<forall>m \<in> set ms. owned m t = {})
      \<and> (\<forall>m. owned m s = {} \<longrightarrow> owned m t = {}))
      (each (\<lambda>m s. do { k \<leftarrow> mmem s m; unmanage_all E (length (m_stack k)) m s }) ms s)"
  using assms
proof (induction ms arbitrary: s)
  case (Cons m ms)
  obtain k where k: "mmem s m = Some k" using wfx_monitor [OF Cons.prems(1)] Cons.prems(3) by auto
  show ?case
    unfolding each.simps k bind.bind_lunit
  proof (rule res_bind [OF unmanage_all_spec [OF Cons.prems(1,2) k order_refl]])
    fix t assume t: "wf (cfg E) t \<and> mons t = mons s \<and> running t = running s \<and> owned m t = {}
      \<and> (\<forall>m'. m' \<noteq> m \<longrightarrow> owned m' t = owned m' s)"
    show "res (\<lambda>u. wf (cfg E) u \<and> mons u = mons s \<and> (\<forall>m \<in> set (m # ms). owned m u = {})
      \<and> (\<forall>m. owned m s = {} \<longrightarrow> owned m u = {}))
      (each (\<lambda>m s. do { k \<leftarrow> mmem s m; unmanage_all E (length (m_stack k)) m s }) ms t)"
    proof (rule res_mono [OF Cons.IH])
      show "wf (cfg E) t" using t by simp
      show "set ms \<subseteq> set (mons t)" using t Cons.prems(3) by simp
      fix u assume u: "wf (cfg E) u \<and> mons u = mons t \<and> (\<forall>m \<in> set ms. owned m u = {})
        \<and> (\<forall>m. owned m t = {} \<longrightarrow> owned m u = {})"
      have "owned m' t = {}" if "owned m' s = {}" for m' using t that by (cases "m' = m") auto
      then show "wf (cfg E) u \<and> mons u = mons s \<and> (\<forall>m \<in> set (m # ms). owned m u = {})
        \<and> (\<forall>m. owned m s = {} \<longrightarrow> owned m u = {})" using t u by auto
    qed (rule Cons.prems(2))
  qed
qed simp

lemma cleanupmon_every:
  assumes "distinct (mons s)" "dom (mmem s) = set (mons s)"
  shows "res (\<lambda>t. mons t = [] \<and> mmem t = Map.empty \<and> clis t = clis s) (each cleanupmon (mons s) s)"
  using assms
proof (induction "mons s" arbitrary: s)
  case (Cons m ms)
  obtain k where k: "mmem s m = Some k" using Cons.prems(2) Cons.hyps(2) by (metis domD list.set_intros(1))
  let ?t = "emit (XDestroyWindow (m_barwin k)) (emit (XUnmapWindow (m_barwin k))
     (s\<lparr>mons := remove1 m (mons s), mmem := (mmem s)(m := None)\<rparr>))"
  have c: "cleanupmon m s = Some ?t" by (rule cleanupmon_Some [OF _ k]) (simp flip: Cons.hyps(2))
  have m: "mons ?t = ms" by (simp flip: Cons.hyps(2))
  have "res (\<lambda>u. mons u = [] \<and> mmem u = Map.empty \<and> clis u = clis ?t) (each cleanupmon (mons ?t) ?t)"
  proof (rule Cons.hyps(1))
    show "ms = mons ?t" using m by simp
    show "distinct (mons ?t)" using m Cons.prems(1) by (simp flip: Cons.hyps(2))
    have "m \<notin> set ms" using Cons.prems(1) by (simp flip: Cons.hyps(2))
    then have "set ms = set (mons s) - {m}" by (auto simp flip: Cons.hyps(2))
    then show "dom (mmem ?t) = set (mons ?t)" using m Cons.prems(2) by auto
  qed
  then show ?case using c m by (simp flip: Cons.hyps(2))
qed auto

text \<open>Nothing is left when the program returns.\<close>

lemma cleanup_all:
  assumes W: "wf (cfg E) s" and ok: "config_ok (cfg E)" and r: "\<not> running s"
  shows "res (\<lambda>t. clis t = Map.empty \<and> mmem t = Map.empty \<and> mons t = []) (cleanup E s)"
proof -
  have F: "fr (cfg E) s s" by (rule fr_refl [OF W])
  have 2: "res (fr (cfg E) s) (modm (selmon u) (\<lambda>m. m\<lparr>m_lt := (m_lt m)[m_sellt m := LtFoo]\<rparr>) u)"
    if u: "fr (cfg E) s u" for u
  proof (rule fr_upd_mon [OF u])
    show "mmem u (selmon u) \<noteq> None" using fr_selm [OF u] by (simp add: selm_def)
    fix k assume S: "mon_shape (cfg E) (bh u) (running u) k"
    have "\<not> running u" using u r by (simp add: frx_def)
    then have l: "lt_ok (cfg E) (running u) LtFoo" by (simp add: lt_ok_def deref_layout_def)
    have "\<forall>l \<in> set ((m_lt k)[m_sellt k := LtFoo]). lt_ok (cfg E) (running u) l"
      by (rule ball_update [OF mon_shape_lts(1) [OF S] l])
    then show "mon_shape (cfg E) (bh u) (running u) (k\<lparr>m_lt := (m_lt k)[m_sellt k := LtFoo]\<rparr>)"
      using mon_shapeD [OF S] mon_shape_lts(2) [OF S] by (intro mon_shapeI) (simp_all add: base_shape_def)
  qed (simp add: keeps_lists_def)
  let ?P = "\<lambda>t. wf (cfg E) t \<and> (\<forall>m \<in> set (mons t). owned m t = {})"
  have 3: "res ?P (each (\<lambda>m s. do { k \<leftarrow> mmem s m; unmanage_all E (length (m_stack k)) m s }) (mons u) u)"
    if u: "fr (cfg E) s u" for u
    by (rule res_mono [OF unmanage_every [OF fr_wf [OF u] ok order_refl]]) auto
  have 4: "res (\<lambda>t. clis t = Map.empty \<and> mmem t = Map.empty \<and> mons t = [])
      (do { s \<leftarrow> each cleanupmon (mons u) (emit XUngrabKey u);
            Some (fold emit [XDestroyWindow (wmcheckwin s), XSync, XSetInputFocusPointerRoot,
               XDeleteProperty RootWin (netatom E NetActiveWindow)] s) })" if u: "?P u" for u
  proof -
    have "clis u = Map.empty"
    proof (rule ext, rule ccontr)
      fix c assume "clis u c \<noteq> None"
      then obtain j where j: "clis u c = Some j" by auto
      then have "c \<in> owned (c_mon j) u" by (simp add: owned_def)
      then show False using u wfx_owner [OF conjunct1 [OF u] j] by auto
    qed
    moreover have "res (\<lambda>t. mons t = [] \<and> mmem t = Map.empty \<and> clis t = clis (emit XUngrabKey u))
        (each cleanupmon (mons (emit XUngrabKey u)) (emit XUngrabKey u))"
      by (rule cleanupmon_every) (use wfx_distinct_mons [OF conjunct1 [OF u]] wfx_dom [OF conjunct1 [OF u]] in simp_all)
    ultimately show ?thesis by (auto simp: res_iff)
  qed
  show ?thesis
    unfolding cleanup_def
    by (intro res_bind [OF view_fr [OF F ok]] res_bind [OF 2] res_bind [OF 3] 4)
qed

section \<open>Growing\<close>

lemma grows_refl: "wf cf s \<Longrightarrow> grows cf s s"
  by (simp add: grows_def)

lemma grows_trans: "grows cf s t \<Longrightarrow> grows cf t u \<Longrightarrow> grows cf s u"
  by (simp add: grows_def)

lemma grows_wf: "grows cf s t \<Longrightarrow> wf cf t"
  by (simp add: grows_def)

lemma fr_grows: "fr cf s t \<Longrightarrow> grows cf s t"
  by (simp add: frx_def grows_def)

lemma grows_alive: "grows cf s t \<Longrightarrow> clis s c \<noteq> None \<Longrightarrow> clis t c \<noteq> None"
  by (simp add: grows_def)

lemma grows_fr: "grows cf s t \<Longrightarrow> fr cf t t"
  by (rule fr_refl) (rule grows_wf)

lemma res_grows:
  assumes "grows cf s t" "fr cf t t \<Longrightarrow> res (fr cf t) p"
  shows "res (grows cf s) p"
  by (rule res_mono [OF assms(2) [OF grows_fr [OF assms(1)]]]) (blast intro: grows_trans [OF assms(1)] fr_grows)

lemma manage_all_grows:
  assumes "grows (cfg E) s t" "env_ok E"
  shows "res (grows (cfg E) s) (manage E w wa t)"
  by (rule res_mono [OF manage_grows [OF grows_wf [OF assms(1)] assms(2)]]) (rule grows_trans [OF assms(1)])

lemma scan_window_grows:
  assumes "grows (cfg E) s t" "env_ok E"
  shows "res (grows (cfg E) s) (scan_window E b w t)"
  unfolding scan_window_def Let_def
  by (intro res_option_case res_if manage_all_grows assms) (simp_all add: assms)

lemma scan_grows:
  assumes W: "wf (cfg E) s" and ok: "env_ok E"
  shows "res (grows (cfg E) s) (scan E s)"
proof (cases "XQueryTree E (xlog s)")
  case None
  then show ?thesis using W by (simp add: scan_def grows_refl)
next
  case (Some wins)
  have *: "res (grows (cfg E) s) (each (scan_window E b) wins t)" if "grows (cfg E) s t" for b t
    by (rule res_each [where I = "grows (cfg E) s"]) (simp_all add: that scan_window_grows ok)
  show ?thesis using Some by (simp add: scan_def) (intro res_bind [OF *] * grows_refl W)
qed

lemma killclient_fr [fr_intro]:
  assumes F: "fr (cfg E) s t"
  shows "res (fr (cfg E) s) (killclient E u t)"
proof -
  obtain m where m: "selm t = Some m" "mmem t (selmon t) = Some m" using wfx_selmon [OF fr_wf [OF F]] by metis
  have al: "\<exists>j. clis v c = Some j" if "fr (cfg E) s v" "c \<in> set (m_clients m)" for v c
    by (rule fr_still(1) [OF that(1) F m(2) that(2)])
  have al': "\<exists>j. clis t c = Some j" if "m_sel m = Some c" for c
    by (rule fr_still(3) [OF F F m(2) that])
  show ?thesis
    unfolding killclient_def m(1) bind.bind_lunit
    by (intro fr_intro res_intro) (use F al al' in auto)
qed

lemma killclientev_fr:
  "fr (cfg E) s t \<Longrightarrow> (\<And>c. v = Some c \<Longrightarrow> clis t c \<noteq> None) \<Longrightarrow> res (fr (cfg E) s) (killclientev E v t)"
  unfolding killclientev_def by (intro fr_intro res_intro) auto

lemma spawn_fr [fr_intro]:
  "fr cf s t \<Longrightarrow> res (fr cf s) (spawn E cmd t)"
  by (simp add: spawn_def fork_exec_def)

section \<open>The processes\<close>

text \<open>A list of commands as the configuration writes it.\<close>

definition flatten_commands :: "string list list \<Rightarrow> string option list" where
  "flatten_commands cmds = concat (map (\<lambda>ws. map Some ws @ [None]) cmds) @ [None]"

lemma autostart_word_list:
  "autostart_commands cur (map Some ws @ rest) = autostart_commands (cur @ ws) rest"
  by (induction ws arbitrary: cur) simp_all

lemma autostart_commands_flatten:
  assumes "[] \<notin> set cmds"
  shows "autostart_commands [] (flatten_commands cmds) = Some cmds"
  using assms
proof (induction cmds)
  case Nil
  then show ?case by (simp add: flatten_commands_def)
next
  case (Cons ws cmds)
  have "flatten_commands (ws # cmds) = map Some ws @ None # flatten_commands cmds"
    by (simp add: flatten_commands_def)
  then show ?case using Cons by (auto simp: autostart_word_list)
qed

lemma each_fork:
  "\<exists>pids. length pids = length cmds \<and>
     each (\<lambda>cmd s. let (pid, s) = fork_exec E cmd s
                   in Some (s\<lparr>autostart_pids := autostart_pids s @ [pid]\<rparr>)) cmds s
       = Some (s\<lparr>autostart_pids := autostart_pids s @ pids, xlog := xlog s @ map ForkExec cmds\<rparr>)"
proof (induction cmds arbitrary: s)
  case (Cons cmd cmds)
  let ?s = "s\<lparr>xlog := xlog s @ [ForkExec cmd], autostart_pids := autostart_pids s @ [fork_pid E (xlog s)]\<rparr>"
  obtain pids where p: "length pids = length cmds"
    "each (\<lambda>cmd s. let (pid, s) = fork_exec E cmd s
                   in Some (s\<lparr>autostart_pids := autostart_pids s @ [pid]\<rparr>)) cmds ?s
       = Some (?s\<lparr>autostart_pids := autostart_pids ?s @ pids, xlog := xlog ?s @ map ForkExec cmds\<rparr>)"
    using Cons.IH [of ?s] by blast
  then show ?case
    by (intro exI [of _ "fork_pid E (xlog s) # pids"]) (simp add: fork_exec_def emit_def Let_def)
qed simp

end
