(* ===== verification/HandlerFrames.thy ===== *)
theory HandlerFrames
  imports Clients
begin

text \<open>
  The event handlers other than those that run a command: which of them keep the structure with
  all clients (\<open>fr\<close>), may add clients (\<open>grows\<close>), or may remove clients and monitors (\<open>stays\<close>).
\<close>

section \<open>Handlers\<close>

lemma request_geometry_frame [simp]:
  "c_mon (request_geometry r m k) = c_mon k" "c_name (request_geometry r m k) = c_name k"
  by (simp_all add: request_geometry_def Let_def split: option.splits)

lemma fr_arr_sel_bind:
  assumes "fr (cfg E) s t" "\<And>a. res (fr (cfg E) s) (f a)"
  shows "res (fr (cfg E) s) ((if b then Some None else do { m \<leftarrow> selm t; arrange_of E m }) \<bind> f)"
proof -
  obtain m where m: "selm t = Some m" "mmem t (selmon t) = Some m" using wfx_selmon [OF fr_wf [OF assms(1)]] by metis
  obtain a where "arrange_of E m = Some a"
    using arrange_of_total [OF wfx_shape [OF fr_wf [OF assms(1)] m(2)]] by auto
  then show ?thesis using m(1) assms(2) by simp
qed

lemma configurerequest_fr [fr_intro]:
  assumes F: "fr (cfg E) s t"
  shows "res (fr (cfg E) s) (configurerequest E w r t)"
proof -
  have sync: "res (fr (cfg E) s) (Some (emit XSync u))" if "fr (cfg E) s u" for u
    using that by simp
  show ?thesis
    unfolding configurerequest_def
    by (intro fr_arr_sel_bind fr_intro res_intro sync) (use F in \<open>auto intro: fr_still fr_selm_ex\<close>)
qed

lemma fr_wintomon_bind:
  assumes "frx cf X s t" "\<And>m. m \<in> set (mons s) \<Longrightarrow> res (frx cf X s) (f m)"
  shows "res (frx cf X s) (wintomon E w t \<bind> f)"
  using wintomon_total [OF fr_wf [OF assms(1)], of E w] fr_mons [OF assms(1)] assms(2) by auto

lemma expose_fr [fr_intro]:
  assumes F: "fr (cfg E) s t" and ok: "config_ok (cfg E)"
  shows "res (fr (cfg E) s) (expose E w n t)"
  unfolding expose_def
  by (intro fr_wintomon_bind fr_intro res_intro) (use F ok fr_monitor [OF F] in auto)

lemma maprequest_grows:
  assumes G: "grows (cfg E) s t" and ok: "env_ok E"
  shows "res (grows (cfg E) s) (maprequest E w t)"
proof -
  obtain r where "wintoclient t w = Some r" using wintoclient_total [OF grows_wf [OF G], of w] by blast
  then show ?thesis
    unfolding maprequest_def
    by (intro res_intro) (use G manage_all_grows [OF G ok] in auto)
qed

lemma property_switch_fr:
  assumes F: "fr (cfg E) s t" and ok: "config_ok (cfg E)" and c: "clis t c \<noteq> None"
  shows "res (fr (cfg E) s) (property_switch E c a t)"
  unfolding property_switch_def
  by (intro fr_intro res_intro) (use F ok c in \<open>auto intro: fr_still fr_selm_ex\<close>)

lemma fr_still_mon:
  "frx cf X s t \<Longrightarrow> clis t c = Some k \<Longrightarrow> \<exists>m. mmem t (c_mon k) = Some m"
  using fr_monitor [OF _ fr_c_mon] by fast

lemma propertynotify_fr [fr_intro]:
  assumes F: "fr (cfg E) s t" and ok: "env_ok E"
  shows "res (fr (cfg E) s) (propertynotify E w a d t)"
proof -
  have cok: "config_ok (cfg E)" and tok: "titles_ok E" using ok by blast+
  have title: "res (fr (cfg E) s) (do {
        s \<leftarrow> updatetitle E c u;
        k \<leftarrow> clis s c;
        m \<leftarrow> mmem s (c_mon k);
        if m_sel m = Some c then drawbar E (c_mon k) s else Some s })"
    if u: "fr (cfg E) s u" and c: "clis t c \<noteq> None" for u c
  proof -
    have al: "clis v c \<noteq> None" if "fr (cfg E) s v" for v
      by (rule fr_alive [OF that fr_alive_back [OF F c]])
    show ?thesis
      by (intro updatetitle_fr fr_intro res_if)
        (use u al cok tok in \<open>auto intro: fr_still_mon\<close>)
  qed
  have al: "clis v c \<noteq> None" if "fr (cfg E) s v" "clis t c \<noteq> None" for v c
    by (rule fr_alive [OF that(1) fr_alive_back [OF F that(2)]])
  have handler: "res (fr (cfg E) s) (do {
            s \<leftarrow> property_switch E c a t;
            s \<leftarrow> (if a = XA_WM_NAME \<or> a = netatom E NetWMName then
                   do {
                     s \<leftarrow> updatetitle E c s;
                     k \<leftarrow> clis s c;
                     m \<leftarrow> mmem s (c_mon k);
                     if m_sel m = Some c then drawbar E (c_mon k) s else Some s }
                 else Some s);
            s \<leftarrow> (if a = netatom E NetWMWindowType then updatewindowtype E c s else Some s);
            if a = motifatom E then updatemotifhints E c s else Some s })" if c: "clis t c \<noteq> None" for c
  proof (rule fr_bind [OF property_switch_fr [OF F cok c]])
    fix u assume u: "fr (cfg E) s u"
    have 1: "res (fr (cfg E) s) (if a = XA_WM_NAME \<or> a = netatom E NetWMName then
                   do {
                     s \<leftarrow> updatetitle E c u;
                     k \<leftarrow> clis s c;
                     m \<leftarrow> mmem s (c_mon k);
                     if m_sel m = Some c then drawbar E (c_mon k) s else Some s }
                 else Some u)"
      by (intro res_if title u c) (simp add: u)
    show "res (fr (cfg E) s) (do {
            s \<leftarrow> (if a = XA_WM_NAME \<or> a = netatom E NetWMName then
                   do {
                     s \<leftarrow> updatetitle E c u;
                     k \<leftarrow> clis s c;
                     m \<leftarrow> mmem s (c_mon k);
                     if m_sel m = Some c then drawbar E (c_mon k) s else Some s }
                 else Some u);
            s \<leftarrow> (if a = netatom E NetWMWindowType then updatewindowtype E c s else Some s);
            if a = motifatom E then updatemotifhints E c s else Some s })"
      by (rule fr_bind [OF 1], intro fr_bind updatewindowtype_fr fr_intro res_if)
        (use cok al c in auto)
  qed
  show ?thesis
    unfolding propertynotify_def
    by (intro handler res_intro fr_wintoclient_bind fr_ops) (use F cok in auto)
qed

lemma fr_cmon_sel:
  assumes "frx cf X s t" "clis t c = Some k"
  shows "frx cf X s (t\<lparr>selmon := c_mon k\<rparr>)"
  by (rule fr_selmon [OF assms(1)]) (rule fr_c_mon [OF assms])

lemma clientmessage_fr [fr_intro]:
  assumes F: "fr (cfg E) s t" and ok: "config_ok (cfg E)"
  shows "res (fr (cfg E) s) (clientmessage E w ty d t)"
proof -
  have al: "clis v c \<noteq> None" if "fr (cfg E) s v" "clis t c \<noteq> None" for v c
    by (rule fr_alive [OF that(1) fr_alive_back [OF F that(2)]])
  have state: "res (fr (cfg E) s) (do {
               k \<leftarrow> clis t c;
               s \<leftarrow> (if data d 1 = netatom E NetWMFullscreen \<or> data d 2 = netatom E NetWMFullscreen
                    then setfullscreen E c (data d 0 = 1 \<or> data d 0 = 2 \<and> \<not> c_isfullscreen k) t
                    else Some t);
               k \<leftarrow> clis s c;
               if data d 1 = netatom E NetWMSticky \<or> data d 2 = netatom E NetWMSticky
               then setsticky E c (data d 0 = 1 \<or> data d 0 = 2 \<and> \<not> c_issticky k) s
               else Some s })" if c: "clis t c \<noteq> None" for c
    by (intro setfullscreen_fr setsticky_fr fr_intro res_if) (use F ok al c in auto)
  have active: "res (fr (cfg E) s) (do {
               k \<leftarrow> clis t c;
               case find (\<lambda>i. bit (c_tags k) i) [0..<ntags (cfg E)] of
                 None \<Rightarrow> Some t
               | Some i \<Rightarrow> do {
                   s \<leftarrow> view E (push_bit i 1) (t\<lparr>selmon := c_mon k\<rparr>);
                   s \<leftarrow> focus E (Some c) s;
                   restack E (selmon s) s } })" if c: "clis t c \<noteq> None" for c
    by (intro fr_client_bind res_option_case fr_bind view_fr focus_fr focus_fr_ops fr_cmon_sel)
      (use F ok al c in \<open>auto dest: fr_selm simp: selm_def\<close>)
  have desktop: "res (fr (cfg E) s) (do {
               s \<leftarrow> modc c (\<lambda>k. k\<lparr>c_tags := word_of_int (data d 0)\<rparr>) t;
               k \<leftarrow> clis s c;
               arrange E (Some (c_mon k)) s })" if c: "clis t c \<noteq> None" for c
    by (intro fr_intro) (use F ok al c in \<open>auto intro: fr_still_mon\<close>)
  show ?thesis
    unfolding clientmessage_def
    by (intro fr_wintoclient_bind res_option_case res_if state active desktop killclientev_fr) (use F in auto)
qed

lemma refit_fullscreen_fr:
  assumes F: "fr (cfg E) s t" and m: "m \<in> set (mons s)"
  shows "res (fr (cfg E) s) (refit_fullscreen E m t)"
proof -
  obtain k where k: "mmem t m = Some k" using fr_monitor [OF F m] by auto
  show ?thesis
    unfolding refit_fullscreen_def k bind.bind_lunit
    by (intro fr_intro res_intro) (use F fr_still(1) [OF _ F k] in auto)
qed

lemma updatebars_fr [fr_intro]:
  assumes F: "fr (cfg E) s t"
  shows "res (fr (cfg E) s) (updatebars E t)"
proof -
  have "res (fr (cfg E) s) (modm m (\<lambda>k. k\<lparr>m_barwin := w\<rparr>) u)" if "fr (cfg E) s u" "mmem u m \<noteq> None" for u m w
    by (rule fr_pertag_upd [OF that])
      (use mon_shapeD in \<open>auto simp: keeps_lists_def base_shape_def pertag_shape_def\<close>)
  moreover have "m \<in> set (mons s)" if "m \<in> set (mons t)" for m using that fr_mons [OF F] by simp
  ultimately show ?thesis
    unfolding updatebars_def Let_def
    by (intro fr_intro res_intro) (use F fr_monitor in auto)
qed

text \<open>What an event other than \<open>quit\<close> keeps when the monitors may change.\<close>

definition stays :: "config \<Rightarrow> wm \<Rightarrow> wm \<Rightarrow> bool" where
  "stays cf s t \<longleftrightarrow> wf cf t \<and> bh t = bh s"

lemma fr_stays: "fr cf s t \<Longrightarrow> stays cf s t"
  by (simp add: frx_def stays_def)

lemma grows_stays: "grows cf s t \<Longrightarrow> stays cf s t"
  by (simp add: grows_def stays_def)

text \<open>A new size of the root window has to be good for the configuration.\<close>

lemma configurenotify_stays:
  assumes W: "wf (cfg E) s" and ok: "config_ok (cfg E)"
    and S: "w = root E \<Longrightarrow> 0 < width \<and> screen_ok (cfg E) (bh s) height \<and> screens_ok E (bh s)"
  shows "res (stays (cfg E) s) (configurenotify E w width height s)"
proof (cases "w = root E")
  case False
  then show ?thesis using W by (simp add: configurenotify_def stays_def)
next
  case True
  let ?s = "s\<lparr>sw := width, sh := height\<rparr>"
  have Ws: "wf (cfg E) ?s" using W S [OF True] by (simp add: wfx_def)
  have 1: "res (\<lambda>(d, t). wf (cfg E) t \<and> same_screen ?s t) (updategeom E ?s)"
    by (rule updategeom_wf [OF _ ok]) (use Ws S [OF True] in auto)
  have 2: "res (stays (cfg E) s) (do {
        s \<leftarrow> updatebars E (emit (DrwResize (sw t) (bh t)) t);
        s \<leftarrow> each (refit_fullscreen E) (mons s) s;
        s \<leftarrow> focus E None s;
        arrange E None s })" if t: "wf (cfg E) t" "bh t = bh s" for t
  proof -
    have F: "fr (cfg E) t t" by (rule fr_refl [OF t(1)])
    have "res (fr (cfg E) t) (do {
        s \<leftarrow> updatebars E (emit (DrwResize (sw t) (bh t)) t);
        s \<leftarrow> each (refit_fullscreen E) (mons s) s;
        s \<leftarrow> focus E None s;
        arrange E None s })"
      by (intro fr_bind updatebars_fr fr_each refit_fullscreen_fr focus_fr arrange_all_fr)
        (use F ok in \<open>auto dest: fr_mons\<close>)
    then show ?thesis by (rule res_mono) (use t(2) in \<open>auto simp: frx_def stays_def\<close>)
  qed
  have nT: "\<not> w \<noteq> root E" using True by simp
  show ?thesis
    unfolding configurenotify_def Let_def if_not_P [OF nT]
  proof (rule res_bind [OF 1], clarify)
    fix d t assume t: "wf (cfg E) t" "same_screen ?s t"
    then have b: "bh t = bh s" by (simp add: same_screen_def)
    have "res (stays (cfg E) s) (Some t)" using t(1) b by (simp add: stays_def)
    then show "res (stays (cfg E) s) (if d \<or> (sw s \<noteq> width \<or> sh s \<noteq> height) then do {
        s \<leftarrow> updatebars E (emit (DrwResize (sw t) (bh t)) t);
        s \<leftarrow> each (refit_fullscreen E) (mons s) s;
        s \<leftarrow> focus E None s;
        arrange E None s } else Some t)"
      using 2 [OF t(1) b] by presburger
  qed
qed

lemma unmanage_stays:
  assumes "wf (cfg E) s" "config_ok (cfg E)" "clis s c \<noteq> None"
  shows "res (stays (cfg E) s) (unmanage E c d s)"
  by (rule res_mono [OF unmanage_fr [OF assms]]) (auto simp: frx_def stays_def)

lemma destroynotify_stays:
  assumes W: "wf (cfg E) s" and ok: "config_ok (cfg E)"
  shows "res (stays (cfg E) s) (destroynotify E w s)"
proof -
  obtain r where r: "wintoclient s w = Some r" "\<And>c. r = Some c \<Longrightarrow> clis s c \<noteq> None"
    using wintoclient_total [OF W, of w] by (metis option.distinct(1))
  then show ?thesis
    using unmanage_stays [OF W ok] W by (cases r) (auto simp: destroynotify_def stays_def)
qed

lemma unmapnotify_stays:
  assumes W: "wf (cfg E) s" and ok: "config_ok (cfg E)"
  shows "res (stays (cfg E) s) (unmapnotify E w b s)"
proof -
  obtain r where r: "wintoclient s w = Some r" "\<And>c. r = Some c \<Longrightarrow> clis s c \<noteq> None"
    using wintoclient_total [OF W, of w] by (metis option.distinct(1))
  have "res (stays (cfg E) s) (setclientstate E c WithdrawnState s)" if "clis s c \<noteq> None" for c
    by (rule res_mono [OF setclientstate_cosm [OF cosm_refl that]])
      (use W fr_stays cosm_fr fr_refl in blast)
  then show ?thesis
    using r unmanage_stays [OF W ok] W by (cases r) (auto simp: unmapnotify_def stays_def)
qed

lemma mappingnotify_fr [fr_intro]:
  assumes "fr (cfg E) s t"
  shows "res (fr (cfg E) s) (mappingnotify E b t)"
proof -
  have "fr (cfg E) s (grabkeys E (emit XRefreshKeyboardMapping t))"
    by (rule cosm_fr [OF _ assms]) simp
  then show ?thesis using assms by (simp add: mappingnotify_def Let_def)
qed

end
