(* ===== verification/MouseFrames.thy ===== *)
theory MouseFrames
  imports HandlerFrames
begin

text \<open>
  The three commands that drag with the mouse. Each runs a loop over the events that arrive until
  the button is released; the lemmas show that a drag which ends keeps the structure and that
  every client it picks up is put down again.
\<close>

section \<open>Picking up and putting down\<close>

lemma frx_detach_stack_first:
  assumes F: "fr (cfg E) s t" and ok: "config_ok (cfg E)" and c: "clis t c \<noteq> None"
  shows "res (frx (cfg E) {c} s) (do { s \<leftarrow> detachstack c t; detach E c s })"
proof -
  note W = fr_wf [OF F]
  have n: "ntags (cfg E) \<le> 32" using ok by (simp add: config_ok_def)
  obtain j where j: "clis t c = Some j" using c by auto
  obtain k where k: "mmem t (c_mon j) = Some k" "c \<in> set (m_clients k)" using wfx_listedD [OF W j] by auto
  have al: "clis t a \<noteq> None" if "a \<in> set (m_stack k)" for a
    using that wfx_stack_clients [OF W k(1)] wfx_clientD [OF W k(1)] by auto
  have tt: "t = t\<lparr>mmem := (mmem t)(c_mon j \<mapsto> k)\<rparr>" using k(1) by (simp add: fun_upd_idem)
  obtain x where x: "detachstack c t = Some (t\<lparr>mmem := (mmem t)(c_mon j \<mapsto> k\<lparr>m_stack := remove1 c (m_stack k), m_sel := x\<rparr>)\<rparr>)"
    "m_sel k = Some c \<Longrightarrow> x = None \<or> (\<exists>a. x = Some a \<and> a \<in> set (remove1 c (m_stack k)) \<and> ISVISIBLE t a = Some True)"
    "m_sel k \<noteq> Some c \<Longrightarrow> x = m_sel k"
    by (rule detachstack_Some [OF W tt j k(1) refl al]) (assumption | rule that)+
  let ?k1 = "k\<lparr>m_stack := remove1 c (m_stack k), m_sel := x\<rparr>"
  let ?t1 = "t\<lparr>mmem := (mmem t)(c_mon j \<mapsto> ?k1)\<rparr>"
  let ?k2 = "k\<lparr>m_tagmarked := clear_marks (ntags (cfg E)) c (m_tagmarked k),
    m_clients := remove1 c (m_clients k), m_stack := remove1 c (m_stack k), m_sel := x\<rparr>"
  let ?t2 = "t\<lparr>mmem := (mmem t)(c_mon j \<mapsto> ?k2)\<rparr>"
  have ke: "?k1\<lparr>m_tagmarked := clear_marks (ntags (cfg E)) c (m_tagmarked ?k1), m_clients := remove1 c (m_clients ?k1)\<rparr> = ?k2"
    by (rule monitor.equality) simp_all
  have "detach E c ?t1 = Some (?t1\<lparr>mmem := (mmem ?t1)(c_mon j \<mapsto>
      ?k1\<lparr>m_tagmarked := clear_marks (ntags (cfg E)) c (m_tagmarked ?k1), m_clients := remove1 c (m_clients ?k1)\<rparr>)\<rparr>)"
    by (rule detach_Some) (use j in simp_all)
  then have d: "detach E c ?t1 = Some ?t2" unfolding ke by simp
  have sel: "a \<in> set (remove1 c (m_stack k))" if "x = Some a" for a
  proof (cases "m_sel k = Some c")
    case True
    then show ?thesis using x(2) that by auto
  next
    case False
    then have "m_sel k = Some a" "a \<noteq> c" using x(3) that by auto
    then show ?thesis
      using wfx_sel_client [OF W k(1), of a] wfx_stack_clients [OF W k(1)] by (simp add: in_set_remove1)
  qed
  have L: "mon_lists (cfg E) ?k2"
    by (rule mon_lists_remove [OF wfx_lists [OF W k(1)]]) (use wfx_tagmarked [OF W k(1)] n sel in auto)
  have dk: "set (remove1 c (m_clients k)) = set (m_clients k) - {c}"
    using wfx_lists [OF W k(1)] by (simp add: mon_lists_def set_remove1_distinct)
  have "wfx (cfg E) {c} ?t2"
  proof (rule wfx_update [OF W k(1) _ L])
    show "mon_shape (cfg E) (bh t) (running t) ?k2"
      using wfx_shape [OF W k(1)] wfx_tagmarked [OF W k(1)] by (simp add: mon_shape_lists)
    show "a \<notin> {c} \<and> (\<exists>i. clis t a = Some i \<and> c_mon i = c_mon j)" if "a \<in> set (m_clients ?k2)" for a
      using that dk wfx_clientD [OF W k(1), of a] by auto
    show "a \<in> {c} \<or> a \<in> set (m_clients ?k2)" if "clis t a = Some i" "c_mon i = c_mon j" for a i
      using wfx_listedD [OF W that(1)] that(2) k(1) dk by auto
  qed (use j in auto)
  then have "frx (cfg E) {c} s ?t2" using F by (auto simp: frx_def)
  then show ?thesis using x(1) d by simp
qed

text \<open>The monitor \<open>m\<close> has the client \<open>r\<close>, and \<open>r\<close> names \<open>m\<close> as its monitor.\<close>

lemma place_at_fr:
  assumes F: "fr (cfg E) s t" and ok: "config_ok (cfg E)" and c: "clis t c \<noteq> None" and r: "clis t r \<noteq> None" "r \<noteq> c"
  shows "res (fr (cfg E) s) (place_at E c r side t)"
proof -
  have al: "clis v a \<noteq> None" if "frx (cfg E) X s v" "clis t a \<noteq> None" for v a X
    by (rule fr_alive [OF that(1) fr_alive_back [OF F that(2)]])
  show ?thesis
    unfolding place_at_def
  proof (rule res_bind2 [OF frx_detach_stack_first [OF F ok c]])
    fix u assume u: "frx (cfg E) {c} s u"
    obtain k where k: "clis u c = Some k" using al [OF u c] by auto
    obtain rk where rk: "clis u r = Some rk" using al [OF u r(1)] by auto
    define m where "m = c_mon rk"
    have ms: "m \<in> set (mons s)" unfolding m_def by (rule fr_c_mon [OF u rk])
    obtain mk where "mmem u m = Some mk" using fr_monitor [OF u ms] by auto
    then have M: "member m r u" using fr_listed [OF u rk] r(2) by (auto simp: member_def m_def)
    let ?Q = "\<lambda>v. frx (cfg E) {c} s v \<and> member m r v"
    have 1: "res ?Q (if c_mon k \<noteq> m then do {
                s \<leftarrow> arrangemon E (c_mon k) u;
                m \<leftarrow> mmem s m;
                modc c (\<lambda>k. k\<lparr>c_tags := tagsel m\<rparr>) s } else Some u)"
    proof -
      have a: "res ?Q (arrangemon E (c_mon k) u)"
      proof (rule res_mono)
        show "res (cosm u) (arrangemon E (c_mon k) u)"
          by (rule arrangemon_cosm [OF cosm_refl fr_wf [OF u] ok fr_monitor [OF u fr_c_mon [OF u k]]])
      qed (use cosm_fr [OF _ u] cosm_member [OF _ M] in blast)
      have b: "res ?Q (do { m \<leftarrow> mmem v m; modc c (\<lambda>k. k\<lparr>c_tags := tagsel m\<rparr>) v })" if v: "?Q v" for v
      proof -
        obtain j where j: "clis v c = Some j" using al c v by blast
        obtain mv where mv: "mmem v m = Some mv" using v by (auto simp: member_def)
        have "res (frx (cfg E) {c} s) (modc c (\<lambda>k. k\<lparr>c_tags := tagsel mv\<rparr>) v)"
          by (rule fr_modc) (use v j in auto)
        then show ?thesis using mv j v by (simp add: modc_def member_def)
      qed
      show ?thesis by (intro res_if res_bind [OF a] b) (use u M in auto)
    qed
    let ?R = "\<lambda>v. ?Q v \<and> (\<exists>j. clis v c = Some j \<and> c_mon j = m)"
    have 2: "res ?R (modc c (\<lambda>k. k\<lparr>c_mon := m\<rparr>) v)" if v: "?Q v" for v
    proof -
      obtain j where j: "clis v c = Some j" using al c v by blast
      have "res (frx (cfg E) {c} s) (modc c (\<lambda>k. k\<lparr>c_mon := m\<rparr>) v)"
        by (rule frx_modc_transit) (use v j ms in auto)
      then show ?thesis using j v by (simp add: modc_def member_def)
    qed
    have 3: "res ?R (modm m (\<lambda>m. m\<lparr>m_sel := Some r\<rparr>) v)" if v: "?R v" for v
    proof -
      have "res (frx (cfg E) {c} s) (modm m (\<lambda>m. m\<lparr>m_sel := Some r\<rparr>) v)"
        by (rule fr_set_sel) (use v in auto)
      then show ?thesis using v by (auto simp: modm_def member_def)
    qed
    have 4: "res (fr (cfg E) s) (do {
       mm \<leftarrow> mmem v m;
       s \<leftarrow> (if r \<in> set (m_clients mm) then
              modm m (\<lambda>m. m\<lparr>m_clients :=
                if side \<noteq> 0 then insert_before r c (m_clients m)
                else insert_after r c (m_clients m)\<rparr>) v
            else None);
       s \<leftarrow> attachstack c s;
       arrangemon E m s })" if v: "?R v" for v
    proof -
      obtain j where j: "clis v c = Some j" "c_mon j = m" using v by blast
      obtain mm where mm: "mmem v m = Some mm" "r \<in> set (m_clients mm)" using v by (auto simp: member_def)
      define cs where "cs = (if side \<noteq> 0 then insert_before r c (m_clients mm) else insert_after r c (m_clients mm))"
      note W = fr_wf [OF conjunct1 [OF conjunct1 [OF v]]]
      have nc: "c \<notin> set (m_clients mm)" using wfx_notin [OF W mm(1), of c] by auto
      have d: "distinct (m_clients mm)" using wfx_lists [OF W mm(1)] by (simp add: mon_lists_def)
      have cs: "set cs = insert c (set (m_clients mm))" "distinct cs"
        using set_insert_before [OF mm(2), of c] set_insert_after [OF mm(2), of c]
          distinct_insert_before [OF d nc, of r] distinct_insert_after [OF d nc, of r]
        by (simp_all add: cs_def)
      let ?w = "v\<lparr>mmem := (mmem v)(m \<mapsto> mm\<lparr>m_clients := cs, m_stack := c # m_stack mm\<rparr>)\<rparr>"
      have "wfx (cfg E) ({c} - {c}) (v\<lparr>mmem := (mmem v)(c_mon j \<mapsto> mm\<lparr>m_clients := cs, m_stack := c # m_stack mm\<rparr>)\<rparr>)"
        by (rule wfx_add [OF W j(1) _ _ cs]) (use mm j in auto)
      then have Fw: "fr (cfg E) s ?w" using v j(2) by (auto simp: frx_def)
      have a: "attachstack c (v\<lparr>mmem := (mmem v)(m \<mapsto> mm\<lparr>m_clients := cs\<rparr>)\<rparr>) = Some ?w"
        using attachstack_Some [of "v\<lparr>mmem := (mmem v)(m \<mapsto> mm\<lparr>m_clients := cs\<rparr>)\<rparr>" c j] j by simp
      have "res (fr (cfg E) s) (arrangemon E m ?w)"
        by (rule fr_ops) (use Fw ok in auto)
      then show ?thesis using mm a by (simp add: modm_def cs_def)
    qed
    have e: "m = c_mon rk" by (rule m_def)
    show "res (fr (cfg E) s) (do {
       k \<leftarrow> clis u c;
       rk \<leftarrow> clis u r;
       s \<leftarrow> (if c_mon k \<noteq> c_mon rk then
              do {
                s \<leftarrow> arrangemon E (c_mon k) u;
                m \<leftarrow> mmem s (c_mon rk);
                modc c (\<lambda>k. k\<lparr>c_tags := tagsel m\<rparr>) s }
            else Some u);
       s \<leftarrow> modc c (\<lambda>k. k\<lparr>c_mon := c_mon rk\<rparr>) s;
       s \<leftarrow> modm (c_mon rk) (\<lambda>m. m\<lparr>m_sel := Some r\<rparr>) s;
       m \<leftarrow> mmem s (c_mon rk);
       s \<leftarrow> (if r \<in> set (m_clients m) then
              modm (c_mon rk) (\<lambda>m. m\<lparr>m_clients :=
                if side \<noteq> 0 then insert_before r c (m_clients m)
                else insert_after r c (m_clients m)\<rparr>) s
            else None);
       s \<leftarrow> attachstack c s;
       arrangemon E (c_mon rk) s })"
      unfolding k rk bind.bind_lunit e [symmetric]
      by (intro res_bind [OF 1] res_bind [OF 2] res_bind [OF 3] 4)
  qed
qed

section \<open>Dragging\<close>

definition is_release :: "xevent \<Rightarrow> bool" where
  "is_release e = (case e of ButtonRelease _ _ _ _ \<Rightarrow> True | _ \<Rightarrow> False)"

text \<open>A drag that ends; the other events that arrive meanwhile can only add clients.\<close>

lemma drag_grows:
  assumes "\<exists>e \<in> set es. is_release e" "grows (cfg E) s t" "env_ok E"
    and f: "\<And>x y a v. grows (cfg E) s v \<Longrightarrow> res (\<lambda>(_, w). grows (cfg E) s w) (f x y (a, v))"
  shows "res (\<lambda>(_, _, w). grows (cfg E) s w) (drag E p f es t0 (a, t))"
  using assms(1,2)
proof (induction es arbitrary: t0 a t)
  case (Cons e es)
  note IH = Cons.IH and G = Cons.prems(2)
  have rest: "\<exists>e \<in> set es. is_release e" if "\<not> is_release e" using Cons.prems(1) that by auto
  have next_state: "res (\<lambda>(_, _, w). grows (cfg E) s w) (do { s \<leftarrow> q; drag E p f es t0 (a, s) })"
    if "res (grows (cfg E) s) q" "\<not> is_release e" for q
    by (rule res_bind [OF that(1)]) (rule IH [OF rest [OF that(2)]])
  show ?case
  proof (cases e)
    case (MotionNotify x y xr yr ts)
    then have n: "\<not> is_release e" by (simp add: is_release_def)
    have "res (\<lambda>(_, _, w). grows (cfg E) s w) (do { r \<leftarrow> f x y (a, t); drag E p f es ts r })"
      by (rule res_bind [OF f [OF G]]) (use IH [OF rest [OF n]] in auto)
    then show ?thesis using MotionNotify IH [OF rest [OF n] G] by simp
  next
    case (ConfigureRequest w q)
    have "res (grows (cfg E) s) (configurerequest E w q t)"
      by (rule res_grows [OF G]) (rule configurerequest_fr)
    then show ?thesis using next_state ConfigureRequest by (simp add: is_release_def)
  next
    case (Expose w n)
    have "res (grows (cfg E) s) (expose E w n t)"
      by (rule res_grows [OF G]) (rule expose_fr, use assms(3) in auto)
    then show ?thesis using next_state Expose by (simp add: is_release_def)
  next
    case (MapRequest w)
    have "res (grows (cfg E) s) (maprequest E w t)" by (rule maprequest_grows [OF G assms(3)])
    then show ?thesis using next_state MapRequest by (simp add: is_release_def)
  qed (use G IH [OF rest] in \<open>simp_all add: is_release_def\<close>)
qed simp

lemma move_step_fr:
  assumes F: "fr (cfg E) s t" and ok: "config_ok (cfg E)" and c: "clis t c \<noteq> None"
  shows "res (fr (cfg E) s) (map_option snd (move_step E c ocx ocy x y ex ey (a, t)))"
proof -
  have al: "clis v c \<noteq> None" if "fr (cfg E) s v" for v
    by (rule fr_alive [OF that fr_alive_back [OF F c]])
  obtain k where k: "clis t c = Some k" using c by auto
  obtain m where m: "selm t = Some m" "mmem t (selmon t) = Some m" using wfx_selmon [OF fr_wf [OF F]] by metis
  obtain a where a: "arrange_of E m = Some a"
    using arrange_of_total [OF wfx_shape [OF fr_wf [OF F] m(2)]] by auto
  have 1: "res (fr (cfg E) s) (if b then togglefloating E t else Some t)" for b
    by (intro res_if togglefloating_fr F ok) (use F in simp)
  have 2: "res (fr (cfg E) s) (map_option snd (do {
       k \<leftarrow> clis v c;
       m \<leftarrow> selm v;
       a \<leftarrow> arrange_of E m;
       s \<leftarrow> (if a = None \<or> c_isfloating k then resize E c (nx k) (ny k) (c_w k) (c_h k) True v else Some v);
       Some ((), s) }))" if v: "fr (cfg E) s v" for v nx ny
  proof -
    obtain k where k: "clis v c = Some k" using al [OF v] by auto
    obtain m where m: "selm v = Some m" "mmem v (selmon v) = Some m" using wfx_selmon [OF fr_wf [OF v]] by metis
    obtain a where a: "arrange_of E m = Some a"
      using arrange_of_total [OF wfx_shape [OF fr_wf [OF v] m(2)]] by auto
    have "res (fr (cfg E) s) (if a = None \<or> c_isfloating k then resize E c (nx k) (ny k) (c_w k) (c_h k) True v else Some v)"
      by (intro res_if fr_ops) (use v k in auto)
    then show ?thesis using k m(1) a by (auto simp: res_iff)
  qed
  have e: "map_option snd (p \<bind> q) = p \<bind> (\<lambda>u. map_option snd (q u))" for p :: "wm option" and q :: "wm \<Rightarrow> (unit \<times> wm) option"
    by (cases p) simp_all
  show ?thesis
    unfolding move_step_def Let_def snd_conv k m(1) a bind.bind_lunit e
    by (rule res_bind [OF 1]) (rule 2)
qed

lemma res_snd: "res P (map_option snd p) \<Longrightarrow> res (\<lambda>(_, w). P w) p"
  by (cases p) (auto simp: split_def)

lemma follow_rect_fr:
  assumes F: "fr (cfg E) s t" and ok: "config_ok (cfg E)" and c: "clis t c \<noteq> None"
  shows "res (fr (cfg E) s) (follow_rect E c t)"
proof -
  obtain k where k: "clis t c = Some k" using c by auto
  obtain m where m: "recttomon (c_x k) (c_y k) (c_w k) (c_h k) t = Some m" "m \<in> set (mons t)"
    using recttomon_total [OF fr_wf [OF F]] by blast
  have ms: "m \<in> set (mons s)" using m(2) fr_mons [OF F] by simp
  show ?thesis
    unfolding follow_rect_def k m(1) bind.bind_lunit
    by (intro res_if fr_bind sendmon_fr focus_fr fr_selmon ms F ok) (use c F in auto)
qed

text \<open>The button is released in the end.\<close>

definition drag_ends :: "xenv \<Rightarrow> bool" where
  "drag_ends E \<longleftrightarrow> (\<forall>l. \<exists>e \<in> set (XMaskEvents E l). is_release e)"

lemma grows_emit [simp]: "grows cf s (emit r t) = grows cf s t"
  by (simp add: grows_def)

lemma sel_alive:
  assumes "wf cf t" "selm t = Some m" "m_sel m = Some c"
  shows "clis t c \<noteq> None"
proof -
  have "\<exists>j. clis t c = Some j" by (rule fr_still(4) [OF fr_refl [OF assms(1)] fr_refl [OF assms(1)] assms(2,3)])
  then show ?thesis by simp
qed

lemma movemouse_grows:
  assumes G: "grows (cfg E) s t" and ok: "env_ok E" and D: "drag_ends E"
  shows "res (grows (cfg E) s) (movemouse E t)"
proof -
  note W = grows_wf [OF G]
  have cok: "config_ok (cfg E)" using ok by blast
  obtain m where m: "selm t = Some m" "mmem t (selmon t) = Some m" using wfx_selmon [OF W] by metis
  show ?thesis
  proof (cases "m_sel m")
    case None
    then show ?thesis using m(1) G by (simp add: movemouse_def)
  next
    case (Some c)
    then have c: "clis t c \<noteq> None" using sel_alive [OF W m(1)] by simp
    then obtain k where k: "clis t c = Some k" by auto
    have al: "clis v c \<noteq> None" if "grows (cfg E) t v" for v using grows_alive [OF that c] .
    have gt: "grows (cfg E) s v" if "grows (cfg E) t v" for v by (rule grows_trans [OF G that])
    have 1: "res (grows (cfg E) t) (restack E (selmon t) t)"
      by (rule res_grows [OF grows_refl [OF W]]) (rule focus_fr_ops(1), use cok m in auto)
    have 2: "res (\<lambda>(_, _, w). grows (cfg E) t w) (drag E 16 (move_step E c ox oy x y) es 0 ((), v))"
      if v: "grows (cfg E) t v" and es: "\<exists>e \<in> set es. is_release e" for v ox oy x y es
    proof (rule drag_grows [OF es v ok])
      fix ex ey a u assume u: "grows (cfg E) t u"
      have "res (grows (cfg E) t) (map_option snd (move_step E c ox oy x y ex ey (a, u)))"
        by (rule res_grows [OF u]) (rule move_step_fr [OF _ cok al [OF u]])
      then show "res (\<lambda>(_, w). grows (cfg E) t w) (move_step E c ox oy x y ex ey (a, u))" by (rule res_snd)
    qed
    have 3: "res (grows (cfg E) t) (follow_rect E c (emit XUngrabPointer v))" if v: "grows (cfg E) t v" for v
      by (rule res_grows) (use v follow_rect_fr [OF _ cok] al in auto)
    have 4: "res (grows (cfg E) t) (do {
             k \<leftarrow> clis u c;
             let s = emit (XGrabPointer CurMove) u;
             if \<not> XGrabPointerOk E (xlog s) then Some s
             else case getrootptr E s of
               None \<Rightarrow> Some s
             | Some (x, y) \<Rightarrow> do {
                 (_, _, s) \<leftarrow> drag E 16 (move_step E c (c_x k) (c_y k) x y)
                                (XMaskEvents E (xlog s)) 0 ((), s);
                 follow_rect E c (emit XUngrabPointer s) } })" if u: "grows (cfg E) t u" for u
    proof -
      obtain ku where ku: "clis u c = Some ku" using al [OF u] by auto
      show ?thesis
        unfolding ku bind.bind_lunit Let_def
        by (intro res_if res_option_case res_prod_case res_bind [OF 2] 3)
          (use u D in \<open>auto simp: drag_ends_def intro: 3\<close>)
    qed
    have "res (grows (cfg E) t) (movemouse E t)"
      unfolding movemouse_def m(1) bind.bind_lunit Some option.case k
      by (intro res_if res_bind [OF 1] 4) (simp add: grows_refl [OF W])
    then show ?thesis by (rule res_mono) (rule gt)
  qed
qed

lemma resize_step_fr:
  assumes F: "fr (cfg E) s t" and c: "clis t c \<noteq> None"
  shows "res (fr (cfg E) s) (map_option snd (resize_step E c ow oh p ex ey (a, t)))"
proof -
  obtain k where k: "clis t c = Some k" using c by auto
  obtain m where m: "selm t = Some m" "mmem t (selmon t) = Some m" using wfx_selmon [OF fr_wf [OF F]] by metis
  obtain a where a: "arrange_of E m = Some a"
    using arrange_of_total [OF wfx_shape [OF fr_wf [OF F] m(2)]] by auto
  have e: "map_option snd (p \<bind> (\<lambda>s. Some ((), s))) = p" for p :: "wm option"
    by (cases p) simp_all
  show ?thesis
    unfolding resize_step_def Let_def snd_conv k m(1) a bind.bind_lunit e
    by (intro res_if fr_ops) (use F c in auto)
qed

lemma is_free_total:
  assumes "wf (cfg E) t" "clis t c \<noteq> None"
  shows "\<exists>b. is_free E c t = Some b"
proof -
  obtain k where k: "clis t c = Some k" using assms(2) by auto
  obtain m where m: "mmem t (c_mon k) = Some m" by (rule wfx_c_mon [OF assms(1) k])
  obtain a where "arrange_of E m = Some a"
    using arrange_of_total [OF wfx_shape [OF assms(1) m]] by auto
  then show ?thesis using k m by (cases "c_isfloating k") (auto simp: is_free_def)
qed

lemma mon_sizes_pos:
  assumes "mon_shape cf b r k" "config_ok cf"
  shows "0 < m_ww k" "0 < m_wh k"
  using mon_shapeD(1) [OF assms(1)] assms(2) by (auto simp: base_shape_def screen_ok_def config_ok_def)

lemma resize_end_fr:
  assumes F: "fr (cfg E) s t" and ok: "config_ok (cfg E)" and c: "clis t c \<noteq> None"
  shows "res (fr (cfg E) s) (resize_end E c xr yr t)"
proof -
  obtain b where b: "is_free E c t = Some b" using is_free_total [OF fr_wf [OF F] c] by blast
  obtain k where k: "clis t c = Some k" using c by auto
  obtain m where m: "selm t = Some m" "mmem t (selmon t) = Some m" using wfx_selmon [OF fr_wf [OF F]] by metis
  note S = wfx_shape [OF fr_wf [OF F] m(2)]
  obtain a where a: "arrange_of E m = Some a" using arrange_of_total [OF S] by auto
  obtain f where f: "(if a = Some Zetadeck then dquot (yr - m_my m) (m_wh m) else dquot (xr - m_mx m) (m_ww m)) = Some f"
    using mon_sizes_pos [OF S ok] by (cases "a = Some Zetadeck") (auto simp: dquot_def)
  have al: "clis v c \<noteq> None" if "fr (cfg E) s v" for v
    by (rule fr_alive [OF that fr_alive_back [OF F c]])
  have 1: "res (fr (cfg E) s) (modm (selmon t) (\<lambda>m. if a = Some Doubledeck then m\<lparr>m_dmfact := f\<rparr>
                       else if a = Some Zetadeck then m\<lparr>m_zmfact := f\<rparr> else m\<lparr>m_mfact := f\<rparr>) t)"
    by (rule fr_pertag_upd [OF F]) (use m mon_shapeD in \<open>auto simp: params\<close>)
  have 2: "res (fr (cfg E) s) (do { m \<leftarrow> selm v; Some (if q then case p m of (x, y) \<Rightarrow> emit (r x y) v else v) })"
    if "fr (cfg E) s v" for v q p r
    by (intro fr_selm_bind that) (use that in \<open>simp split: prod.split\<close>)
  have 3: "res (fr (cfg E) s) (follow_rect E c (emit XDropEnterEvents (emit XUngrabPointer v)))"
    if "fr (cfg E) s v" for v
    by (rule follow_rect_fr) (use that ok al in auto)
  show ?thesis
    unfolding resize_end_def b k m(1) a f bind.bind_lunit
    by (intro fr_bind [OF res_if] 3 fr_bind [OF 1] fr_bind [OF arrange_fr_here] 2) (use F ok in auto)
qed

lemma fr_split_if: "frx cf X s t \<Longrightarrow> frx cf X s (if b then t else case p of (x, y) \<Rightarrow> emit (r x y) t)"
  by (simp split: prod.split)

lemma resizemouse_grows:
  assumes G: "grows (cfg E) s t" and ok: "env_ok E" and D: "drag_ends E" and R: "refreshrate (cfg E) \<noteq> 0"
  shows "res (grows (cfg E) s) (resizemouse E t)"
proof -
  note W = grows_wf [OF G]
  have cok: "config_ok (cfg E)" using ok by blast
  obtain m where m: "selm t = Some m" "mmem t (selmon t) = Some m" using wfx_selmon [OF W] by metis
  obtain per where per: "period (cfg E) = Some per" using R by (auto simp: period_def)
  show ?thesis
  proof (cases "m_sel m")
    case None
    then show ?thesis using m(1) G by (simp add: resizemouse_def)
  next
    case (Some c)
    then have c: "clis t c \<noteq> None" using sel_alive [OF W m(1)] by simp
    then obtain k where k: "clis t c = Some k" by auto
    have al: "clis v c \<noteq> None" if "grows (cfg E) t v" for v using grows_alive [OF that c] .
    have 1: "res (fr (cfg E) t) (restack E (selmon t) t)"
      by (rule focus_fr_ops(1)) (use fr_refl [OF W] cok m in auto)
    have 2: "res (\<lambda>(_, _, w). grows (cfg E) t w) (drag E per (resize_step E c ow oh p) (XMaskEvents E l) 0 ((), v))"
      if v: "grows (cfg E) t v" for v ow oh p l
    proof (rule drag_grows [OF _ v ok])
      show "\<exists>e \<in> set (XMaskEvents E l). is_release e" using D by (simp add: drag_ends_def)
      fix ex ey a u assume u: "grows (cfg E) t u"
      have "res (grows (cfg E) t) (map_option snd (resize_step E c ow oh p ex ey (a, u)))"
        by (rule res_grows [OF u]) (rule resize_step_fr [OF _ al [OF u]])
      then show "res (\<lambda>(_, w). grows (cfg E) t w) (resize_step E c ow oh p ex ey (a, u))" by (rule res_snd)
    qed
    have 3: "res (grows (cfg E) t) (resize_end E c xr yr v)" if v: "grows (cfg E) t v" for v xr yr
      by (rule res_grows [OF v]) (rule resize_end_fr [OF _ cok al [OF v]])
    have 4: "res (grows (cfg E) t) (do {
             k \<leftarrow> clis u c;
             let s = emit (XGrabPointer CurResize) u;
             if \<not> XGrabPointerOk E (xlog s) then Some s
             else do {
               fr \<leftarrow> is_free E c s;
               case (if fr then getrootptr E s else Some (garbage_point E)) of
                 None \<Rightarrow> Some s
               | Some p \<Rightarrow> do {
                 m \<leftarrow> selm s;
                 a \<leftarrow> arrange_of E m;
                 let s = (if fr then s
                          else case split_point m a of (x, y) \<Rightarrow> emit (XWarpPointer RootWin x y) s);
                 per \<leftarrow> period (cfg E);
                 ((_, _, xr, yr), _, s) \<leftarrow>
                   drag E per (resize_step E c (c_w k) (c_h k) p) (XMaskEvents E (xlog s)) 0 ((), s);
                 resize_end E c xr yr s } } })" if u: "fr (cfg E) t u" for u
    proof -
      let ?u = "emit (XGrabPointer CurResize) u"
      obtain ku where ku: "clis u c = Some ku" using al [OF fr_grows [OF u]] by auto
      obtain b where b: "is_free E c ?u = Some b" using is_free_total [of E ?u c] u ku by auto
      obtain mu where mu: "selm ?u = Some mu" "mmem ?u (selmon ?u) = Some mu"
        using wfx_selmon [of "cfg E" "{}" ?u] u by (metis fr_emit fr_wf)
      obtain a where a: "arrange_of E mu = Some a"
        using arrange_of_total [OF wfx_shape [of "cfg E" "{}" ?u, OF _ mu(2)]] u by auto
      have gu: "grows (cfg E) t (if b then ?u else case q of (x, y) \<Rightarrow> emit (r x y) ?u)" for q r
        using fr_grows [OF u] by (simp split: prod.split)
      show ?thesis
        unfolding ku b mu(1) a per bind.bind_lunit Let_def
        by (intro res_if res_option_case res_bind [OF 2 [OF gu]] res_prod_case 3)
          (use fr_grows [OF u] in \<open>auto intro: 3\<close>)
    qed
    have "res (grows (cfg E) t) (resizemouse E t)"
      unfolding resizemouse_def m(1) bind.bind_lunit Some option.case k
      by (intro res_if res_bind [OF 1] 4) (simp add: grows_refl [OF W])
    then show ?thesis by (rule res_mono) (rule grows_trans [OF G])
  qed
qed

lemma recttoclient_total:
  assumes W: "wf cf s"
  shows "\<exists>r. recttoclient x y w h s = Some r \<and> (\<forall>c. r = Some c \<longrightarrow> clis s c \<noteq> None)"
proof -
  obtain m where m: "selm s = Some m" "mmem s (selmon s) = Some m" using wfx_selmon [OF W] by metis
  have al: "clis s c \<noteq> None" if "c \<in> set (m_clients m)" for c using wfx_clientD [OF W m(2) that] by auto
  let ?cs = "filter (\<lambda>c. the (istiled s c)) (m_clients m)"
  have t: "tiled s (m_clients m) = Some ?cs" by (rule tiled_total [OF W al])
  let ?f = "\<lambda>c. map_option (INTERSECTC x y w h) (clis s c)"
  let ?h = "\<lambda>c. INTERSECTC x y w h (the (clis s c))"
  have "?f c = Some (?h c)" if "c \<in> set ?cs" for c using al [of c] that by auto
  from largest_total [of ?cs ?f ?h 0 None Some, OF this] obtain v where
    v: "largest ?f ?cs 0 None Some = Some v" "v = None \<or> (\<exists>c \<in> set ?cs. v = Some c)" by blast
  then show ?thesis using m(1) t al by (auto simp: recttoclient_def)
qed

lemma fr_client_bind2:
  "clis t c \<noteq> None \<Longrightarrow> (\<And>k. clis t c = Some k \<Longrightarrow> res Q (f k)) \<Longrightarrow> res Q (clis t c \<bind> f)"
  by auto

lemma place_step_fr:
  assumes F: "fr (cfg E) s t" and ok: "config_ok (cfg E)" and c: "clis t c \<noteq> None"
  shows "res (\<lambda>(_, w). fr (cfg E) s w) (place_step E i c wa x y ex ey (p, t))"
proof -
  obtain k where k: "clis t c = Some k" using c by auto
  define u where "u = (if freemove p \<or> \<bar>wa_x wa + (ex - x) - wa_x wa\<bar> > snap (cfg E) \<or> \<bar>wa_y wa + (ey - y) - wa_y wa\<bar> > snap (cfg E)
    then emit (XMoveWindow (c_win k) (wa_x wa + (ex - x)) (wa_y wa + (ey - y))) t else t)"
  have u: "fr (cfg E) s u" "clis u = clis t" using F by (simp_all add: u_def)
  obtain m where m: "recttomon ex ey 1 1 u = Some m" "m \<in> set (mons u)"
    using recttomon_total [OF fr_wf [OF u(1)]] by blast
  define v where "v = (if m \<noteq> selmon u then u\<lparr>selmon := m\<rparr> else u)"
  have v: "fr (cfg E) s v" "clis v = clis t"
    using u m(2) fr_mons [OF u(1)] by (simp_all add: v_def fr_selmon)
  define px py where "px = (if i = 1 then wa_x wa + (ex - x) + cdiv (wa_width wa) 2 else ex)"
    and "py = (if i = 1 then wa_y wa + (ey - y) + cdiv (wa_height wa) 2 else ey)"
  have pp: "(if i = 1 then (wa_x wa + (ex - x) + cdiv (wa_width wa) 2, wa_y wa + (ey - y) + cdiv (wa_height wa) 2)
      else (ex, ey)) = (px, py)" by (simp add: px_def py_def)
  obtain r where r: "recttoclient px py 1 1 v = Some r" "\<And>a. r = Some a \<Longrightarrow> clis v a \<noteq> None"
    using recttoclient_total [OF fr_wf [OF v(1)]] by blast
  have go: "res (\<lambda>(_, w). fr (cfg E) s w) (do { s \<leftarrow> place_at E c a side v; Some (q, s) })"
    if "r = Some a" "a \<noteq> c" for a side q
    by (rule res_bind [OF place_at_fr [OF v(1) ok _ r(2) [OF that(1)] that(2)]]) (use v(2) c in auto)
  have ra: "\<exists>rk. clis v a = Some rk" if "r = Some a" for a using r(2) [OF that] by auto
  show ?thesis
    unfolding place_step_def prod.case Let_def k bind.bind_lunit u_def [symmetric] m(1) v_def [symmetric] pp r(1)
    by (intro res_option_case res_if fr_client_bind2 go) (use v(1) r(2) in auto)
qed

lemma fr_monitor_bind2:
  "mmem t m \<noteq> None \<Longrightarrow> (\<And>k. mmem t m = Some k \<Longrightarrow> res Q (f k)) \<Longrightarrow> res Q (mmem t m \<bind> f)"
  by auto

lemma place_end_fr:
  assumes F: "fr (cfg E) s t" and ok: "config_ok (cfg E)" and c: "clis t c \<noteq> None"
  shows "res (fr (cfg E) s) (place_end E c p ex ey t)"
proof -
  have al: "clis v c \<noteq> None" if "frx (cfg E) X s v" for v X
    by (rule fr_alive [OF that fr_alive_back [OF F c]])
  obtain k where k: "clis t c = Some k" using c by auto
  obtain m where m: "recttomon ex ey 1 1 t = Some m" "m \<in> set (mons t)"
    using recttomon_total [OF fr_wf [OF F]] by blast
  have ms: "m \<in> set (mons s)" using m(2) fr_mons [OF F] by simp
  have km: "c_mon k \<in> set (mons s)" by (rule fr_c_mon [OF F k])
  have 1: "res (fr (cfg E) s) (do {
                s \<leftarrow> detach E c t;
                s \<leftarrow> detachstack c s;
                s \<leftarrow> arrangemon E (c_mon k) s;
                mk \<leftarrow> mmem s m;
                s \<leftarrow> modc c (\<lambda>k. k\<lparr>c_mon := m, c_tags := tagsel mk\<rparr>) s;
                s \<leftarrow> attach c s;
                s \<leftarrow> attachstack c s;
                Some (s\<lparr>selmon := m\<rparr>) })"
  proof (rule res_bind2 [where P = "frx (cfg E) {c} s"])
    show "res (frx (cfg E) {c} s) (do { s \<leftarrow> detach E c t; detachstack c s })"
      using frx_detach [OF F ok c] by simp
    fix u assume u: "frx (cfg E) {c} s u"
    have a: "res (frx (cfg E) {c} s) (arrangemon E (c_mon k) u)"
      by (rule fr_ops(20)) (use u ok fr_monitor [OF u km] in auto)
    have b: "res (fr (cfg E) s) (do { s \<leftarrow> attach c v; s \<leftarrow> attachstack c s; Some (s\<lparr>selmon := m\<rparr>) })"
      if v: "frx (cfg E) {c} s v" for v
      by (rule res_bind2 [OF frx_attach [OF v]]) (use fr_selmon ms in auto)
    show "res (fr (cfg E) s) (do {
                s \<leftarrow> arrangemon E (c_mon k) u;
                mk \<leftarrow> mmem s m;
                s \<leftarrow> modc c (\<lambda>k. k\<lparr>c_mon := m, c_tags := tagsel mk\<rparr>) s;
                s \<leftarrow> attach c s;
                s \<leftarrow> attachstack c s;
                Some (s\<lparr>selmon := m\<rparr>) })"
      by (intro res_bind [OF a] fr_monitor_bind2 res_bind [OF frx_modc_transit] b)
        (use ms al fr_monitor in auto)
  qed
  have 2: "res (fr (cfg E) s) (do {
     s \<leftarrow> focus E (Some c) u;
     s \<leftarrow> modc c (\<lambda>k. k\<lparr>c_beingmoved := False\<rparr>) s;
     k \<leftarrow> clis s c;
     s \<leftarrow> (if pl_nx p \<noteq> -9999 then resize E c (pl_nx p) (pl_ny p) (c_w k) (c_h k) False s else Some s);
     k \<leftarrow> clis s c;
     arrangemon E (c_mon k) s })" if u: "fr (cfg E) s u" for u
    by (intro fr_intro res_if) (use u ok al in \<open>auto intro: fr_still_mon\<close>)
  show ?thesis
    unfolding place_end_def k m(1) bind.bind_lunit
    by (intro fr_bind [OF res_if] 1 2) (use F in auto)
qed

lemma placemouse_grows:
  assumes G: "grows (cfg E) s t" and ok: "env_ok E" and D: "drag_ends E" and R: "refreshrate (cfg E) \<noteq> 0"
  shows "res (grows (cfg E) s) (placemouse E i t)"
proof -
  note W = grows_wf [OF G]
  have cok: "config_ok (cfg E)" using ok by blast
  obtain m where m: "selm t = Some m" "mmem t (selmon t) = Some m" using wfx_selmon [OF W] by metis
  obtain per where per: "period (cfg E) = Some per" using R by (auto simp: period_def)
  show ?thesis
  proof (cases "m_sel m")
    case None
    then show ?thesis using m(1) G by (simp add: placemouse_def)
  next
    case (Some c)
    then have c: "clis t c \<noteq> None" using sel_alive [OF W m(1)] by simp
    then obtain k where k: "clis t c = Some k" by auto
    obtain cm where cm: "mmem t (c_mon k) = Some cm" by (rule wfx_c_mon [OF W k])
    obtain a where a: "arrange_of E cm = Some a" using arrange_of_total [OF wfx_shape [OF W cm]] by auto
    have al: "clis v c \<noteq> None" if "grows (cfg E) t v" for v using grows_alive [OF that c] .
    have 1: "res (fr (cfg E) t) (restack E (selmon t) t)"
      by (rule focus_fr_ops(1)) (use fr_refl [OF W] cok m in auto)
    have 2: "res (\<lambda>(_, _, w). grows (cfg E) t w) (drag E per (place_step E i c wa x y) (XMaskEvents E l) 0 (p, v))"
      if v: "grows (cfg E) t v" for v wa x y l p
    proof (rule drag_grows [OF _ v ok])
      show "\<exists>e \<in> set (XMaskEvents E l). is_release e" using D by (simp add: drag_ends_def)
      fix ex ey a u assume u: "grows (cfg E) t u"
      show "res (\<lambda>(_, w). grows (cfg E) t w) (place_step E i c wa x y ex ey (a, u))"
        by (rule res_mono [OF place_step_fr [OF grows_fr [OF u] cok al [OF u]]])
          (use u in \<open>auto intro: grows_trans fr_grows\<close>)
    qed
    have 3: "res (grows (cfg E) t) (place_end E c p ex ey (emit XUngrabPointer v))" if v: "grows (cfg E) t v" for v p ex ey
      by (rule res_grows) (use v place_end_fr [OF _ cok] al in auto)
    have 4: "res (grows (cfg E) t) (do {
               s \<leftarrow> modc c (\<lambda>k. k\<lparr>c_isfloating := False, c_beingmoved := True\<rparr>) u;
               k \<leftarrow> clis s c;
               let wa = (case XGetWindowAttributes E (xlog s) (c_win k) of
                           Some wa \<Rightarrow> wa | None \<Rightarrow> garbage_attributes E);
               let s = (if i = 2
                        then emit (XWarpPointer (Win (c_win k)) (cdiv (WIDTH k) 2) (cdiv (HEIGHT k) 2)) s
                        else s);
               case getrootptr E s of
                 None \<Rightarrow> Some s
               | Some (x, y) \<Rightarrow> do {
                   per \<leftarrow> period (cfg E);
                   ((ex, ey, _, _), p, s) \<leftarrow>
                     drag E per (place_step E i c wa x y) (XMaskEvents E (xlog s)) 0
                       (\<lparr>pl_nx = -9999, pl_ny = -9999, freemove = False, prevr = c, prevattach = -1\<rparr>, s);
                   place_end E c p ex ey (emit XUngrabPointer s) } })" if u: "fr (cfg E) t u" for u
    proof -
      have m: "res (grows (cfg E) t) (modc c (\<lambda>k. k\<lparr>c_isfloating := False, c_beingmoved := True\<rparr>) u)"
        by (rule res_mono [OF fr_modc [OF u]]) (use al [OF fr_grows [OF u]] fr_grows in auto)
      show ?thesis
        unfolding per bind.bind_lunit Let_def
        by (intro res_bind [OF m] fr_client_bind2 res_option_case res_prod_case res_bind [OF 2] 3 al)
          (auto intro: 3)
    qed
    have ge: "grows (cfg E) t (emit r u)" if "fr (cfg E) t u" for r u using fr_grows [OF that] by simp
    have "res (grows (cfg E) t) (placemouse E i t)"
      unfolding placemouse_def m(1) bind.bind_lunit Some option.case k cm a
      unfolding Let_def
      by (intro res_if res_bind [OF 1] 4 [unfolded Let_def]) (use grows_refl [OF W] ge in auto)
    then show ?thesis by (rule res_mono) (rule grows_trans [OF G])
  qed
qed

lemma moveorplace_grows:
  assumes G: "grows (cfg E) s t" and ok: "env_ok E" and D: "drag_ends E" and R: "refreshrate (cfg E) \<noteq> 0"
  shows "res (grows (cfg E) s) (moveorplace E i t)"
proof -
  note W = grows_wf [OF G]
  obtain m where m: "selm t = Some m" "mmem t (selmon t) = Some m" using wfx_selmon [OF W] by metis
  obtain a where a: "arrange_of E m = Some a" using arrange_of_total [OF wfx_shape [OF W m(2)]] by auto
  obtain b where b: "(case m_sel m of None \<Rightarrow> Some False
             | Some c \<Rightarrow> do { k \<leftarrow> clis t c; Some (c_isfloating k) }) = Some b"
  proof (cases "m_sel m")
    case (Some c)
    then obtain k where "clis t c = Some k" using sel_alive [OF W m(1)] by auto
    then show ?thesis using that Some by simp
  qed (use that [of False] in simp)
  show ?thesis
    unfolding moveorplace_def m(1) a b bind.bind_lunit
    by (intro res_if movemouse_grows placemouse_grows assms)
qed

end
