(* ===== verification/Safety.thy ===== *)
theory Safety
  imports MouseFrames
begin

text \<open>
  The commands and the events: the conditions under which a command does not crash
  (\<open>action_ok\<close>) and the proof that, under them, every event keeps the invariant.
\<close>

section \<open>The commands\<close>

text \<open>
  The condition under which a command does not crash, in the state it is run in: what the
  code leaves unchecked, one line per hazard.
\<close>

fun action_ok :: "xenv \<Rightarrow> action \<Rightarrow> wm \<Rightarrow> bool" where
  "action_ok E (Incnmaster i) s = (\<not> no_sel s)"
| "action_ok E (Setmfact f) s = (\<not> no_sel s)"
| "action_ok E (Setsmfact f) s = (\<not> no_sel s)"
| "action_ok E (Setwfact f) s = (\<not> no_sel s)"
| "action_ok E (Sethfact f) s = (\<not> no_sel s)"
| "action_ok E (Fmaximize a) s = (a = 1 \<or> a = 2 \<longrightarrow> \<not> no_sel s)"
| "action_ok E (Fsnap a) s = (a < 4 \<longrightarrow> \<not> no_sel s)"
| "action_ok E (Setlayout v) s = (\<forall>x. v = Some x \<longrightarrow> lt_ok (cfg E) True x)"
| "action_ok E Focusmaster s = (\<not> stale_mark (cfg E) s)"
| "action_ok E (Focussame i) s = (\<not> sel_off_tags s)"
| "action_ok E (Rotatestack i) s = (i \<le> 0 \<longrightarrow> \<not> lone_tiled s)"
| "action_ok E (Tag u) s = viewontag (cfg E)"
| "action_ok E (Toggleview u) s = (\<not> all_view s)"
| "action_ok E (Swaptag u) s = (u AND TAGMASK (cfg E) \<noteq> 0)"
| "action_ok E (Rotatetags i) s = (nat \<bar>i\<bar> \<le> ntags (cfg E))"
| "action_ok E (Shiftviewclients i) s = ((i = 1 \<or> i = -1) \<and> \<not> stray_tags (cfg E) s)"
| "action_ok E (Moveorplace i) s = (drag_ends E \<and> refreshrate (cfg E) \<noteq> 0)"
| "action_ok E Resizemouse s = (drag_ends E \<and> refreshrate (cfg E) \<noteq> 0)"
| "action_ok E _ s = True"

lemma quit_frame [simp]:
  "clis (quit i s) = clis s" "mmem (quit i s) = mmem s" "mons (quit i s) = mons s" "bh (quit i s) = bh s"
  "sh (quit i s) = sh s" "selmon (quit i s) = selmon s" "nextaddr (quit i s) = nextaddr s" "running (quit i s) = False"
proof -
  have *: "clis (fold (\<lambda>p s. if 0 < p then emit (WaitPid p) (emit (KillPid p) s) else s) ps s) = clis s
    \<and> mmem (fold (\<lambda>p s. if 0 < p then emit (WaitPid p) (emit (KillPid p) s) else s) ps s) = mmem s
    \<and> mons (fold (\<lambda>p s. if 0 < p then emit (WaitPid p) (emit (KillPid p) s) else s) ps s) = mons s
    \<and> bh (fold (\<lambda>p s. if 0 < p then emit (WaitPid p) (emit (KillPid p) s) else s) ps s) = bh s
    \<and> sh (fold (\<lambda>p s. if 0 < p then emit (WaitPid p) (emit (KillPid p) s) else s) ps s) = sh s
    \<and> selmon (fold (\<lambda>p s. if 0 < p then emit (WaitPid p) (emit (KillPid p) s) else s) ps s) = selmon s
    \<and> nextaddr (fold (\<lambda>p s. if 0 < p then emit (WaitPid p) (emit (KillPid p) s) else s) ps s) = nextaddr s" for ps
    by (induction ps arbitrary: s) auto
  show "clis (quit i s) = clis s" "mmem (quit i s) = mmem s" "mons (quit i s) = mons s" "bh (quit i s) = bh s"
    "sh (quit i s) = sh s" "selmon (quit i s) = selmon s" "nextaddr (quit i s) = nextaddr s" "running (quit i s) = False"
    using * by (simp_all add: quit_def Let_def)
qed

lemma mon_shape_stop: "mon_shape cf b r k \<Longrightarrow> mon_shape cf b False k"
  by (simp add: mon_shape_def)

lemma quit_stays:
  assumes W: "wf cf s"
  shows "stays cf s (quit i s)"
proof -
  have "wf cf (quit i s)"
    using W mon_shape_stop unfolding wfx_def quit_frame by blast
  then show ?thesis by (simp add: stays_def)
qed

lemma run_action_stays:
  assumes W: "wf (cfg E) s" and ok: "env_ok E" and A: "action_ok E a s" and r: "running s"
  shows "res (stays (cfg E) s) (run_action E a s)"
proof -
  have cok: "config_ok (cfg E)" using ok by blast
  note F = fr_refl [OF W]
  note G = grows_refl [OF W]
  have f: "res (stays (cfg E) s) p" if "res (fr (cfg E) s) p" for p
    by (rule res_mono [OF that]) (rule fr_stays)
  have g: "res (stays (cfg E) s) p" if "res (grows (cfg E) s) p" for p
    by (rule res_mono [OF that]) (rule grows_stays)
  show ?thesis
  proof (cases a)
    case (Quit i)
    then show ?thesis using quit_stays [OF W] by simp
  next
    case (Moveorplace i)
    then show ?thesis using A g [OF moveorplace_grows [OF G ok]] by simp
  next
    case Resizemouse
    then show ?thesis using A g [OF resizemouse_grows [OF G ok]] by simp
  qed (use A r F ok cok in \<open>auto intro!: f fr_intro\<close>)
qed

section \<open>Bindings and events\<close>

text \<open>The command of a key or button binding, when it is the one that was pressed.\<close>

definition key_command :: "xenv \<Rightarrow> nat \<Rightarrow> 32 word \<Rightarrow> key \<Rightarrow> wm \<Rightarrow> action option option" where
  "key_command E code state k s =
     (if XKeycodeToKeysym E code = k_keysym k \<and> CLEANMASK s (k_mod k) = CLEANMASK s state
      then Some (Some (k_func k)) else None)"

definition button_command :: "click \<Rightarrow> nat \<Rightarrow> nat \<Rightarrow> 32 word \<Rightarrow> button \<Rightarrow> wm \<Rightarrow> action option option" where
  "button_command click i b state bt s =
     (if click = b_click bt \<and> b_button bt = b \<and> CLEANMASK s (b_mask bt) = CLEANMASK s state
      then Some (if click = ClkTagBar then tag_arg i (b_func bt) else Some (b_func bt)) else None)"

text \<open>Every command of a table that runs is run in a state in which it does not crash.\<close>

fun commands_ok :: "xenv \<Rightarrow> ('a \<Rightarrow> wm \<Rightarrow> action option option) \<Rightarrow> 'a list \<Rightarrow> wm \<Rightarrow> bool" where
  "commands_ok E f [] s = True"
| "commands_ok E f (x # xs) s =
     (case f x s of
        None \<Rightarrow> commands_ok E f xs s
      | Some None \<Rightarrow> False
      | Some (Some a) \<Rightarrow> running s \<and> action_ok E a s
          \<and> (case run_action E a s of None \<Rightarrow> True | Some t \<Rightarrow> commands_ok E f xs t))"

fun event_ok :: "xenv \<Rightarrow> xevent \<Rightarrow> wm \<Rightarrow> bool" where
  "event_ok E (KeyPress code state) s = commands_ok E (key_command E code state) (keys (cfg E)) s"
| "event_ok E (ButtonPress w b x state) s =
     (case click_target E w b x s of
        None \<Rightarrow> True
      | Some ((click, i), t) \<Rightarrow> commands_ok E (button_command click i b state) (buttons (cfg E)) t)"
| "event_ok E (ConfigureNotify w width height) s =
     (w = root E \<longrightarrow> 0 < width \<and> screen_ok (cfg E) (bh s) height \<and> screens_ok E (bh s))"
| "event_ok E _ s = True"

lemma stays_refl: "wf cf s \<Longrightarrow> stays cf s s"
  by (simp add: stays_def)

lemma stays_trans: "stays cf s t \<Longrightarrow> stays cf t u \<Longrightarrow> stays cf s u"
  by (simp add: stays_def)

lemma stays_wf: "stays cf s t \<Longrightarrow> wf cf t"
  by (simp add: stays_def)

lemma commands_stay:
  assumes "commands_ok E f xs t" "stays (cfg E) s t" "env_ok E"
    and h: "\<And>x s. h x s = (case f x s of None \<Rightarrow> Some s | Some ao \<Rightarrow> do { a \<leftarrow> ao; run_action E a s })"
  shows "res (stays (cfg E) s) (each h xs t)"
  using assms(1,2)
proof (induction xs arbitrary: t)
  case (Cons x xs)
  show ?case
  proof (cases "f x t")
    case None
    have "h x t = Some t" by (simp add: h None)
    then show ?thesis using Cons None by simp
  next
    case (Some ao)
    then obtain a where a: "ao = Some a" "running t" "action_ok E a t"
      "\<And>u. run_action E a t = Some u \<Longrightarrow> commands_ok E f xs u"
      using Cons.prems(1) by (cases ao) (auto split: option.splits)
    obtain u where u: "run_action E a t = Some u" "stays (cfg E) t u"
      using run_action_stays [OF stays_wf [OF Cons.prems(2)] assms(3) a(3,2)] by (auto simp: res_iff)
    have "res (stays (cfg E) s) (each h xs u)"
      by (rule Cons.IH [OF a(4) [OF u(1)] stays_trans [OF Cons.prems(2) u(2)]])
    moreover have "h x t = Some u" using Some a(1) u(1) by (simp add: h)
    ultimately show ?thesis by simp
  qed
qed simp

lemma keypress_stays:
  assumes "wf (cfg E) s" "env_ok E" "commands_ok E (key_command E code state) (keys (cfg E)) s"
  shows "res (stays (cfg E) s) (keypress E code state s)"
  unfolding keypress_def Let_def
  by (rule commands_stay [OF assms(3) stays_refl [OF assms(1)] assms(2)]) (simp add: key_command_def)

lemma click_target_fr:
  assumes W: "wf (cfg E) s" and ok: "config_ok (cfg E)"
  shows "res (\<lambda>(_, t). fr (cfg E) s t) (click_target E w b x s)"
proof -
  have F: "fr (cfg E) s s" by (rule fr_refl [OF W])
  obtain m where m: "wintomon E w s = Some m" "m \<in> set (mons s)" using wintomon_total [OF W] by blast
  have 1: "res (fr (cfg E) s) (if b then do {
                k \<leftarrow> selm s;
                s \<leftarrow> unfocus E (m_sel k) True s;
                focus E None (s\<lparr>selmon := m\<rparr>) } else Some s)" for b
    by (intro res_if fr_selm_bind fr_bind unfocus_fr focus_fr fr_selmon F m(2) ok)
      (use F in \<open>auto intro: fr_still\<close>)
  have 2: "res (\<lambda>(_, t). fr (cfg E) s t) (do {
       k \<leftarrow> selm u;
       if w = m_barwin k then Some (bar_click E k x u, u)
       else do {
         co \<leftarrow> wintoclient u w;
         case co of
           None \<Rightarrow> Some ((ClkRootWin, 0), u)
         | Some c \<Rightarrow> do {
             s \<leftarrow> (if focusonwheel (cfg E) \<or> \<not> wheel b then focus E (Some c) u else Some u);
             Some ((ClkClientWin, 0), emit XAllowEvents s) } } })" if u: "fr (cfg E) s u" for u
  proof -
    obtain k where k: "selm u = Some k" using fr_selm [OF u] by auto
    obtain r where r: "wintoclient u w = Some r" "\<And>c. r = Some c \<Longrightarrow> clis u c \<noteq> None"
      using wintoclient_total [OF fr_wf [OF u], of w] by (metis option.distinct(1))
    have f: "res (fr (cfg E) s) (if q then focus E (Some c) u else Some u)" if "r = Some c" for c q
      by (intro res_if focus_fr u ok) (use r(2) that u in auto)
    show ?thesis
      unfolding k r(1) bind.bind_lunit
      by (intro res_if res_option_case res_bind [OF f]) (use u in auto)
  qed
  show ?thesis
    unfolding click_target_def m(1) bind.bind_lunit
    by (intro res_bind [OF 1] 2)
qed

lemma buttonpress_stays:
  assumes W: "wf (cfg E) s" and ok: "env_ok E" and A: "event_ok E (ButtonPress w b x state) s"
  shows "res (stays (cfg E) s) (buttonpress E w b x state s)"
proof -
  obtain click i t where t: "click_target E w b x s = Some ((click, i), t)" "fr (cfg E) s t"
    using click_target_fr [OF W, of w b x] ok by (auto simp: res_iff)
  have "commands_ok E (button_command click i b state) (buttons (cfg E)) t" using A t(1) by simp
  then show ?thesis
    unfolding buttonpress_def t(1) bind.bind_lunit prod.case
    by (rule commands_stay [OF _ fr_stays [OF t(2)] ok]) (simp add: button_command_def)
qed

theorem handle_stays:
  assumes W: "wf (cfg E) s" and ok: "env_ok E" and A: "event_ok E e s"
  shows "res (stays (cfg E) s) (handle E e s)"
proof -
  have cok: "config_ok (cfg E)" using ok by blast
  note F = fr_refl [OF W]
  have f: "res (stays (cfg E) s) p" if "res (fr (cfg E) s) p" for p
    by (rule res_mono [OF that]) (rule fr_stays)
  show ?thesis
  proof (cases e)
    case (ButtonPress w b x state)
    then show ?thesis using buttonpress_stays [OF W ok] A by simp
  next
    case (ClientMessage w a d)
    then show ?thesis using f [OF clientmessage_fr [OF F cok]] by simp
  next
    case (ConfigureRequest w r)
    then show ?thesis using f [OF configurerequest_fr [OF F]] by simp
  next
    case (ConfigureNotify w width height)
    then show ?thesis using configurenotify_stays [OF W cok] A by simp
  next
    case (DestroyNotify w)
    then show ?thesis using destroynotify_stays [OF W cok] by simp
  next
    case (Expose w n)
    then show ?thesis using f [OF expose_fr [OF F cok]] by simp
  next
    case (FocusIn w)
    have "res (fr (cfg E) s) (focusin E w s)" by (rule focus_fr_ops(3)) (use F W in auto)
    then show ?thesis using FocusIn f by simp
  next
    case (KeyPress code state)
    then show ?thesis using keypress_stays [OF W ok] A by simp
  next
    case (MappingNotify k)
    then show ?thesis using f [OF mappingnotify_fr [OF F]] by simp
  next
    case (MapRequest w)
    have "res (stays (cfg E) s) (maprequest E w s)"
      by (rule res_mono [OF maprequest_grows [OF grows_refl [OF W] ok]]) (rule grows_stays)
    then show ?thesis using MapRequest by simp
  next
    case (PropertyNotify w a d)
    then show ?thesis using f [OF propertynotify_fr [OF F ok]] by simp
  next
    case (UnmapNotify w b)
    then show ?thesis using unmapnotify_stays [OF W cok] by simp
  qed (use W in \<open>simp_all add: stays_refl\<close>)
qed

end
