(* ===== verification/Program.thy ===== *)
theory Program
  imports Safety
begin

text \<open>
  The program as a whole. \<open>step\<close> is the transition relation of the event loop: an event is
  handled, or a signal arrives between two events. The invariant holds in every state the
  loop reaches, and the program goes from an empty state through \<open>setup\<close> and the loop to an
  empty state again.
\<close>

section \<open>The event loop\<close>

datatype (plugins only: code size) label = Event xevent | Hangup | Terminate

inductive step :: "xenv \<Rightarrow> wm \<Rightarrow> label \<Rightarrow> wm \<Rightarrow> bool" for E where
  event: "running s \<Longrightarrow> handle E e s = Some t \<Longrightarrow> step E s (Event e) t"
| hangup: "running s \<Longrightarrow> step E s Hangup (sighup s)"
| terminate: "running s \<Longrightarrow> step E s Terminate (sigterm s)"

inductive_cases stepE: "step E s l t"
inductive_simps step_Event [simp]: "step E s (Event e) t"
  and step_Hangup [simp]: "step E s Hangup t"
  and step_Terminate [simp]: "step E s Terminate t"

definition label_ok :: "xenv \<Rightarrow> label \<Rightarrow> wm \<Rightarrow> bool" where
  "label_ok E l s = (case l of Event e \<Rightarrow> event_ok E e s | _ \<Rightarrow> True)"

inductive reach :: "xenv \<Rightarrow> wm \<Rightarrow> wm \<Rightarrow> bool" for E s where
  start: "reach E s s"
| go: "reach E s t \<Longrightarrow> label_ok E l t \<Longrightarrow> step E t l u \<Longrightarrow> reach E s u"

lemma sig_stays: "wf cf s \<Longrightarrow> stays cf s (sighup s)" "wf cf s \<Longrightarrow> stays cf s (sigterm s)"
  by (simp_all add: sighup_def sigterm_def quit_stays)

lemma step_stays:
  assumes "step E s l t" "label_ok E l s" "wf (cfg E) s" "env_ok E"
  shows "stays (cfg E) s t"
proof (cases l)
  case (Event e)
  then show ?thesis
    using handle_stays [OF assms(3,4), of e] assms(1,2) by (auto simp: label_ok_def res_iff)
qed (use assms(1,3) in \<open>simp_all add: sig_stays\<close>)

lemma reach_stays:
  assumes "reach E s t" "wf (cfg E) s" "env_ok E"
  shows "stays (cfg E) s t"
  using assms(1)
proof induction
  case start
  then show ?case by (simp add: stays_refl assms(2))
next
  case (go t l u)
  show ?case
    by (rule stays_trans [OF go.IH step_stays [OF go.hyps(3,2) stays_wf [OF go.IH] assms(3)]])
qed

lemma reach_progress:
  assumes "reach E s t" "wf (cfg E) s" "env_ok E" "running t" "label_ok E l t"
  shows "\<exists>u. step E t l u"
proof (cases l)
  case (Event e)
  have "res (stays (cfg E) t) (handle E e t)"
    by (rule handle_stays [OF stays_wf [OF reach_stays [OF assms(1-3)]] assms(3)])
      (use assms(5) Event in \<open>simp add: label_ok_def\<close>)
  then show ?thesis using Event assms(4) by (auto simp: res_iff)
qed (simp_all add: assms(4))

lemma step_running: "step E s l t \<Longrightarrow> running s"
  by (erule stepE)

text \<open>The events of a run that are handled, each in a state in which it is handled well.\<close>

fun events_ok :: "xenv \<Rightarrow> xevent list \<Rightarrow> wm \<Rightarrow> bool" where
  "events_ok E [] s = True"
| "events_ok E (e # es) s =
     (running s \<longrightarrow> event_ok E e s
        \<and> (case handle E e s of None \<Rightarrow> True | Some t \<Rightarrow> events_ok E es t))"

lemma events_stay:
  assumes "wf (cfg E) s" "env_ok E" "events_ok E es s"
  shows "res (\<lambda>t. stays (cfg E) s t \<and> reach E s t) (events E es s)"
  using assms(1,3)
proof (induction es arbitrary: s)
  case Nil
  then show ?case by (simp add: stays_refl reach.start)
next
  case (Cons e es)
  show ?case
  proof (cases "running s")
    case False
    then show ?thesis using Cons.prems by (simp add: stays_refl reach.start)
  next
    case True
    have ok: "event_ok E e s" using True Cons.prems by simp
    obtain t where t: "handle E e s = Some t" "stays (cfg E) s t"
      using handle_stays [OF Cons.prems(1) assms(2) ok] by (auto simp: res_iff)
    have first: "reach E s t"
      by (rule reach.go [OF reach.start, of _ "Event e"]) (simp_all add: label_ok_def ok True t(1))
    have on: "reach E s u" if "reach E t u" for u
      using that
    proof induction
      case start
      then show ?case by (rule first)
    next
      case (go v l w)
      show ?case by (rule reach.go [OF go.IH go.hyps(2,3)])
    qed
    have IH: "res (\<lambda>u. stays (cfg E) t u \<and> reach E t u) (events E es t)"
      by (rule Cons.IH [OF stays_wf [OF t(2)]]) (use True Cons.prems t(1) in simp)
    show ?thesis
      using res_mono [OF IH, of "\<lambda>u. stays (cfg E) s u \<and> reach E s u"] stays_trans [OF t(2)] on True t(1) by simp
  qed
qed

text \<open>The events of a run that ends before they are used up.\<close>

lemma events_stopped: "\<not> running s \<Longrightarrow> events E es s = Some s"
  by (cases es) simp_all

lemma events_append:
  "events E (es @ fs) s = do { s \<leftarrow> events E es s; events E fs s }"
  by (induction es arbitrary: s) (auto simp: events_stopped split: Option.bind_split)

section \<open>Starting and ending\<close>

text \<open>
  What the program needs of the display it starts on: its size, that of the Xinerama screens,
  and a list of commands to start that has its end.
\<close>

definition display_ok :: "xenv \<Rightarrow> bool" where
  "display_ok E \<longleftrightarrow>
     0 < display_width E
     \<and> screen_ok (cfg E) (font_h E + vertpadbar (cfg E)) (display_height E)
     \<and> screens_ok E (font_h E + vertpadbar (cfg E))
     \<and> autostart_commands [] (autostart (cfg E)) \<noteq> None"

text \<open>What has been set up by the time the first event is handled.\<close>

definition ready :: "xenv \<Rightarrow> wm \<Rightarrow> bool" where
  "ready E s \<longleftrightarrow> wf (cfg E) s \<and> running s \<and> bh s = font_h E + vertpadbar (cfg E)"

lemma setup_screen_frame [simp]:
  "mons (setup_screen E s) = mons s" "clis (setup_screen E s) = clis s" "mmem (setup_screen E s) = mmem s"
  "sw (setup_screen E s) = display_width E" "sh (setup_screen E s) = display_height E"
  "running (setup_screen E s) = running s"
  by (simp_all add: setup_screen_def Let_def emit_def)

lemma setup_check_fr:
  assumes "fr (cfg E) s t"
  shows "fr (cfg E) s (setup_check E t)"
proof -
  have "cosm t (t\<lparr>wmcheckwin := w\<rparr>)" for w by (simp add: cosm_def skel_def)
  then have "cosm t (setup_check E t)" by (simp add: setup_check_def Let_def)
  then show ?thesis by (rule cosm_fr) (rule assms)
qed

lemma setup_wm_ready:
  assumes s: "mons s = []" "clis s = Map.empty" "mmem s = Map.empty" "running s"
    and ok: "env_ok E" and D: "display_ok E"
  shows "res (\<lambda>r. \<forall>t. r = Inr t \<longrightarrow> ready E t) (setup_wm E s)"
proof (cases "fonts_loaded E")
  case False
  then show ?thesis by (simp add: setup_wm_def)
next
  case True
  have cok: "config_ok (cfg E)" using ok by blast
  define u where "u = (setup_screen E s)\<lparr>lrpad := (if barpad (cfg E) \<noteq> 0 then barpad (cfg E) * 2 else font_h E),
                     bh := font_h E + vertpadbar (cfg E)\<rparr>"
  have b: "blank (cfg E) u" using D s by (simp add: blank_def u_def display_ok_def)
  have 1: "res (\<lambda>(d, t). wf (cfg E) t \<and> same_screen u t) (updategeom E u)"
    by (rule updategeom_wf) (use b cok D in \<open>simp_all add: u_def display_ok_def\<close>)
  have 2: "res (\<lambda>r. \<forall>t. r = Inr t \<longrightarrow> ready E t) (do {
      s \<leftarrow> updatebars E v;
      s \<leftarrow> updatestatus E s;
      let s = grabkeys E (setup_check E s);
      s \<leftarrow> setdeflayouts E s;
      s \<leftarrow> focus E None s;
      Some (Inr s) })" if v: "wf (cfg E) v" "same_screen u v" for v
  proof -
    have F: "fr (cfg E) v v" by (rule fr_refl [OF v(1)])
    have r: "ready E t" if "fr (cfg E) v t" for t
      using that v(2) s(4) by (simp add: ready_def frx_def same_screen_def u_def)
    have k: "fr (cfg E) v (grabkeys E (setup_check E t))" if "fr (cfg E) v t" for t
      by (rule cosm_fr [OF _ setup_check_fr [OF that]]) simp
    have updatestatus: "res (fr (cfg E) v) (updatestatus E t)" if "fr (cfg E) v t" for t
      by (intro fr_intro that) (use that cok in \<open>auto dest: fr_wf\<close>)
    show ?thesis
      unfolding Let_def
      by (rule res_bind [OF updatebars_fr [OF F]], rule res_bind, erule updatestatus,
          rule res_bind, rule setdeflayouts_fr [OF k cok], assumption,
          rule res_bind, erule focus_fr [OF _ cok], simp_all add: r)
  qed
  have e: "setup_wm E s = (updategeom E u \<bind> (\<lambda>(_, v). do {
      s \<leftarrow> updatebars E v;
      s \<leftarrow> updatestatus E s;
      let s = grabkeys E (setup_check E s);
      s \<leftarrow> setdeflayouts E s;
      s \<leftarrow> focus E None s;
      Some (Inr s) }))"
    using True by (simp add: setup_wm_def u_def Let_def)
  show ?thesis
    unfolding e by (rule res_bind [OF 1]) (use 2 in auto)
qed

lemma emit_log: "emit r s = s\<lparr>xlog := xlog s @ [r]\<rparr>"
  by (simp add: emit_def)

lemma started:
  assumes "checkotherwm E init_state = Inr s" "autostart_commands [] (autostart (cfg E)) \<noteq> None"
  shows "res (\<lambda>t. mons t = [] \<and> clis t = Map.empty \<and> mmem t = Map.empty \<and> running t) (autostart_exec E s)"
proof -
  obtain cmds where c: "autostart_commands [] (autostart (cfg E)) = Some cmds" using assms(2) by auto
  obtain pids where "autostart_exec E s
      = Some (s\<lparr>autostart_pids := autostart_pids s @ pids, xlog := xlog s @ map ForkExec cmds\<rparr>)"
    using each_fork [of cmds E s] by (auto simp: autostart_exec_def c)
  moreover have "mons s = []" "clis s = Map.empty" "mmem s = Map.empty" "running s"
    using assms(1) by (auto simp: checkotherwm_def Let_def init_state_def emit_log split: if_splits)
  ultimately show ?thesis by simp
qed

lemma scan_ready:
  assumes "ready E s" "env_ok E"
  shows "res (ready E) (scan E s)"
  by (rule res_mono [OF scan_grows]) (use assms in \<open>auto simp: ready_def grows_def\<close>)

lemma emit_ready: "ready E (emit r s) = ready E s"
  by (simp add: ready_def emit_log wfx_def)

text \<open>The program up to the event loop: either it dies with a message, or it is ready.\<close>

definition launch :: "xenv \<Rightarrow> (string + wm) option" where
  "launch E =
     (case checkotherwm E init_state of
        Inl msg \<Rightarrow> Some (Inl msg)
      | Inr s \<Rightarrow> do {
          s \<leftarrow> autostart_exec E s;
          r \<leftarrow> setup_wm E s;
          case r of
            Inl msg \<Rightarrow> Some (Inl msg)
          | Inr s \<Rightarrow> do { s \<leftarrow> scan E s; Some (Inr (emit XSync s)) } })"

lemma launch_ready:
  assumes ok: "env_ok E" and D: "display_ok E"
  shows "res (\<lambda>r. \<forall>s. r = Inr s \<longrightarrow> ready E s) (launch E)"
proof (cases "checkotherwm E init_state")
  case (Inl msg)
  then show ?thesis by (simp add: launch_def)
next
  case (Inr s)
  have 1: "res (\<lambda>t. mons t = [] \<and> clis t = Map.empty \<and> mmem t = Map.empty \<and> running t) (autostart_exec E s)"
    by (rule started [OF Inr]) (use D in \<open>simp add: display_ok_def\<close>)
  have 3: "res (\<lambda>r. \<forall>s. r = Inr s \<longrightarrow> ready E s)
      (case r of Inl msg \<Rightarrow> Some (Inl msg) | Inr s \<Rightarrow> do { s \<leftarrow> scan E s; Some (Inr (emit XSync s)) })"
    if r: "\<forall>t. r = Inr t \<longrightarrow> ready E t" for r :: "string + wm"
  proof (cases r)
    case (Inr t)
    have t: "ready E t" using r Inr by simp
    show ?thesis
      unfolding Inr sum.case
      by (rule res_bind [OF scan_ready [OF t ok]]) (simp add: emit_ready)
  qed simp
  show ?thesis
    unfolding launch_def Inr sum.case
    by (rule res_bind [OF 1], rule res_bind [OF setup_wm_ready [OF _ _ _ _ ok D] 3]) simp_all
qed

lemma main_launch:
  "main E argv es =
     (if length argv = 2 \<and> argv ! 1 = ''-v'' then Some (Died ''dwm-'')
      else if length argv \<noteq> 1 then Some (Died ''usage: dwm [-v]'')
      else if \<not> display_opens E then Some (Died ''dwm: cannot open display'')
      else do {
        r \<leftarrow> launch E;
        case r of
          Inl msg \<Rightarrow> Some (Died msg)
        | Inr s \<Rightarrow> do {
            s \<leftarrow> events E es s;
            if running s then Some (Waiting s) else finish E s } })"
proof -
  have *: "(do { s \<leftarrow> p; Some (Inr (emit XSync s)) } \<bind>
            case_sum (\<lambda>msg. Some (Died msg)) (\<lambda>s. events E es s \<bind> f))
         = p \<bind> (\<lambda>s. events E es (emit XSync s) \<bind> f)" for p f
    by (cases p) simp_all
  show ?thesis
    unfolding main_def launch_def run_def
    by (auto simp: bind_assoc * split: sum.splits Option.bind_split)
qed

text \<open>How a run may end.\<close>

fun outcome_ok :: "xenv \<Rightarrow> outcome \<Rightarrow> bool" where
  "outcome_ok E (Died msg) = True"
| "outcome_ok E (Restarted s) = (wf (cfg E) s \<and> \<not> running s \<and> restart s)"
| "outcome_ok E (Exited s) = (clis s = Map.empty \<and> mmem s = Map.empty \<and> mons s = [])"
| "outcome_ok E (Waiting s) = (wf (cfg E) s \<and> running s)"

lemma finish_outcome:
  assumes "wf (cfg E) s" "\<not> running s" "env_ok E"
  shows "res (outcome_ok E) (finish E s)"
proof (cases "restart s \<and> exec_works E")
  case True
  then show ?thesis using assms by (simp add: finish_def)
next
  case False
  have cok: "config_ok (cfg E)" using assms(3) by blast
  have "res (outcome_ok E) (do { s \<leftarrow> cleanup E s; Some (Exited (emit XCloseDisplay s)) })"
    by (rule res_bind [OF cleanup_all [OF assms(1) cok assms(2)]]) (simp add: emit_log)
  then show ?thesis using False by (simp only: finish_def if_False)
qed

lemma main_outcome:
  assumes ok: "env_ok E" and D: "display_ok E"
    and es: "\<And>s. launch E = Some (Inr s) \<Longrightarrow> events_ok E es s"
  shows "res (outcome_ok E) (main E argv es)"
proof -
  have "res (outcome_ok E) (do {
        r \<leftarrow> launch E;
        case r of
          Inl msg \<Rightarrow> Some (Died msg)
        | Inr s \<Rightarrow> do {
            s \<leftarrow> events E es s;
            if running s then Some (Waiting s) else finish E s } })"
  proof -
    obtain r where r: "launch E = Some r" "\<And>s. r = Inr s \<Longrightarrow> ready E s"
      using launch_ready [OF ok D] by (auto simp: res_iff)
    show ?thesis
    proof (cases r)
      case (Inr s)
      have W: "wf (cfg E) s" using r(2) [OF Inr] by (simp add: ready_def)
      have "res (\<lambda>t. stays (cfg E) s t \<and> reach E s t) (events E es s)"
        by (rule events_stay [OF W ok es]) (simp add: r Inr)
      moreover have "res (outcome_ok E) (if running t then Some (Waiting t) else finish E t)" if "stays (cfg E) s t" for t
        using finish_outcome [OF stays_wf [OF that] _ ok] stays_wf [OF that] by auto
      ultimately show ?thesis using r(1) Inr by (auto simp: res_iff)
    qed (simp add: r)
  qed
  then show ?thesis unfolding main_launch by auto
qed

end
