(* ===== verification/ViewEffects.thy ===== *)
theory ViewEffects
  imports ViewFrames
begin

text \<open>
  What the commands on tags and views do, beyond keeping the invariant: which tags are in
  view, that the selected client is a visible one, and how the commands undo each other.
\<close>

section \<open>The selection\<close>

text \<open>The selection is sound: a visible client of the monitor, or none when no client is visible.\<close>

definition sel_visible :: "wm \<Rightarrow> bool" where
  "sel_visible s \<longleftrightarrow>
     (case selid s of
        Some c \<Rightarrow> ISVISIBLE s c = Some True
      | None \<Rightarrow> \<exists>k. selm s = Some k \<and> (\<forall>c \<in> set (m_clients k). ISVISIBLE s c = Some False))"

text \<open>The same objects and settings, on the same selected monitor.\<close>

definition settled :: "config \<Rightarrow> wm \<Rightarrow> wm \<Rightarrow> bool" where
  "settled cf s t \<longleftrightarrow> wf cf t \<and> keep s t \<and> selmon t = selmon s \<and> sel_visible t"

lemma focus_here:
  assumes W: "wf (cfg E) s" and ok: "config_ok (cfg E)"
  shows "res (settled (cfg E) s) (focus E None s)"
proof -
  obtain k where k: "selm s = Some k" "mmem s (selmon s) = Some k" using wfx_selmon [OF W] by metis
  obtain r where r: "focus_target s None = Some r"
    "\<And>c. r = Some c \<Longrightarrow> clis s c \<noteq> None \<and> ISVISIBLE s c = Some True"
    "res (\<lambda>u. wf (cfg E) u \<and> focused s u r) (focus E None s)"
    by (rule focus_spec [OF W ok, of None]) simp_all
  have ft: "firstO (ISVISIBLE s) (m_stack k) = Some r"
    using r(1) k(1) by (simp add: focus_target_def)
  have st: "set (m_stack k) = set (m_clients k)" by (rule wfx_stack_clients [OF W k(2)])
  have mem: "\<exists>j. clis s c = Some j \<and> c_mon j = selmon s" if "r = Some c" for c
  proof -
    have "c \<in> set (m_clients k)" using ft that firstO_mem [of "ISVISIBLE s" "m_stack k" c] st by simp
    then show ?thesis by (rule wfx_clientD [OF W k(2)])
  qed
  show ?thesis
  proof (rule res_mono [OF r(3)], elim conjE)
    fix u assume u: "wf (cfg E) u" "focused s u r"
    have sm: "selmon u = selmon s" using u(2) mem by (auto simp: focused_def split: option.splits)
    obtain k' where k': "mmem u (selmon s) = Some k'" "m_clients k' = m_clients k" "m_sel k' = r"
      using u(2) k(2) sm by (auto simp: focused_def)
    have K: "keep s u" using u(2) by (simp add: focused_def)
    have sel: "selid u = r" "selm u = Some k'" using k' sm by (simp_all add: selid_def selm_def)
    have "sel_visible u"
    proof (cases r)
      case None
      have "ISVISIBLE s c = Some False" if "c \<in> set (m_clients k)" for c
        using firstO_none [of "ISVISIBLE s" "m_stack k" c] ft None that st by simp
      then show ?thesis using None sel k'(2) by (simp add: sel_visible_def keep_ISVISIBLE [OF K])
    next
      case (Some c)
      then show ?thesis using r(2) [OF Some] sel by (simp add: sel_visible_def keep_ISVISIBLE [OF K])
    qed
    then show "settled (cfg E) s u" using u(1) K sm by (simp add: settled_def)
  qed
qed

lemma cosm_sel_visible:
  assumes "cosm s t" "sel_visible s"
  shows "sel_visible t"
proof (cases "selid s")
  case None
  then obtain k where k: "selm s = Some k" "\<forall>c \<in> set (m_clients k). ISVISIBLE s c = Some False"
    using assms(2) by (auto simp: sel_visible_def)
  obtain k' where k': "selm t = Some k'" "mskel k' = mskel k"
    using cosm_monitor [OF assms(1)] k(1) cosm_fields(2) [OF assms(1)] by (metis selm_def)
  then show ?thesis
    using k None mskel_fields(1) [OF k'(2)]
    by (simp add: sel_visible_def cosm_selid [OF assms(1)] cosm_ISVISIBLE [OF assms(1)])
next
  case (Some c)
  then show ?thesis
    using assms by (simp add: sel_visible_def cosm_selid [OF assms(1)] cosm_ISVISIBLE [OF assms(1)])
qed

lemma cosm_settled: "cosm t u \<Longrightarrow> settled cf s t \<Longrightarrow> settled cf s u"
  using cosm_sel_visible [of t u] cosm_keep [of t u] wfx_cosm [of t u cf "{}"] cosm_fields(2) [of t u]
  by (auto simp: settled_def intro: keep_trans)

lemma res_settled:
  assumes "settled cf s t" "wf cf t \<Longrightarrow> res (cosm t) p"
  shows "res (settled cf s) p"
  by (rule res_mono [OF assms(2)]) (use assms(1) cosm_settled in \<open>auto simp: settled_def\<close>)

lemma arrange_here:
  assumes "settled (cfg E) s t" "config_ok (cfg E)"
  shows "res (settled (cfg E) s) (arrange E (Some (selmon t)) t)"
proof (rule res_settled [OF assms(1)])
  assume W: "wf (cfg E) t"
  then show "res (cosm t) (arrange E (Some (selmon t)) t)"
    using wfx_selm [OF W] by (intro arrange_cosm [OF cosm_refl W assms(2)]) (simp add: selm_def)
qed

lemma desktop_here:
  assumes "settled (cfg E) s t"
  shows "res (settled (cfg E) s) (updatecurrentdesktop E t)"
  by (rule res_settled [OF assms]) (use wfx_selm in \<open>blast intro: updatecurrentdesktop_cosm [OF cosm_refl]\<close>)

text \<open>The end of the commands on views.\<close>

lemma refocus_here:
  assumes W: "wf (cfg E) s" and ok: "config_ok (cfg E)"
  shows "res (settled (cfg E) s) (do { s \<leftarrow> focus E None s; arrange E (Some (selmon s)) s })"
  by (rule res_bind [OF focus_here [OF W ok]]) (rule arrange_here [OF _ ok])

section \<open>Views\<close>

text \<open>\<open>view\<close> runs \<open>view_mon\<close> on the selected monitor, and then selects a client that is visible.\<close>

lemma view_effect:
  assumes W: "wf (cfg E) s" and ok: "config_ok (cfg E)" and m: "selm s = Some m"
    and ne: "ui AND TAGMASK (cfg E) \<noteq> tagsel m"
  obtains m' where "view_mon (cfg E) ui m = Some m'"
    "res (settled (cfg E) (s\<lparr>mmem := (mmem s)(selmon s \<mapsto> m')\<rparr>)) (view E ui s)"
proof -
  have mm: "mmem s (selmon s) = Some m" using m by (simp add: selm_def)
  obtain m' where m': "view_mon (cfg E) ui m = Some m'" "mon_shape (cfg E) (bh s) (running s) m'" "keeps_lists m m'"
    using view_mon_total [OF wfx_shape [OF W mm], of ui] by blast
  let ?s = "s\<lparr>mmem := (mmem s)(selmon s \<mapsto> m')\<rparr>"
  have u: "modm (selmon s) (\<lambda>_. m') s = Some ?s" using mm by (simp add: modm_def)
  have "res (fr (cfg E) s) (modm (selmon s) (\<lambda>_. m') s)"
    by (rule fr_set_mon [OF fr_refl [OF W] mm m'(2,3)])
  then have W': "wf (cfg E) ?s" unfolding u res_Some by (rule fr_wf)
  have "res (settled (cfg E) ?s) (view E ui s)"
    unfolding view_def m bind.bind_lunit m'(1) u
    using ne by simp
      (rule res_bind [OF focus_here [OF W' ok]], rule res_bind, rule arrange_here [OF _ ok], assumption, rule desktop_here)
  then show ?thesis using that m'(1) by blast
qed

lemma settled_selm:
  assumes "settled cf (s\<lparr>mmem := (mmem s)(selmon s \<mapsto> m')\<rparr>) t"
  obtains k where "selm t = Some k" "mcore k = mcore m'"
  using assms keep_monitor [of "s\<lparr>mmem := (mmem s)(selmon s \<mapsto> m')\<rparr>" t "selmon s" m']
  by (auto simp: settled_def selm_def)

text \<open>Going to other tags and back again.\<close>

lemma view_mon_back:
  assumes S: "mon_shape cf b r m" and nz: "ui AND TAGMASK cf \<noteq> 0"
    and v: "view_mon cf ui m = Some m1" "mcore k = mcore m1" "view_mon cf 0 k = Some m2"
  shows "m_seltags m2 = m_seltags m" "tagsel m2 = tagsel m" "curtag (m_pertag m2) = curtag (m_pertag m)"
    "prevtag (m_pertag m2) = curtag (m_pertag k)"
proof -
  have l: "m_seltags m < 2" "length (m_tagset m) = 2" using S by (simp_all add: mon_shape_def)
  note k = mcore_fields [OF v(2)]
  obtain t where t: "m1 = apply_pertag (m\<lparr>m_seltags := m_seltags m XOR 1,
      m_tagset := (m_tagset m)[m_seltags m XOR 1 := ui AND TAGMASK cf],
      m_pertag := (m_pertag m)\<lparr>curtag := t, prevtag := curtag (m_pertag m)\<rparr>\<rparr>)"
    using v(1) nz by (auto simp: view_mon_def Let_def split: bind_splits if_splits)
  have a: "m_seltags (apply_pertag x) = m_seltags x" "m_tagset (apply_pertag x) = m_tagset x"
    "m_pertag (apply_pertag x) = m_pertag x" for x
    by (simp_all add: apply_pertag_def Let_def)
  have m2: "m_seltags m2 = m_seltags k XOR 1" "m_tagset m2 = m_tagset k"
    "m_pertag m2 = (m_pertag k)\<lparr>curtag := prevtag (m_pertag k), prevtag := curtag (m_pertag k)\<rparr>"
    using v(3) by (auto simp: view_mon_def Let_def a)
  let ?i = "m_seltags m"
  have x: "(?i XOR 1) XOR 1 = ?i" by (simp add: xor.assoc)
  have ne: "?i XOR 1 \<noteq> ?i" using x l(1) by (cases "?i = 0") (auto simp: less_2_cases_iff)
  have K: "m_seltags k = ?i XOR 1" "m_tagset k = (m_tagset m)[?i XOR 1 := ui AND TAGMASK cf]"
    "prevtag (m_pertag k) = curtag (m_pertag m)"
    by (simp_all add: k t a)
  show s: "m_seltags m2 = ?i" by (simp only: m2 K x)
  show "tagsel m2 = tagsel m"
    unfolding tagsel_def s m2(2) K(2) by (rule nth_list_update_neq [OF ne])
  show "curtag (m_pertag m2) = curtag (m_pertag m)" "prevtag (m_pertag m2) = curtag (m_pertag k)"
    by (simp_all add: m2(3) K(3))
qed

section \<open>Rotation\<close>

lemma within_mask: "w AND tagmask n = w \<longleftrightarrow> (\<forall>i. bit w i \<longrightarrow> i < n)" if "n \<le> 32" for w :: "32 word"
proof
  assume "w AND tagmask n = w"
  then show "\<forall>i. bit w i \<longrightarrow> i < n" by (metis bit_and_iff bit_tagmask)
next
  assume "\<forall>i. bit w i \<longrightarrow> i < n"
  then show "w AND tagmask n = w"
    using that by (intro bit_word_eqI) (auto simp: bit_and_iff)
qed

lemma rotate_back:
  assumes "w AND tagmask n = w" "n \<le> 31"
    "rotate_left n r w = Some u" "rotate_right n r (u AND tagmask n) = Some v"
  shows "v AND tagmask n = w"
proof -
  have r: "r \<le> n" and u: "u = push_bit r w OR drop_bit (n - r) w"
    and v: "v = drop_bit r (u AND tagmask n) OR push_bit (n - r) (u AND tagmask n)"
    using assms(3,4) by (auto simp: rotate_left_def rotate_right_def split: if_splits)
  have w: "bit w i \<Longrightarrow> i < n" for i using within_mask [of n w] assms(1,2) by simp
  show ?thesis
  proof (rule bit_word_eqI)
    fix i assume i: "i < LENGTH(32)"
    then have i32: "i < 32" by simp
    show "bit (v AND tagmask n) i = bit w i"
    proof (cases "i < n")
      case True
      have "bit v i \<longleftrightarrow> bit w i"
      proof (cases "r + i < n")
        case lt: True
        have "\<not> bit w (n + i)" using w by fastforce
        moreover have "\<not> n - r \<le> i" using lt r by simp
        ultimately show ?thesis
          using r lt assms(2) i32
          by (simp add: v u bit_or_iff bit_and_iff bit_drop_bit_eq bit_push_bit_iff)
      next
        case False
        have "i - (n - r) + (n - r) = i" "i - (n - r) < r" "n - r \<le> i" using False r True by simp_all
        then show ?thesis
          using r False assms(2) i32 True
          by (simp add: v u bit_or_iff bit_and_iff bit_drop_bit_eq bit_push_bit_iff)
      qed
      then show ?thesis using True i32 by (simp add: bit_and_iff)
    qed (use w in \<open>auto simp: bit_and_iff\<close>)
  qed
qed

section \<open>Swapping tags\<close>

lemma swap_tags_cases:
  assumes "new \<noteq> cur" "new \<noteq> 0" "cur \<noteq> 0"
  shows "c_tags k = cur \<Longrightarrow> c_tags (swap_tags new cur k) = new"
    "c_tags k = new \<Longrightarrow> c_tags (swap_tags new cur k) = cur"
    "c_tags k AND (new OR cur) = 0 \<Longrightarrow> c_tags k \<noteq> 0 \<Longrightarrow> c_tags (swap_tags new cur k) = c_tags k"
    "c_tags (swap_tags new cur k) \<noteq> 0"
proof -
  show "c_tags k = cur \<Longrightarrow> c_tags (swap_tags new cur k) = new"
    using assms by (simp add: swap_tags_def Let_def xor.assoc [symmetric])
  show "c_tags k = new \<Longrightarrow> c_tags (swap_tags new cur k) = cur"
    using assms by (simp add: swap_tags_def Let_def xor.left_commute)
  have "c_tags k AND new = 0 \<and> c_tags k AND cur = 0" if "c_tags k AND (new OR cur) = 0"
    using that by (simp add: bit.conj_disj_distrib) (metis or_eq_0_iff)
  then show "c_tags k AND (new OR cur) = 0 \<Longrightarrow> c_tags k \<noteq> 0 \<Longrightarrow> c_tags (swap_tags new cur k) = c_tags k"
    by (simp add: swap_tags_def Let_def)
  show "c_tags (swap_tags new cur k) \<noteq> 0"
    using assms by (simp add: swap_tags_def Let_def)
qed

lemma swap_tags_mask:
  assumes "new AND M = new" "cur AND M = cur" "c_tags k AND M = c_tags k"
  shows "c_tags (swap_tags new cur k) AND M = c_tags (swap_tags new cur k)"
proof -
  have "(c_tags k XOR (cur XOR new)) AND M = c_tags k XOR (cur XOR new)"
    using assms by (simp add: bit.conj_xor_distrib2)
  then show ?thesis using assms by (simp add: swap_tags_def Let_def)
qed

section \<open>Toggling a view\<close>

text \<open>After \<open>view\<close> with all bits set no tag is current, and the shift by \<open>curtag - 1\<close> has no meaning.\<close>

lemma toggleview_all:
  assumes "selm s = Some m" "curtag (m_pertag m) = 0" "tagsel m XOR (ui AND TAGMASK (cfg E)) \<noteq> 0"
  shows "toggleview E ui s = None"
proof -
  have "toggleview_mon (tagsel m XOR (ui AND TAGMASK (cfg E))) m = None"
    using assms(2) by (simp add: toggleview_mon_def Let_def)
  then show ?thesis using assms(1,3) by (simp add: toggleview_def Let_def)
qed

lemma toggleview_effect:
  assumes W: "wf (cfg E) s" and ok: "config_ok (cfg E)" and m: "selm s = Some m"
    and c: "curtag (m_pertag m) \<noteq> 0" and new: "tagsel m XOR (ui AND TAGMASK (cfg E)) \<noteq> 0" (is "?new \<noteq> 0")
  obtains m' where "toggleview_mon ?new m = Some m'" "tagsel m' = ?new"
    "res (settled (cfg E) (s\<lparr>mmem := (mmem s)(selmon s \<mapsto> m')\<rparr>)) (toggleview E ui s)"
proof -
  have mm: "mmem s (selmon s) = Some m" using m by (simp add: selm_def)
  note S = wfx_shape [OF W mm]
  obtain m' where m': "toggleview_mon ?new m = Some m'" "mon_shape (cfg E) (bh s) (running s) m'"
    "keeps_lists m m'" "tagsel m' = ?new"
    using toggleview_mon_total [OF S ok new masked_xor [OF tagsel_ok(2) [OF S]] c] by blast
  let ?s = "s\<lparr>mmem := (mmem s)(selmon s \<mapsto> m')\<rparr>"
  have u: "modm (selmon s) (\<lambda>_. m') s = Some ?s" using mm by (simp add: modm_def)
  have "res (fr (cfg E) s) (modm (selmon s) (\<lambda>_. m') s)"
    by (rule fr_set_mon [OF fr_refl [OF W] mm m'(2,3)])
  then have W': "wf (cfg E) ?s" unfolding u res_Some by (rule fr_wf)
  have "res (settled (cfg E) ?s) (do { s \<leftarrow> focus E None ?s; s \<leftarrow> arrange E (Some (selmon s)) s; updatecurrentdesktop E s })"
    by (rule res_bind [OF focus_here [OF W' ok]], rule res_bind, erule arrange_here [OF _ ok], erule desktop_here)
  then have "res (settled (cfg E) ?s) (toggleview E ui s)"
    using new by (simp add: toggleview_def m m'(1) u Let_def)
  then show ?thesis using that m'(1,4) by blast
qed

end
