(* ===== verification/GridCells.thy ===== *)
theory GridCells
  imports Layouts
begin

text \<open>
  The layout \<open>grid\<close>: its numbers of rows and columns fit the number of clients, and without
  gaps its cells are inside the area of the monitor and do not overlap.
\<close>

section \<open>The grid\<close>

text \<open>The number of rows is the least with a square large enough.\<close>

lemma grid_rows_found:
  assumes "\<And>q. q < r \<Longrightarrow> q * q < n"
  shows "n \<le> grid_rows n r * grid_rows n r \<and> (\<forall>q < grid_rows n r. q * q < n)"
  using assms
proof (induction n r rule: grid_rows.induct)
  case (1 n r)
  show ?case
  proof (cases "r \<le> n div 2")
    case True
    show ?thesis
    proof (cases "n \<le> r * r")
      case True
      then have e: "grid_rows n r = r" using \<open>r \<le> n div 2\<close> by (subst grid_rows.simps) simp
      show ?thesis unfolding e using True "1.prems" by blast
    next
      case False
      then have e: "grid_rows n r = grid_rows n (r + 1)" using True by (subst grid_rows.simps) simp
      show ?thesis
        unfolding e
      proof (rule "1.IH" [OF True])
        show "\<not> n \<le> r * r" by (rule False)
        fix q assume "q < r + 1"
        then show "q * q < n" using "1.prems" [of q] False by (cases "q = r") auto
      qed
    qed
  next
    case False
    then have e: "grid_rows n r = r" by (subst grid_rows.simps) simp
    have "n \<le> r * r"
    proof -
      have "n < 2 * r" using False by linarith
      moreover have "2 * r \<le> r * r" if "2 \<le> r" using that by simp
      ultimately show ?thesis by (cases "2 \<le> r") (auto simp: not_le less_Suc_eq numeral_2_eq_2)
    qed
    then show ?thesis unfolding e using "1.prems" by blast
  qed
qed

text \<open>Rows times columns are enough for the clients, with neither a row nor a column too many.\<close>

lemma grid_fits:
  assumes "rows = grid_rows n 0" "cols = grid_cols n rows"
  shows "n \<le> rows * cols" "0 < n \<Longrightarrow> (rows - 1) * cols < n" "0 < n \<Longrightarrow> rows * (cols - 1) < n"
proof -
  have R: "n \<le> rows * rows" "\<And>q. q < rows \<Longrightarrow> q * q < n"
    using grid_rows_found [of 0 n] assms(1) by auto
  show "n \<le> rows * cols"
    using R(1) assms(2) by (auto simp: grid_cols_def mult.commute)
  assume n: "0 < n"
  then have r: "0 < rows" using R(1) by (cases rows) auto
  have q: "(rows - 1) * (rows - 1) < n" using R(2) [of "rows - 1"] r by simp
  show "(rows - 1) * cols < n"
    using q assms(2) r by (auto simp: grid_cols_def)
  have "rows * (rows - Suc (Suc 0)) \<le> (rows - 1) * (rows - 1)"
    by (cases rows; cases "rows - 1") auto
  then show "rows * (cols - 1) < n"
    using q assms(2) r by (auto simp: grid_cols_def mult.commute)
qed

text \<open>The cells without gaps: inside the area of the monitor, and disjoint.\<close>

definition area_ok :: "monitor \<Rightarrow> bool" where
  "area_ok m \<longleftrightarrow> 0 \<le> m_wx m \<and> 0 \<le> m_wy m \<and> 0 < m_ww m \<and> 0 < m_wh m
     \<and> m_wx m + m_ww m < 2 ^ 30 \<and> m_wy m + m_wh m < 2 ^ 30"

lemma mult_div_below: "0 < (n :: int) \<Longrightarrow> n * (w div n) \<le> w"
  by (simp flip: minus_mod_eq_mult_div)

lemma part_bound:
  fixes i n w :: int
  assumes "0 \<le> i" "i < n" "0 \<le> w"
  shows "i * (w div n) + w div n \<le> w" "0 \<le> i * (w div n)" "0 \<le> w div n"
proof -
  have "(i + 1) * (w div n) \<le> n * (w div n)"
    by (rule mult_right_mono) (use assms in \<open>auto simp: pos_imp_zdiv_nonneg_iff\<close>)
  also have "\<dots> \<le> w" using assms by (simp add: mult_div_below)
  finally show "i * (w div n) + w div n \<le> w" by (simp add: algebra_simps)
  show "0 \<le> w div n" using assms by (simp add: pos_imp_zdiv_nonneg_iff)
  then show "0 \<le> i * (w div n)" using assms by simp
qed

text \<open>The cell of row \<open>r\<close> and column \<open>c\<close>; the last row and the last column take the rest.\<close>

lemma cell_plain_at:
  assumes m: "area_ok m" and b: "0 \<le> b" "b < 2 ^ 29" and r: "0 < rows" "0 \<le> i" "i < rows * cols" "rows * cols < 2 ^ 31"
  defines "cc \<equiv> i div rows" and "cr \<equiv> i mod rows" and "cw \<equiv> m_ww m div cols" and "ch \<equiv> m_wh m div rows"
  shows "cell_plain m rows cols b i = Some
    \<lparr>gx = m_wx m + cc * cw, gy = m_wy m + cr * ch,
     gw = cw - 2 * b + (if cc = cols - 1 then m_ww m - cols * cw else 0),
     gh = ch - 2 * b + (if cr = rows - 1 then m_wh m - rows * ch else 0)\<rparr>"
    "0 \<le> cc" "cc < cols" "0 \<le> cr" "cr < rows"
proof -
  have "0 < rows * cols" using r by linarith
  then have c: "0 < cols" using r(1) by (simp add: zero_less_mult_iff)
  show cr: "0 \<le> cr" "cr < rows" using r(1) by (simp_all add: cr_def)
  have i: "i = rows * cc + cr" by (simp add: cc_def cr_def)
  have col: "cc < x \<longleftrightarrow> i < rows * x" for x
  proof
    assume "cc < x"
    then have "rows * (cc + 1) \<le> rows * x" by (intro mult_left_mono) (use r(1) in auto)
    then show "i < rows * x" using i cr by (simp add: algebra_simps)
  next
    assume "i < rows * x"
    then have "rows * cc < rows * x" using i cr by linarith
    then show "cc < x" using r(1) by simp
  qed
  show cc: "0 \<le> cc" "cc < cols"
    using r(1,2) by (simp add: cc_def pos_imp_zdiv_nonneg_iff) (use col r(3) in blast)
  have last_row: "(i + 1) mod rows = 0 \<longleftrightarrow> cr = rows - 1"
  proof -
    have "(i + 1) mod rows = (cr + 1) mod rows" by (simp add: cr_def mod_simps)
    then show ?thesis using cr by (cases "cr = rows - 1") auto
  qed
  have last_col: "i \<ge> rows * (cols - 1) \<longleftrightarrow> cc = cols - 1"
    using col [of "cols - 1"] cc by auto
  have u: "u32 (rows * (cols - 1)) = rows * (cols - 1)"
    using r c by (intro u32_id) (auto simp: algebra_simps)
  note W = part_bound [of cc cols "m_ww m"] and H = part_bound [of cr rows "m_wh m"]
  have W': "cc * cw + cw \<le> m_ww m" "0 \<le> cc * cw" "0 \<le> cw" using W cc m by (simp_all add: cw_def area_ok_def)
  have H': "cr * ch + ch \<le> m_wh m" "0 \<le> cr * ch" "0 \<le> ch" using H cr m by (simp_all add: ch_def area_ok_def)
  have R: "0 \<le> m_ww m - cols * cw" "0 \<le> m_wh m - rows * ch"
    using c r(1) by (simp_all add: cw_def ch_def mult_div_below)
  have P: "0 \<le> cols * cw" "0 \<le> rows * ch" using c r(1) W' H' by simp_all
  note m' = m [unfolded area_ok_def]
  have uw: "u32 (m_ww m) = m_ww m" "u32 (m_wh m) = m_wh m" using m' by (auto intro!: u32_id)
  have ur: "u32 (m_ww m - cw * cols) = m_ww m - cols * cw" "u32 (m_wh m - ch * rows) = m_wh m - rows * ch"
    using R P m' by (auto intro!: u32_id simp: mult.commute)
  have X: "cw - 2 * b + (m_ww m - cols * cw) < 2147483648" "ch - 2 * b + (m_wh m - rows * ch) < 2147483648"
    using W' H' P m' b by auto
  show "cell_plain m rows cols b i = Some
    \<lparr>gx = m_wx m + cc * cw, gy = m_wy m + cr * ch,
     gw = cw - 2 * b + (if cc = cols - 1 then m_ww m - cols * cw else 0),
     gh = ch - 2 * b + (if cr = rows - 1 then m_wh m - rows * ch else 0)\<rparr>"
    using r(1) c b W' H' R X m'
    by (auto simp: cell_plain_def nz_def Let_def uw u last_row last_col ur
        simp flip: cc_def cr_def cw_def ch_def intro!: s32_id)
qed

section \<open>Cells of the grid\<close>

definition inside :: "monitor \<Rightarrow> int \<Rightarrow> geom \<Rightarrow> bool" where
  "inside m b g \<longleftrightarrow> m_wx m \<le> gx g \<and> gx g + gw g + 2 * b \<le> m_wx m + m_ww m
     \<and> m_wy m \<le> gy g \<and> gy g + gh g + 2 * b \<le> m_wy m + m_wh m"

definition apart :: "int \<Rightarrow> geom \<Rightarrow> geom \<Rightarrow> bool" where
  "apart b g h \<longleftrightarrow> gx g + gw g + 2 * b \<le> gx h \<or> gx h + gw h + 2 * b \<le> gx g
     \<or> gy g + gh g + 2 * b \<le> gy h \<or> gy h + gh h + 2 * b \<le> gy g"

lemma cells_inside:
  assumes "area_ok m" "0 \<le> b" "b < 2 ^ 29" "0 < rows" "0 \<le> i" "i < rows * cols" "rows * cols < 2 ^ 31"
    "cell_plain m rows cols b i = Some g"
  shows "inside m b g"
proof -
  note C = cell_plain_at [OF assms(1-7)]
  have W: "i div rows * (m_ww m div cols) + m_ww m div cols \<le> m_ww m" "0 \<le> i div rows * (m_ww m div cols)"
    using part_bound [OF C(2,3), of "m_ww m"] assms(1) by (simp_all add: area_ok_def)
  have H: "i mod rows * (m_wh m div rows) + m_wh m div rows \<le> m_wh m" "0 \<le> i mod rows * (m_wh m div rows)"
    using part_bound [OF C(4,5), of "m_wh m"] assms(1) by (simp_all add: area_ok_def)
  have e: "(cols - 1) * x + x = cols * x" "(rows - 1) * x + x = rows * x" for x by (simp_all add: algebra_simps)
  show ?thesis
    using C(1) W H e [of "m_ww m div cols"] e [of "m_wh m div rows"] assms(8)
    by (auto simp: inside_def split: if_splits)
qed

lemma next_part:
  fixes a b w :: int
  assumes "a < b" "0 \<le> w"
  shows "a * w + w \<le> b * w"
proof -
  have "(a + 1) * w \<le> b * w" by (rule mult_right_mono) (use assms in auto)
  then show ?thesis by (simp add: algebra_simps)
qed

lemma cells_apart:
  assumes m: "area_ok m" and b: "0 \<le> b" "b < 2 ^ 29" and r: "0 < rows" "rows * cols < 2 ^ 31"
    and i: "0 \<le> i" "i < j" "j < rows * cols"
    and g: "cell_plain m rows cols b i = Some g" and h: "cell_plain m rows cols b j = Some h"
  shows "apart b g h"
proof -
  note I = cell_plain_at [OF m b r(1) i(1) _ r(2)] and J = cell_plain_at [OF m b r(1) _ i(3) r(2)]
  have i': "i < rows * cols" "0 \<le> j" using i by simp_all
  have P: "0 \<le> m_ww m div cols" "0 \<le> m_wh m div rows"
    using part_bound(3) [OF I(2,3) [OF i'(1)], of "m_ww m"] part_bound(3) [OF I(4,5) [OF i'(1)], of "m_wh m"] m
    by (simp_all add: area_ok_def)
  show ?thesis
  proof (cases "i div rows = j div rows")
    case True
    have "i mod rows < j mod rows" using i(2) True by (metis add_less_cancel_left mult_div_mod_eq)
    then have "i mod rows \<noteq> rows - 1" "i mod rows * (m_wh m div rows) + m_wh m div rows \<le> j mod rows * (m_wh m div rows)"
      using J(5) [OF i'(2)] next_part [OF _ P(2)] by auto
    then show ?thesis
      using I(1) [OF i'(1)] J(1) [OF i'(2)] g h by (auto simp: apart_def)
  next
    case False
    have "i div rows < j div rows" using zdiv_mono1 [of i j rows] i(2) r(1) False by simp
    then have "i div rows \<noteq> cols - 1" "i div rows * (m_ww m div cols) + m_ww m div cols \<le> j div rows * (m_ww m div cols)"
      using J(3) [OF i'(2)] next_part [OF _ P(1)] by auto
    then show ?thesis
      using I(1) [OF i'(1)] J(1) [OF i'(2)] g h by (auto simp: apart_def)
  qed
qed

end
