(* ===== verification/Behaviour.thy ===== *)
theory Behaviour
  imports Program ViewEffects GridCells
begin

text \<open>
  What single operations compute: sizes, positions and monitors, the requests they send, and
  the inputs on which they fail or lose a client.
\<close>

section \<open>Sizes and positions\<close>

lemma cmod_dvd: "b dvd a - cmod a b"
  by (simp add: cmod_def)

text \<open>The size that the hints give: within the limits, and a multiple of the increments above the base.\<close>

lemma apply_hints_spec:
  assumes "apply_hints k w h = Some (w', h')"
  shows "c_maxw k \<noteq> 0 \<longrightarrow> w' \<le> c_maxw k" "c_maxh k \<noteq> 0 \<longrightarrow> h' \<le> c_maxh k"
    "c_maxw k = 0 \<or> c_minw k \<le> c_maxw k \<longrightarrow> c_minw k \<le> w'"
    "c_maxh k = 0 \<or> c_minh k \<le> c_maxh k \<longrightarrow> c_minh k \<le> h'"
    "w' = c_minw k \<or> c_maxw k \<noteq> 0 \<and> w' = c_maxw k \<or> c_incw k = 0 \<or> c_incw k dvd w' - c_basew k"
    "h' = c_minh k \<or> c_maxh k \<noteq> 0 \<and> h' = c_maxh k \<or> c_inch k = 0 \<or> c_inch k dvd h' - c_baseh k"
proof -
  obtain u v where u: "w' = (if c_maxw k \<noteq> 0 then min (max (u + c_basew k) (c_minw k)) (c_maxw k)
        else max (u + c_basew k) (c_minw k))"
      "h' = (if c_maxh k \<noteq> 0 then min (max (v + c_baseh k) (c_minh k)) (c_maxh k)
        else max (v + c_baseh k) (c_minh k))"
      "c_incw k = 0 \<or> c_incw k dvd u" "c_inch k = 0 \<or> c_inch k dvd v"
  proof -
    obtain a b where "w' = (if c_maxw k \<noteq> 0 then min (max (a + c_basew k) (c_minw k)) (c_maxw k)
        else max (a + c_basew k) (c_minw k))"
      "h' = (if c_maxh k \<noteq> 0 then min (max (b + c_baseh k) (c_minh k)) (c_maxh k)
        else max (b + c_baseh k) (c_minh k))"
      "\<exists>x. a = (if c_incw k \<noteq> 0 then x - cmod x (c_incw k) else x)"
      "\<exists>y. b = (if c_inch k \<noteq> 0 then y - cmod y (c_inch k) else y)"
      using assms unfolding apply_hints_def Let_def
      by (auto simp del: max_def min_def split: bind_splits prod.splits)
    then show ?thesis using that cmod_dvd by (auto split: if_splits)
  qed
  show "c_maxw k \<noteq> 0 \<longrightarrow> w' \<le> c_maxw k" "c_maxh k \<noteq> 0 \<longrightarrow> h' \<le> c_maxh k"
    "c_maxw k = 0 \<or> c_minw k \<le> c_maxw k \<longrightarrow> c_minw k \<le> w'"
    "c_maxh k = 0 \<or> c_minh k \<le> c_maxh k \<longrightarrow> c_minh k \<le> h'"
    using u(1,2) by auto
  show "w' = c_minw k \<or> c_maxw k \<noteq> 0 \<and> w' = c_maxw k \<or> c_incw k = 0 \<or> c_incw k dvd w' - c_basew k"
    using u(1,3) by (auto simp: max_def min_def)
  show "h' = c_minh k \<or> c_maxh k \<noteq> 0 \<and> h' = c_maxh k \<or> c_inch k = 0 \<or> c_inch k dvd h' - c_baseh k"
    using u(2,4) by (auto simp: max_def min_def)
qed

text \<open>A window that is not dragged overlaps the area of its monitor.\<close>

lemma clamp_overlaps:
  assumes "g' = clamp_position False s k m g" "0 < WIDTH k" "0 < HEIGHT k" "0 < m_ww m" "0 < m_wh m" "0 \<le> c_bw k"
  shows "gx g' < m_wx m + m_ww m" "m_wx m < gx g' + gw g' + 2 * c_bw k"
    "gy g' < m_wy m + m_wh m" "m_wy m < gy g' + gh g' + 2 * c_bw k" "1 \<le> gw g'" "1 \<le> gh g'"
  using assms by (auto simp: clamp_position_def Let_def)

section \<open>Monitors\<close>

text \<open>Monitors by the largest part of a rectangle.\<close>

lemma recttomon_largest:
  assumes W: "wfx cf X s" and r: "recttomon x y w h s = Some m"
    and o: "mmem s n = Some k"
  shows "\<exists>j. mmem s m = Some j \<and> INTERSECT x y w h k \<le> INTERSECT x y w h j"
    "(\<forall>i j. mmem s i = Some j \<longrightarrow> INTERSECT x y w h j = 0) \<Longrightarrow> m = selmon s"
proof -
  define f where "f = (\<lambda>a. INTERSECT x y w h (the (mmem s a)))"
  have D: "dom (mmem s) = set (mons s)" using W by (simp add: wfx_def)
  have f: "map_option (INTERSECT x y w h) (mmem s i) = Some (f i)" if "i \<in> set (mons s)" for i
  proof -
    have "i \<in> dom (mmem s)" unfolding D by (rule that)
    then obtain z where "mmem s i = Some z" by (auto simp: dom_def)
    then show ?thesis by (simp add: f_def)
  qed
  have n: "n \<in> set (mons s)" unfolding D [symmetric] using o by (rule domI)
  have fn: "f n = INTERSECT x y w h k" using o by (simp add: f_def)
  have "\<exists>v. largest (\<lambda>a. map_option (INTERSECT x y w h) (mmem s a)) (mons s) 0 (selmon s) id = Some v \<and>
      ((v = selmon s \<and> (\<forall>i \<in> set (mons s). f i \<le> 0)) \<or>
       (\<exists>i \<in> set (mons s). v = id i \<and> f i > 0 \<and> (\<forall>j \<in> set (mons s). f j \<le> f i)))"
    by (rule largest_total [OF f])
  then obtain v where v: "largest (\<lambda>a. map_option (INTERSECT x y w h) (mmem s a)) (mons s) 0 (selmon s) id = Some v"
    "(v = selmon s \<and> (\<forall>i \<in> set (mons s). f i \<le> 0)) \<or>
      (\<exists>i \<in> set (mons s). v = id i \<and> f i > 0 \<and> (\<forall>j \<in> set (mons s). f j \<le> f i))"
    by (elim exE conjE) (rule that)
  have vm: "v = m" using v(1) r by (simp add: recttomon_def)
  have L: "(m = selmon s \<and> (\<forall>i \<in> set (mons s). f i \<le> 0)) \<or>
      (m \<in> set (mons s) \<and> f m > 0 \<and> (\<forall>j \<in> set (mons s). f j \<le> f m))"
    using v(2) unfolding vm id_apply by blast
  have sel: "selmon s \<in> set (mons s)" using W by (simp add: wfx_def)
  have pos: "f j \<ge> 0" for j unfolding f_def INTERSECT_def by (rule mult_nonneg_nonneg) (rule max.cobounded1)+
  have m: "m \<in> set (mons s)" using L sel by blast
  then obtain j where j: "mmem s m = Some j" unfolding D [symmetric] by (auto simp: dom_def)
  have "f n \<le> f m" using L n pos [of m] by auto
  then show "\<exists>j. mmem s m = Some j \<and> INTERSECT x y w h k \<le> INTERSECT x y w h j"
    using fn j by (simp add: f_def)
  show "m = selmon s" if "\<forall>i j. mmem s i = Some j \<longrightarrow> INTERSECT x y w h j = 0"
  proof -
    have "f m = 0" using that j by (simp add: f_def)
    then show ?thesis using L by simp
  qed
qed

text \<open>The monitors as a ring.\<close>

lemma after_app: "m \<notin> set us \<Longrightarrow> after m (us @ m # vs) = vs"
  by (induction us) auto

lemma before_app: "m \<notin> set us \<Longrightarrow> before m (us @ m # vs) = us"
  by (induction us) auto

lemma dirtomon_ring:
  assumes W: "wfx cf X s" and d: "0 < d" and m: "dirtomon d s = Some m" and e: "e \<le> 0"
  shows "dirtomon e (s\<lparr>selmon := m\<rparr>) = Some (selmon s)"
proof -
  have D: "distinct (mons s)" "selmon s \<in> set (mons s)" using W by (simp_all add: wfx_def)
  obtain us vs where ms: "mons s = us @ selmon s # vs" using D(2) by (meson split_list)
  have nus: "selmon s \<notin> set us" "selmon s \<notin> set vs" using D(1) ms by auto
  show ?thesis
  proof (cases vs)
    case Nil
    then have "m = hd (mons s)" using m d nus ms by (cases us) (auto simp: dirtomon_def after_app)
    then show ?thesis using e ms Nil by (cases us) (auto simp: dirtomon_def)
  next
    case (Cons v ws)
    have "after (selmon s) (mons s) = v # ws" using nus Cons by (simp add: ms after_app)
    then have v: "m = v" using m d by (simp add: dirtomon_def)
    have nv: "v \<notin> set (us @ [selmon s])" using D(1) ms Cons by auto
    have e1: "mons s = (us @ [selmon s]) @ v # ws" using ms Cons by simp
    have b: "before v (mons s) = us @ [selmon s]" unfolding e1 by (rule before_app [OF nv])
    obtain x xs where x: "mons s = x # xs" by (cases "mons s") (use ms in auto)
    have "v \<noteq> x" "v \<in> set xs" using x e1 nv by (cases us; auto)+
    then show ?thesis using e v b x by (simp add: dirtomon_def)
  qed
qed

section \<open>Values of commands\<close>

lemma setgaps_bounds:
  assumes "0 \<le> gappx cf" "gappx cf \<le> maxgappx cf" "0 \<le> m_gappx m" "m_gappx m \<le> maxgappx cf"
  shows "0 \<le> m_gappx (setgaps_mon cf i m)" "m_gappx (setgaps_mon cf i m) \<le> maxgappx cf"
  using assms by (auto simp: setgaps_mon_def Let_def)

lemma crash_without_selection:
  assumes "selm s = Some m" "m_sel m = None" "arrange_of E m = Some (Some a)"
  shows "incnmaster E i s = None" "setmfact E f s = None" "setsmfact E f s = None"
  using assms
  by (simp_all add: incnmaster_def setmfact_def setsmfact_def moves_floating_def sel_client_def)

lemma gettextprop_length:
  assumes "length text < sz" "gettextprop E s w a text sz = (b, t)"
  shows "length t < sz"
proof -
  have "length (strncpy (sz - 1) u) < sz" for u using assms(1) by (simp add: strncpy_def)
  then show ?thesis using assms
    by (auto simp: gettextprop_def split: if_splits option.splits prod.splits textprop.splits)
qed

section \<open>Clients that are lost from sight\<close>

text \<open>
  \<open>enqueue\<close> appends behind the last client of the list, so that it loses a client that was
  alone: after the four steps of \<open>rotatestack\<close> the client is in no list, but not freed.
\<close>

lemma lone_rotation:
  assumes W: "wf (cfg E) s" and k: "clis s c = Some k" "mmem s (c_mon k) = Some m" "m_clients m = [c]"
  shows "res (\<lambda>t. clis t c \<noteq> None \<and> (\<exists>m'. mmem t (c_mon k) = Some m' \<and> m_clients m' = [] \<and> m_stack m' = []))
    (do { s \<leftarrow> detach E c s; s \<leftarrow> enqueue c s; s \<leftarrow> detachstack c s; enqueuestack c s })"
proof -
  have "set (m_stack m) = {c}" "distinct (m_stack m)"
    using wfx_stack_clients [OF W k(2)] wfx_lists [OF W k(2)] k(3) by (simp_all add: mon_lists_def)
  then have st: "m_stack m = [c]" by (metis distinct_singleton empty_iff insert_iff list.exhaust list.set_intros(1,2) list.simps(15) distinct.simps(2) singletonD set_empty)
  let ?m1 = "m\<lparr>m_tagmarked := clear_marks (ntags (cfg E)) c (m_tagmarked m), m_clients := []\<rparr>"
  let ?s1 = "s\<lparr>mmem := (mmem s)(c_mon k \<mapsto> ?m1)\<rparr>"
  have 1: "detach E c s = Some ?s1" using detach_Some [OF k(1,2), of E] k(3) by simp
  have 2: "enqueue c ?s1 = Some ?s1" using k(1) by (simp add: enqueue_def modm_def)
  have 3: "res (\<lambda>t. clis t = clis s \<and> (\<exists>m'. mmem t (c_mon k) = Some m' \<and> m_clients m' = [] \<and> m_stack m' = []))
      (detachstack c ?s1)"
    using k(1) st by (cases "m_sel m = Some c") (simp_all add: detachstack_def modm_def)
  have 4: "res (\<lambda>t. clis t c \<noteq> None \<and> (\<exists>m'. mmem t (c_mon k) = Some m' \<and> m_clients m' = [] \<and> m_stack m' = []))
      (enqueuestack c u)"
    if "clis u = clis s \<and> (\<exists>m'. mmem u (c_mon k) = Some m' \<and> m_clients m' = [] \<and> m_stack m' = [])" for u
    using that k(1) by (auto simp: enqueuestack_def modm_def)
  show ?thesis
    unfolding 1 2 bind.bind_lunit by (rule res_bind [OF 3 4])
qed

text \<open>A client whose tags are set to zero by a message is on no view.\<close>

lemma cosm_tags:
  assumes "cosm s t" "clis s c = Some k"
  shows "\<exists>k'. clis t c = Some k' \<and> c_tags k' = c_tags k"
proof -
  obtain k' where "clis t c = Some k'" "cskel k' = cskel k" by (rule cosm_client [OF assms])
  then show ?thesis using cskel_fields(3) by blast
qed

lemma desktop_message:
  assumes W: "wf (cfg E) s" and ok: "config_ok (cfg E)"
    and c: "wintoclient s w = Some (Some c)" "clis s c = Some k"
    and a: "netatom E NetWMDesktop \<noteq> netatom E NetWMState" "netatom E NetWMDesktop \<noteq> netatom E NetActiveWindow"
  shows "res (\<lambda>t. \<exists>k'. clis t c = Some k' \<and> c_tags k' = word_of_int (data d 0))
    (clientmessage E w (netatom E NetWMDesktop) d s)"
proof -
  let ?k = "k\<lparr>c_tags := word_of_int (data d 0)\<rparr>"
  let ?s = "s\<lparr>clis := (clis s)(c \<mapsto> ?k)\<rparr>"
  have u: "modc c (\<lambda>k. k\<lparr>c_tags := word_of_int (data d 0)\<rparr>) s = Some ?s" using c(2) by (simp add: modc_def)
  have "res (fr (cfg E) s) (modc c (\<lambda>k. k\<lparr>c_tags := word_of_int (data d 0)\<rparr>) s)"
    by (rule fr_modc [OF fr_refl [OF W]]) (use c(2) in auto)
  then have W': "wf (cfg E) ?s" unfolding u res_Some by (rule fr_wf)
  obtain m where "mmem s (c_mon k) = Some m" using wfx_listedD [OF W c(2)] by blast
  then have "res (cosm ?s) (arrange E (Some (c_mon k)) ?s)"
    by (intro arrange_cosm [OF cosm_refl W' ok]) simp
  then have "res (\<lambda>t. \<exists>k'. clis t c = Some k' \<and> c_tags k' = word_of_int (data d 0)) (arrange E (Some (c_mon k)) ?s)"
    by (rule res_mono) (use cosm_tags [of ?s _ c ?k] in auto)
  then show ?thesis
    using c a by (simp add: clientmessage_def u)
qed

text \<open>Without \<open>viewontag\<close> nothing may be selected after a client is moved to other tags.\<close>

lemma tag_crash:
  assumes W: "wf (cfg E) s" and ok: "config_ok (cfg E)" and v: "\<not> viewontag (cfg E)"
    and m: "selm s = Some m" "m_sel m = Some c" "clis s c = Some k"
    and t: "ui AND TAGMASK (cfg E) \<noteq> 0" "ui AND tagsel m = 0" "\<not> c_issticky k"
    and alone: "\<And>b. b \<in> set (m_clients m) \<Longrightarrow> b \<noteq> c \<Longrightarrow> ISVISIBLE s b = Some False"
  shows "tag E ui s = None"
proof -
  let ?t = "ui AND TAGMASK (cfg E)"
  let ?k = "k\<lparr>c_tags := ?t\<rparr>"
  let ?s = "s\<lparr>clis := (clis s)(c \<mapsto> ?k)\<rparr>"
  have mm: "mmem s (selmon s) = Some m" using m(1) by (simp add: selm_def)
  have u: "modc c (\<lambda>k. k\<lparr>c_tags := ?t\<rparr>) s = Some ?s" using m(3) by (simp add: modc_def)
  have "res (fr (cfg E) s) (modc c (\<lambda>k. k\<lparr>c_tags := ?t\<rparr>) s)"
    by (rule fr_modc [OF fr_refl [OF W]]) (use m(3) in auto)
  then have W': "wf (cfg E) ?s" unfolding u res_Some by (rule fr_wf)
  have hid: "ISVISIBLE ?s b = Some False" if b: "b \<in> set (m_clients m)" for b
  proof (cases "b = c")
    case True
    have o: "c_mon k = selmon s" using wfx_clientD [OF W mm b] m(3) True by auto
    have "?t AND tagsel m = (ui AND tagsel m) AND TAGMASK (cfg E)" by (simp only: and.assoc and.commute and.left_commute)
    then have "?t AND tagsel m = 0" using t(2) by simp
    then show ?thesis
      using o True mm t(3) by (simp add: ISVISIBLE_def ISVISIBLEONTAG_def)
  next
    case False
    then show ?thesis using alone [OF b False] by (simp add: ISVISIBLE_def)
  qed
  have r: "res (\<lambda>u. settled (cfg E) ?s u \<and> selid u = None)
      (do { s \<leftarrow> focus E None ?s; arrange E (Some (selmon s)) s })"
  proof (rule res_mono [OF refocus_here [OF W' ok]])
    fix u assume S: "settled (cfg E) ?s u"
    have K: "keep ?s u" and sm: "selmon u = selmon s" and sv: "sel_visible u" and Wu: "wf (cfg E) u"
      using S by (simp_all add: settled_def)
    have "selid u = None"
    proof (rule ccontr)
      assume "selid u \<noteq> None"
      then obtain b where b: "selid u = Some b" by auto
      then have vb: "ISVISIBLE u b = Some True" using sv by (simp add: sel_visible_def)
      obtain k' where k': "mmem u (selmon s) = Some k'" "m_sel k' = Some b"
        using b sm by (cases "mmem u (selmon s)") (auto simp: selid_def selm_def)
      have "b \<in> set (m_clients k')" using wfx_lists [OF Wu k'(1)] k'(2) by (simp add: mon_lists_def)
      then obtain j where j: "clis u b = Some j" "c_mon j = selmon s" using wfx_clientD [OF Wu k'(1)] by blast
      obtain i where i: "clis ?s b = Some i" "c_mon i = selmon s"
      proof -
        have "map_option cskel (clis u b) = map_option cskel (clis ?s b)" using K by (simp add: keep_def)
        then show ?thesis using that j by (cases "clis ?s b") (auto dest: cskel_fields(1))
      qed
      have "b \<in> set (m_clients m)"
        using wfx_listedD [OF W' i(1)] i(2) mm by auto
      then show False using hid [of b] vb keep_ISVISIBLE [OF K, of b] by simp
    qed
    then show "settled (cfg E) ?s u \<and> selid u = None" using S by simp
  qed
  obtain a where a0: "focus E None ?s = Some a" using r by (cases "focus E None ?s") auto
  obtain u where a1: "arrange E (Some (selmon a)) a = Some u" "selid u = None"
    using r unfolding a0 bind.bind_lunit res_iff by blast
  have su: "(do { n \<leftarrow> selm u; c \<leftarrow> m_sel n; updateclientdesktop E c u }) = None"
    using a1(2) by (cases "selm u") (simp_all add: selid_def)
  show ?thesis
    unfolding tag_def m(1) bind.bind_lunit Let_def using t(1) v su by (simp add: m(2) u a0 a1(1))
qed

section \<open>Requests\<close>

text \<open>The commands started are killed, and waited for, in the order in which they were started.\<close>

lemma quit_log:
  "quit i s = s\<lparr>xlog := xlog s @ concat (map (\<lambda>p. [KillPid p, WaitPid p]) (filter (\<lambda>p. 0 < p) (autostart_pids s))),
     restart := restart s \<or> i \<noteq> 0, running := False\<rparr>"
proof -
  have *: "fold (\<lambda>p s. if 0 < p then emit (WaitPid p) (emit (KillPid p) s) else s) ps s
      = s\<lparr>xlog := xlog s @ concat (map (\<lambda>p. [KillPid p, WaitPid p]) (filter (\<lambda>p. 0 < p) ps))\<rparr>" for ps
    by (induction ps arbitrary: s) (simp_all add: emit_def)
  show ?thesis unfolding quit_def Let_def * by simp
qed

lemma autostart_log:
  assumes "autostart (cfg E) = flatten_commands cmds" "[] \<notin> set cmds"
  shows "\<exists>pids. length pids = length cmds \<and> autostart_exec E s =
    Some (s\<lparr>autostart_pids := autostart_pids s @ pids, xlog := xlog s @ map ForkExec cmds\<rparr>)"
  using each_fork [of cmds E s] by (simp add: autostart_exec_def assms(1) autostart_commands_flatten [OF assms(2)])

section \<open>The tags of a new client\<close>

lemma applyrules_tags:
  assumes W: "wfx (cfg E) {c} s" and t: "applyrules E c s = Some t" and k: "clis t c = Some k"
  shows "c_tags k \<noteq> 0 \<and> c_tags k AND TAGMASK (cfg E) = c_tags k"
proof -
  define f where "f = (\<lambda>u. do {
       k \<leftarrow> clis u c;
       m \<leftarrow> mmem u (c_mon k);
       let t = c_tags k AND TAGMASK (cfg E);
       modc c (\<lambda>k. k\<lparr>c_tags := (if t \<noteq> 0 then t else tagsel m)\<rparr>) u })"
  have F: "frx (cfg E) {c} s s" by (rule fr_refl [OF W])
  have cc: "clis u c \<noteq> None" if "frx (cfg E) {c} s u" for u using wfx_alloc [OF fr_wf [OF that]] by simp
  have fin: "c_tags k \<noteq> 0 \<and> c_tags k AND TAGMASK (cfg E) = c_tags k"
    if u: "frx (cfg E) {c} s u" and fu: "f u = Some t" for u
  proof -
    obtain j where j: "clis u c = Some j" using cc [OF u] by auto
    obtain m where m: "mmem u (c_mon j) = Some m" using fu j by (cases "mmem u (c_mon j)") (auto simp: f_def)
    have kt: "c_tags k = (if c_tags j AND TAGMASK (cfg E) \<noteq> 0 then c_tags j AND TAGMASK (cfg E) else tagsel m)"
      using fu j m k by (auto simp: f_def modc_def Let_def)
    show ?thesis
      using tagsel_ok [OF wfx_shape [OF fr_wf [OF u] m]] by (simp add: kt and.assoc)
  qed
  obtain u where u: "frx (cfg E) {c} s u" "f u = Some t"
  proof -
    let ?pre = "\<lambda>nm cl. do {
       s \<leftarrow> modc c (\<lambda>k. k\<lparr>c_isfloating := False, c_tags := 0\<rparr>) s;
       k \<leftarrow> clis s c;
       let (nm, cl) = (case XGetClassHint E (xlog s) (c_win k) of
                         None \<Rightarrow> (None, None) | Some p \<Rightarrow> p);
       let inst = (case nm of Some t \<Rightarrow> t | None \<Rightarrow> broken);
       let cl = (case cl of Some t \<Rightarrow> t | None \<Rightarrow> broken);
       each (\<lambda>r s. if matches (c_name k) cl inst r then apply_rule c r s else Some s)
             (rules (cfg E)) s }"
    have pre: "res (frx (cfg E) {c} s) (?pre nm cl)" for nm cl
      unfolding Let_def split_def
      by (intro fr_bind fr_client_bind fr_modc fr_each res_if apply_rule_frx F cc)
        (use cc F in \<open>auto intro: fr_still\<close>)
    have "applyrules E c s = ?pre None None \<bind> f"
      unfolding applyrules_def f_def Let_def split_def by (simp only: bind_assoc)
    moreover obtain a where a: "?pre None None = Some a" "frx (cfg E) {c} s a" by (rule resE [OF pre])
    ultimately have "f a = Some t" unfolding a(1) bind.bind_lunit using t by simp
    then show ?thesis using that a(2) by blast
  qed
  show ?thesis by (rule fin [OF u])
qed

section \<open>Clicks on the bar\<close>

text \<open>Where the tags stand on the bar.\<close>

definition tag_left :: "xenv \<Rightarrow> wm \<Rightarrow> nat \<Rightarrow> int" where
  "tag_left E s i = (\<Sum>t \<leftarrow> take i (tags (cfg E)). TEXTW E s t 0)"

lemma tag_under_found:
  assumes "tag_under E s ex x i ts = (j, y)" "x \<le> ex"
  shows "i \<le> j" "j \<le> i + length ts"
    "x + (\<Sum>t \<leftarrow> take (j - i) ts. TEXTW E s t 0) \<le> ex"
    "j < i + length ts \<Longrightarrow> ex < x + (\<Sum>t \<leftarrow> take (Suc j - i) ts. TEXTW E s t 0)"
  using assms
proof (induction ts arbitrary: x i)
  case (Cons t ts)
  {
    case 1
    then show ?case using Cons.IH(1) [of "x + TEXTW E s t 0" "i + 1"] by (auto simp: Let_def split: if_splits)
  next
    case 2
    then show ?case using Cons.IH(2) [of "x + TEXTW E s t 0" "i + 1"] by (auto simp: Let_def split: if_splits)
  next
    case 3
    show ?case
    proof (cases "ex \<ge> x + TEXTW E s t 0")
      case True
      have h: "tag_under E s ex (x + TEXTW E s t 0) (i + 1) ts = (j, y)" using 3 True by (simp add: Let_def)
      then have "i + 1 \<le> j" using Cons.IH(1) True by blast
      then have "j - i = Suc (j - (i + 1))" by simp
      then have "take (j - i) (t # ts) = t # take (j - (i + 1)) ts" by (simp only: take_Suc_Cons)
      then show ?thesis using Cons.IH(3) [OF h True] by simp
    next
      case False
      then show ?thesis using 3 by (simp add: Let_def)
    qed
  next
    case 4
    show ?case
    proof (cases "ex \<ge> x + TEXTW E s t 0")
      case True
      have h: "tag_under E s ex (x + TEXTW E s t 0) (i + 1) ts = (j, y)" using 4 True by (simp add: Let_def)
      then have "i + 1 \<le> j" using Cons.IH(1) True by blast
      then have "Suc j - i = Suc (Suc j - (i + 1))" by simp
      then have "take (Suc j - i) (t # ts) = t # take (Suc j - (i + 1)) ts" by (simp only: take_Suc_Cons)
      then show ?thesis using Cons.IH(4) [OF _ h True] 4 by simp
    next
      case False
      then show ?thesis using 4 by (auto simp: Let_def)
    qed
  }
qed auto

lemma bar_click_tag:
  assumes "bar_click E m ex s = (ClkTagBar, i)" "0 \<le> ex"
  shows "i < ntags (cfg E)" "tag_left E s i \<le> ex" "ex < tag_left E s (Suc i)"
proof -
  obtain j y where u: "tag_under E s ex 0 0 (tags (cfg E)) = (j, y)" by (cases "tag_under E s ex 0 0 (tags (cfg E))")
  have j: "j = i" "i < ntags (cfg E)" using assms(1) by (auto simp: bar_click_def u Let_def split: if_splits)
  note T = tag_under_found [OF u assms(2)]
  show "i < ntags (cfg E)" by (rule j(2))
  show "tag_left E s i \<le> ex" "ex < tag_left E s (Suc i)"
    using T(3,4) j by (simp_all add: tag_left_def ntags_def)
qed

end
