(* ===== verification/PtrLists.thy ===== *)
theory PtrLists
  imports ClientLists
begin

text \<open>
  The linked lists of clients on pointers. The struct \<open>Client\<close> has two links, \<open>next\<close> and
  \<open>snext\<close>, and the struct \<open>Monitor\<close> the two heads \<open>clients\<close> and \<open>stack\<close>. The operations
  below are those of the code, statement by statement; a loop over a list with a cycle does not
  end and a null pointer that is followed is a crash, both \<^term>\<open>None\<close>.

  The lemmas show that on lists they compute what \<open>ClientLists\<close> computes on the lists of
  addresses, and that the operations on one pair of links leave the other one alone. They are
  proved once, in the locale \<open>linked\<close>, for any pair of a head and a link.
\<close>

section \<open>Memory\<close>

record arena =
  a_next :: "cid \<Rightarrow> cid option"
  a_snext :: "cid \<Rightarrow> cid option"
  a_clients :: "cid option"
  a_stack :: "cid option"

text \<open>\<open>chain nx p xs\<close>: from the pointer \<open>p\<close> the links lead through \<open>xs\<close> to the null pointer.\<close>

primrec chain :: "(cid \<Rightarrow> cid option) \<Rightarrow> cid option \<Rightarrow> cid list \<Rightarrow> bool" where
  "chain nx p [] \<longleftrightarrow> p = None"
| "chain nx p (a # as) \<longleftrightarrow> p = Some a \<and> chain nx (nx a) as"

text \<open>The loops: the slot that holds a client (\<^term>\<open>None\<close> is the head), the last client, the one before.\<close>

partial_function (option) find_slot ::
  "(cid \<Rightarrow> cid option) \<Rightarrow> cid \<Rightarrow> cid option \<Rightarrow> cid option \<Rightarrow> cid option option" where
  [code]: "find_slot nx c tc p =
     (if p \<noteq> None \<and> p \<noteq> Some c then find_slot nx c p (nx (the p)) else Some tc)"

partial_function (option) last_node :: "(cid \<Rightarrow> cid option) \<Rightarrow> cid \<Rightarrow> cid option" where
  [code]: "last_node nx l = (if nx l \<noteq> None then last_node nx (the (nx l)) else Some l)"

partial_function (option) node_before :: "(cid \<Rightarrow> cid option) \<Rightarrow> cid \<Rightarrow> cid option \<Rightarrow> cid option" where
  [code]: "node_before nx x p =
     do { a \<leftarrow> p; if nx a \<noteq> Some x then node_before nx x (nx a) else Some a }"

section \<open>Operations\<close>

text \<open>\<open>next\<close> and \<open>clients\<close>; the last two are the insertions of \<open>attachx\<close>.\<close>

definition set_next :: "cid \<Rightarrow> cid option \<Rightarrow> arena \<Rightarrow> arena" where
  "set_next c p A = A\<lparr>a_next := (a_next A)(c := p)\<rparr>"

definition set_snext :: "cid \<Rightarrow> cid option \<Rightarrow> arena \<Rightarrow> arena" where
  "set_snext c p A = A\<lparr>a_snext := (a_snext A)(c := p)\<rparr>"

definition set_clients :: "cid option \<Rightarrow> arena \<Rightarrow> arena" where
  "set_clients p A = A\<lparr>a_clients := p\<rparr>"

definition set_stack :: "cid option \<Rightarrow> arena \<Rightarrow> arena" where
  "set_stack p A = A\<lparr>a_stack := p\<rparr>"

definition attach_ptr :: "cid \<Rightarrow> arena \<Rightarrow> arena" where
  "attach_ptr c A = (let A = set_next c (a_clients A) A in set_clients (Some c) A)"

definition detach_ptr :: "cid \<Rightarrow> arena \<Rightarrow> arena option" where
  "detach_ptr c A =
     do {
       tc \<leftarrow> find_slot (a_next A) c None (a_clients A);
       Some (case tc of None \<Rightarrow> set_clients (a_next A c) A | Some a \<Rightarrow> set_next a (a_next A c) A) }"

definition enqueue_ptr :: "cid \<Rightarrow> arena \<Rightarrow> arena option" where
  "enqueue_ptr c A =
     (case a_clients A of
        None \<Rightarrow> Some A
      | Some h \<Rightarrow> do {
          l \<leftarrow> last_node (a_next A) h;
          Some (set_next c None (set_next l (Some c) A)) })"

definition attachstack_ptr :: "cid \<Rightarrow> arena \<Rightarrow> arena" where
  "attachstack_ptr c A = (let A = set_snext c (a_stack A) A in set_stack (Some c) A)"

definition detachstack_ptr :: "cid \<Rightarrow> arena \<Rightarrow> arena option" where
  "detachstack_ptr c A =
     do {
       tc \<leftarrow> find_slot (a_snext A) c None (a_stack A);
       Some (case tc of None \<Rightarrow> set_stack (a_snext A c) A | Some a \<Rightarrow> set_snext a (a_snext A c) A) }"

definition enqueuestack_ptr :: "cid \<Rightarrow> arena \<Rightarrow> arena option" where
  "enqueuestack_ptr c A =
     (case a_stack A of
        None \<Rightarrow> Some A
      | Some h \<Rightarrow> do {
          l \<leftarrow> last_node (a_snext A) h;
          Some (set_snext c None (set_snext l (Some c) A)) })"

definition insert_after_ptr :: "cid \<Rightarrow> cid \<Rightarrow> arena \<Rightarrow> arena" where
  "insert_after_ptr a c A = set_next a (Some c) (set_next c (a_next A a) A)"

definition insert_before_ptr :: "cid \<Rightarrow> cid \<Rightarrow> arena \<Rightarrow> arena option" where
  "insert_before_ptr x c A =
     do { a \<leftarrow> node_before (a_next A) x (a_clients A); Some (insert_after_ptr a c A) }"

section \<open>Chains\<close>

lemma chain_upd [simp]: "c \<notin> set xs \<Longrightarrow> chain (nx(c := q)) p xs = chain nx p xs"
  by (induction xs arbitrary: p) auto

lemma chain_unique: "chain nx p xs \<Longrightarrow> chain nx p ys \<Longrightarrow> xs = ys"
proof (induction xs arbitrary: p ys)
  case Nil
  then show ?case by (cases ys) auto
next
  case (Cons x xs)
  then show ?case by (cases ys) auto
qed

lemma chain_append: "chain nx p (xs @ ys) \<Longrightarrow> \<exists>q. chain nx q ys"
  by (induction xs arbitrary: p) auto

text \<open>A list that ends has no cycle.\<close>

lemma chain_distinct: "chain nx p xs \<Longrightarrow> distinct xs"
proof (induction xs arbitrary: p)
  case (Cons x xs)
  have "x \<notin> set xs"
  proof
    assume "x \<in> set xs"
    then obtain us vs where xs: "xs = us @ x # vs" by (meson split_list)
    obtain q where "chain nx q (x # vs)" using chain_append [of nx "nx x" us "x # vs"] Cons.prems xs by auto
    then have "xs = vs" using chain_unique [of nx "nx x" xs vs] Cons.prems by simp
    then show False using xs by simp
  qed
  then show ?case using Cons by auto
qed simp

lemma find_slot_chain:
  assumes "chain nx p xs" "c \<in> set xs"
  shows "if hd xs = c then find_slot nx c tc p = Some tc
     else \<exists>a \<in> set xs. a \<noteq> c \<and> find_slot nx c tc p = Some (Some a) \<and> chain (nx(a := nx c)) p (remove1 c xs)"
  using assms chain_distinct [OF assms(1)]
proof (induction xs arbitrary: p tc)
  case (Cons b bs)
  show ?case
  proof (cases "b = c")
    case True
    then show ?thesis using Cons.prems by (simp add: find_slot.simps)
  next
    case False
    have c: "c \<in> set bs" and ch: "chain nx (nx b) bs" and p: "p = Some b" and d: "b \<notin> set bs" "distinct bs"
      using Cons.prems False by auto
    have s: "find_slot nx c tc p = find_slot nx c (Some b) (nx b)"
      using p False by (simp add: find_slot.simps)
    show ?thesis
    proof (cases "hd bs = c")
      case True
      then obtain ds where bs: "bs = c # ds" using c by (cases bs) auto
      have "find_slot nx c tc p = Some (Some b)"
        using Cons.IH [OF ch c d(2), of "Some b"] True s by simp
      moreover have "chain (nx(b := nx c)) p (remove1 c (b # bs))"
        using bs p False d(1) ch by simp
      ultimately show ?thesis using False by auto
    next
      case False
      then obtain a where a: "a \<in> set bs" "a \<noteq> c" "find_slot nx c (Some b) (nx b) = Some (Some a)"
        "chain (nx(a := nx c)) (nx b) (remove1 c bs)"
        using Cons.IH [OF ch c d(2), of "Some b"] by auto
      have "a \<noteq> b" using a(1) d(1) by auto
      moreover have "chain (nx(a := nx c)) p (remove1 c (b # bs))"
        using a(4) p \<open>a \<noteq> b\<close> \<open>b \<noteq> c\<close> by (simp add: fun_upd_other)
      ultimately show ?thesis using a s p \<open>b \<noteq> c\<close> by (auto simp: fun_upd_other simp del: fun_upd_apply)
    qed
  qed
qed simp

lemma last_node_chain: "chain nx (Some h) xs \<Longrightarrow> last_node nx h = Some (last xs)"
proof (induction xs arbitrary: h)
  case (Cons b bs)
  then show ?case by (cases bs) (auto simp: last_node.simps)
qed simp

lemma chain_snoc:
  assumes "chain nx p xs" "xs \<noteq> []" "c \<notin> set xs"
  shows "chain (nx(last xs := Some c, c := None)) p (xs @ [c])"
  using assms chain_distinct [OF assms(1)]
proof (induction xs arbitrary: p)
  case (Cons b bs)
  show ?case
  proof (cases "bs = []")
    case False
    have "last bs \<noteq> b" using Cons.prems(4) last_in_set [OF False] by auto
    then show ?thesis using Cons False by auto
  qed (use Cons in auto)
qed simp

lemma chain_insert_after:
  assumes "chain nx p xs" "a \<in> set xs" "c \<notin> set xs"
  shows "chain (nx(c := nx a, a := Some c)) p (insert_after a c xs)"
  using assms chain_distinct [OF assms(1)]
proof (induction xs arbitrary: p)
  case (Cons b bs)
  then show ?case by (cases "b = a") (auto simp: fun_upd_same fun_upd_other simp del: fun_upd_apply)
qed simp

lemma node_before_chain:
  assumes "chain nx p xs" "x \<in> set xs" "hd xs \<noteq> x"
  shows "\<exists>a \<in> set xs. node_before nx x p = Some a \<and> insert_before x c xs = insert_after a c xs"
  using assms chain_distinct [OF assms(1)]
proof (induction xs arbitrary: p)
  case (Cons b bs)
  then have x: "x \<in> set bs" "b \<noteq> x" and ch: "chain nx (nx b) bs" and p: "p = Some b" by auto
  show ?case
  proof (cases "hd bs = x")
    case True
    then obtain ds where "bs = x # ds" using x(1) by (cases bs) auto
    then show ?thesis using p ch x(2) by (simp add: node_before.simps)
  next
    case False
    then obtain a where "a \<in> set bs" "node_before nx x (nx b) = Some a" "insert_before x c bs = insert_after a c bs"
      using Cons.IH [OF ch x(1)] Cons.prems(4) by auto
    moreover have "nx b \<noteq> Some x" using False x(1) ch by (cases bs) auto
    moreover have "a \<noteq> b" using \<open>a \<in> set bs\<close> Cons.prems(4) by auto
    ultimately show ?thesis using p x(2) by (auto simp: node_before.simps)
  qed
qed simp

section \<open>Any pair of a head and a link\<close>

text \<open>The fields of a list: what a write changes, and what it leaves alone.\<close>

locale linked =
  fixes head :: "'a \<Rightarrow> cid option" and link :: "'a \<Rightarrow> cid \<Rightarrow> cid option"
    and set_head :: "cid option \<Rightarrow> 'a \<Rightarrow> 'a" and set_link :: "cid \<Rightarrow> cid option \<Rightarrow> 'a \<Rightarrow> 'a"
    and other :: "'a \<Rightarrow> 'b"
  assumes head_set_head [simp]: "head (set_head p A) = p"
    and link_set_head [simp]: "link (set_head p A) = link A"
    and head_set_link [simp]: "head (set_link c p A) = head A"
    and link_set_link [simp]: "link (set_link c p A) = (link A)(c := p)"
    and other_set_head [simp]: "other (set_head p A) = other A"
    and other_set_link [simp]: "other (set_link c p A) = other A"
begin

definition listing :: "'a \<Rightarrow> cid list \<Rightarrow> bool" where
  "listing A xs \<longleftrightarrow> chain (link A) (head A) xs"

end

text \<open>The operations on a list, as the code has them for each pair of fields.\<close>

locale linked_ops = linked head link set_head set_link other
  for head :: "'a \<Rightarrow> cid option" and link set_head set_link and other :: "'a \<Rightarrow> 'b" +
  fixes push :: "cid \<Rightarrow> 'a \<Rightarrow> 'a" and unlink :: "cid \<Rightarrow> 'a \<Rightarrow> 'a option"
    and append :: "cid \<Rightarrow> 'a \<Rightarrow> 'a option"
  assumes push: "push c A = set_head (Some c) (set_link c (head A) A)"
    and unlink: "unlink c A = map_option
      (\<lambda>tc. case tc of None \<Rightarrow> set_head (link A c) A | Some a \<Rightarrow> set_link a (link A c) A)
      (find_slot (link A) c None (head A))"
    and append: "append c A =
      (case head A of
         None \<Rightarrow> Some A
       | Some h \<Rightarrow> map_option (\<lambda>l. set_link c None (set_link l (Some c) A)) (last_node (link A) h))"
begin

lemma push_listing: "listing A xs \<Longrightarrow> c \<notin> set xs \<Longrightarrow> listing (push c A) (c # xs)"
  by (simp add: listing_def push)

lemma push_other: "other (push c A) = other A"
  by (simp add: push)

lemma unlink_listing:
  assumes "listing A xs" "c \<in> set xs"
  shows "res (\<lambda>B. listing B (remove1 c xs) \<and> other B = other A) (unlink c A)"
proof (cases "hd xs = c")
  case True
  then obtain ys where "xs = c # ys" using assms(2) by (cases xs) auto
  then show ?thesis
    using find_slot_chain [of "link A" "head A" xs c None] assms
    by (simp add: listing_def unlink)
next
  case False
  then show ?thesis
    using find_slot_chain [of "link A" "head A" xs c None] assms
    by (auto simp: listing_def unlink simp del: fun_upd_apply)
qed

lemma append_listing:
  assumes "listing A xs" "c \<notin> set xs"
  shows "res (\<lambda>B. listing B (if xs = [] then xs else xs @ [c]) \<and> other B = other A) (append c A)"
proof (cases xs)
  case Nil
  then show ?thesis using assms by (simp add: listing_def append)
next
  case (Cons h ys)
  then have h: "head A = Some h" using assms(1) by (simp add: listing_def)
  have "last_node (link A) h = Some (last xs)"
    using last_node_chain [of "link A" h xs] assms(1) h by (simp add: listing_def)
  moreover have "chain ((link A)(last xs := Some c, c := None)) (Some h) (xs @ [c])"
    using chain_snoc [of "link A" "head A" xs c] assms Cons h by (simp add: listing_def del: fun_upd_apply)
  ultimately show ?thesis
    using Cons h by (simp add: append listing_def del: fun_upd_apply chain.simps)
qed

end

interpretation clients: linked_ops a_clients a_next set_clients set_next "\<lambda>A. (a_stack A, a_snext A)"
  attach_ptr detach_ptr enqueue_ptr
  by unfold_locales
    (simp_all add: set_clients_def set_next_def attach_ptr_def detach_ptr_def enqueue_ptr_def Let_def
      map_conv_bind_option comp_def split: option.split)

interpretation stack: linked_ops a_stack a_snext set_stack set_snext "\<lambda>A. (a_clients A, a_next A)"
  attachstack_ptr detachstack_ptr enqueuestack_ptr
  by unfold_locales
    (simp_all add: set_stack_def set_snext_def attachstack_ptr_def detachstack_ptr_def enqueuestack_ptr_def
      Let_def map_conv_bind_option comp_def split: option.split)

section \<open>The lists of a monitor\<close>

text \<open>The memory \<open>A\<close> holds the two lists of the monitor \<open>m\<close>.\<close>

definition holds :: "arena \<Rightarrow> monitor \<Rightarrow> bool" where
  "holds A m \<longleftrightarrow> clients.listing A (m_clients m) \<and> stack.listing A (m_stack m)"

lemma holds_clients:
  "holds A m \<Longrightarrow> clients.listing B cs \<Longrightarrow> (a_stack B, a_snext B) = (a_stack A, a_snext A) \<Longrightarrow>
   m_clients k = cs \<Longrightarrow> m_stack k = m_stack m \<Longrightarrow> holds B k"
  by (simp add: holds_def stack.listing_def)

lemma holds_stack:
  "holds A m \<Longrightarrow> stack.listing B cs \<Longrightarrow> (a_clients B, a_next B) = (a_clients A, a_next A) \<Longrightarrow>
   m_stack k = cs \<Longrightarrow> m_clients k = m_clients m \<Longrightarrow> holds B k"
  by (simp add: holds_def clients.listing_def)

text \<open>
  An operation of the model on the lists of the monitor of \<open>c\<close> and the one of the code on
  pointers: both succeed, and the memory holds the lists of the monitor again.
\<close>

definition agree :: "mid \<Rightarrow> arena option \<Rightarrow> wm option \<Rightarrow> bool" where
  "agree i p q \<longleftrightarrow> (\<exists>B t m. p = Some B \<and> q = Some t \<and> mmem t i = Some m \<and> holds B m)"

lemma agree_modm:
  assumes "mmem s i = Some m" "res (\<lambda>B. holds B (f m)) p"
  shows "agree i p (modm i f s)"
  using assms by (auto simp: agree_def modm_def res_iff)

lemma attach_agrees:
  assumes "clis s c = Some k" "mmem s (c_mon k) = Some m" "holds A m" "c \<notin> set (m_clients m)"
  shows "agree (c_mon k) (Some (attach_ptr c A)) (attach c s)"
  unfolding attach_def assms(1) bind.bind_lunit
  by (rule agree_modm [OF assms(2)], unfold res_Some,
      rule holds_clients [OF assms(3) clients.push_listing [OF _ assms(4)] clients.push_other])
    (use assms(3) in \<open>simp_all add: holds_def\<close>)

lemma detach_agrees:
  assumes "clis s c = Some k" "mmem s (c_mon k) = Some m" "holds A m" "c \<in> set (m_clients m)"
  shows "agree (c_mon k) (detach_ptr c A) (detach E c s)"
  unfolding detach_def assms(1) bind.bind_lunit
  by (rule agree_modm [OF assms(2)], rule res_mono [OF clients.unlink_listing [OF _ assms(4)]])
    (use assms(3) in \<open>auto simp: holds_def stack.listing_def\<close>)

lemma enqueue_agrees:
  assumes "clis s c = Some k" "mmem s (c_mon k) = Some m" "holds A m" "c \<notin> set (m_clients m)"
  shows "agree (c_mon k) (enqueue_ptr c A) (enqueue c s)"
  unfolding enqueue_def assms(1) bind.bind_lunit
  by (rule agree_modm [OF assms(2)], rule res_mono [OF clients.append_listing [OF _ assms(4)]])
    (use assms(3) in \<open>auto simp: holds_def stack.listing_def\<close>)

lemma attachstack_agrees:
  assumes "clis s c = Some k" "mmem s (c_mon k) = Some m" "holds A m" "c \<notin> set (m_stack m)"
  shows "agree (c_mon k) (Some (attachstack_ptr c A)) (attachstack c s)"
  unfolding attachstack_def assms(1) bind.bind_lunit
  by (rule agree_modm [OF assms(2)], unfold res_Some,
      rule holds_stack [OF assms(3) stack.push_listing [OF _ assms(4)] stack.push_other])
    (use assms(3) in \<open>simp_all add: holds_def\<close>)

lemma enqueuestack_agrees:
  assumes "clis s c = Some k" "mmem s (c_mon k) = Some m" "holds A m" "c \<notin> set (m_stack m)"
  shows "agree (c_mon k) (enqueuestack_ptr c A) (enqueuestack c s)"
  unfolding enqueuestack_def assms(1) bind.bind_lunit
  by (rule agree_modm [OF assms(2)], rule res_mono [OF stack.append_listing [OF _ assms(4)]])
    (use assms(3) in \<open>auto simp: holds_def clients.listing_def\<close>)

lemma detachstack_agrees:
  assumes "clis s c = Some k" "mmem s (c_mon k) = Some m" "holds A m" "c \<in> set (m_stack m)"
    and "detachstack c s \<noteq> None"
  shows "agree (c_mon k) (detachstack_ptr c A) (detachstack c s)"
proof -
  obtain t where t: "detachstack c s = Some t" using assms(5) by auto
  obtain n where n: "mmem t (c_mon k) = Some n" "m_clients n = m_clients m" "m_stack n = remove1 c (m_stack m)"
    using t assms(1,2) unfolding detachstack_def modm_def
    by (auto split: if_splits Option.bind_splits)
  have "res (\<lambda>B. holds B n) (detachstack_ptr c A)"
    by (rule res_mono [OF stack.unlink_listing [OF _ assms(4)]])
      (use assms(3) n in \<open>auto simp: holds_def clients.listing_def\<close>)
  then show ?thesis using t n(1) by (auto simp: agree_def res_iff)
qed

text \<open>The insertions of \<open>attachx\<close>.\<close>

lemma insert_after_holds:
  assumes "holds A m" "a \<in> set (m_clients m)" "c \<notin> set (m_clients m)"
  shows "holds (insert_after_ptr a c A) (m\<lparr>m_clients := insert_after a c (m_clients m)\<rparr>)"
proof -
  have "chain ((a_next A)(c := a_next A a, a := Some c)) (a_clients A) (insert_after a c (m_clients m))"
    by (rule chain_insert_after) (use assms in \<open>simp_all add: holds_def clients.listing_def\<close>)
  then show ?thesis
    using assms(1) by (simp add: holds_def clients.listing_def stack.listing_def insert_after_ptr_def
      set_next_def del: fun_upd_apply)
qed

lemma insert_before_holds:
  assumes "holds A m" "x \<in> set (m_clients m)" "hd (m_clients m) \<noteq> x" "c \<notin> set (m_clients m)"
  shows "res (\<lambda>B. holds B (m\<lparr>m_clients := insert_before x c (m_clients m)\<rparr>)) (insert_before_ptr x c A)"
proof -
  have "chain (a_next A) (a_clients A) (m_clients m)"
    using assms(1) by (simp add: holds_def clients.listing_def)
  from node_before_chain [OF this assms(2,3), of c]
  obtain a where "a \<in> set (m_clients m)" "node_before (a_next A) x (a_clients A) = Some a"
    "insert_before x c (m_clients m) = insert_after a c (m_clients m)" by auto
  then show ?thesis
    using insert_after_holds [OF assms(1) _ assms(4)] by (simp add: insert_before_ptr_def)
qed

end
