(* ===== verification/Sample.thy ===== *)
theory Sample
  imports Behaviour PtrLists
begin

text \<open>
  A display with one screen of 1920 by 1080 pixels and the shipped configuration, and a state
  on it with two clients, for the examples.
\<close>

definition sample_env :: xenv where
  "sample_env =
     \<lparr>cfg = config_def, root = 1, font_h = 16, textw = (\<lambda>t n. 8 * int (length t)),
      netatom = (\<lambda>_. 300), wmatom = (\<lambda>_. 301), motifatom = 302,
      XQueryPointer = (\<lambda>_. Some (10, 10)), XGetClassHint = (\<lambda>_ _. None),
      XGetTransientForHint = (\<lambda>_ _. None), XGetWMProtocols = (\<lambda>_ _. None),
      XGetAtomProperty = (\<lambda>_ _ _. None), XGetStateProperty = (\<lambda>_ _. None),
      XGetTextProperty = (\<lambda>_ _ _. None), XGetMotifHints = (\<lambda>_ _. None),
      XGetWMHints = (\<lambda>_ _. None), XGetWMNormalHints = (\<lambda>_ _. None),
      XGetWindowAttributes = (\<lambda>_ _. None), XineramaScreens = (\<lambda>_. None),
      XQueryTree = (\<lambda>_. None), XKeycodeToKeysym = (\<lambda>_. ''q''),
      XGetModifierMapping = (\<lambda>_. []), numlock_keycode = 77, XGetKeyboardMapping = (\<lambda>_. None),
      XGrabPointerOk = (\<lambda>_. True), XMaskEvents = (\<lambda>_. []), XNewWindow = (\<lambda>_. 7),
      fork_pid = (\<lambda>_. 1000),
      garbage_attributes = \<lparr>wa_x = 0, wa_y = 0, wa_width = 1, wa_height = 1, wa_border_width = 0,
        wa_override_redirect = False, wa_viewable = False\<rparr>,
      garbage_point = (0, 0), fonts_loaded = True, other_wm = False, display_opens = True,
      exec_works = True, display_width = 1920, display_height = 1080\<rparr>"

definition sample_monitor :: monitor where
  "sample_monitor =
     \<lparr>m_ltsymbol = ''[]='', m_mfact = 1 / 2, m_smfact = 0, m_dmfact = 1 / 2, m_zmfact = 1 / 2,
      m_nmaster = 1, m_num = 0, m_by = 0, m_mx = 0, m_my = 0, m_mw = 1920, m_mh = 1080,
      m_wx = 0, m_wy = 16, m_ww = 1920, m_wh = 1064, m_gappx = 5, m_drawwithgaps = True,
      m_seltags = 0, m_sellt = 0, m_tagset = [1, 1], m_showbar = True, m_topbar = True,
      m_clients = [2, 3], m_sel = Some 2, m_stack = [2, 3], m_tagmarked = replicate 32 None,
      m_barwin = 7, m_lt = [Lt 0, Lt 1],
      m_pertag = \<lparr>curtag = 1, prevtag = 1, nmasters = replicate 10 1, mfacts = replicate 10 (1 / 2),
        smfacts = replicate 10 0, dmfacts = replicate 10 (1 / 2), zmfacts = replicate 10 (1 / 2),
        sellts = replicate 10 0, ltidxs = replicate 10 [Lt 0, Lt 1]\<rparr>\<rparr>"

definition sample_client :: "window \<Rightarrow> client" where
  "sample_client w =
     (zero_client 1 w)\<lparr>c_name := ''st'', c_x := 0, c_y := 16, c_w := 640, c_h := 480, c_bw := 1, c_tags := 1\<rparr>"

text \<open>A terminal, whose size is a number of characters.\<close>

definition sample_terminal :: client where
  "sample_terminal = (sample_client 20)\<lparr>c_incw := 8, c_inch := 16, c_basew := 0, c_baseh := 2\<rparr>"

definition sample_state :: wm where
  "sample_state =
     \<lparr>clis = [2 \<mapsto> sample_client 20, 3 \<mapsto> sample_client 30], mmem = [1 \<mapsto> sample_monitor],
      mons = [1], selmon = 1, prevclient = None, stext = ''dwm-6.2'', sw = 1920, sh = 1080, bh = 16,
      lrpad = 16, numlockmask = 0, restart = False, running = True, lastfocusedwin = XNone,
      wmcheckwin = 8, autostart_pids = [], nextaddr = 4, xlog = []\<rparr>"

lemma config_def_fields [simp]:
  "mincellh config_def = 120" "mincellw config_def = 200" "maxgappx config_def = 50" "gappx config_def = 5"
  "viewontag config_def" "vertpadbar config_def = 0" "refreshrate config_def = 120" "attachmode config_def = 0"
  "autostart config_def = [Some ''dwmstatus'', None, None]" "nmaxmaster config_def = 4" "nminmaster config_def = 0"
  "lockfullscreen config_def" "snap config_def = 32" "showstatus config_def = 2" "barpad config_def = 8"
  by (simp_all add: config_def_def)

lemma sample_env_ok: "env_ok sample_env"
  by (simp add: env_ok_def sample_env_def config_def_ok titles_ok_def classes_ok_def)

lemma sample_cfg [simp]: "cfg sample_env = config_def"
  by (simp add: sample_env_def)

lemma sample_display_ok: "display_ok sample_env"
  by (simp add: display_ok_def screens_ok_def screen_ok_def sample_env_def)

lemma TAGMASK_config_def: "TAGMASK config_def = 511"
  by (simp add: TAGMASK_def tagmask_def)

lemma deref_config_def:
  "deref_layout config_def (Lt 0) = Some \<lparr>symbol = Some ''[]='', arrange_fn = Some Tile\<rparr>"
  "deref_layout config_def (Lt (Suc 0)) = Some \<lparr>symbol = Some ''><>'', arrange_fn = None\<rparr>"
  by (simp_all add: deref_layout_def config_def_def layouts_def_table_def)

lemma sample_shape: "mon_shape config_def 16 True sample_monitor"
  by (simp add: mon_shape_def sample_monitor_def TAGMASK_config_def deref_config_def lts_proper_def
      screen_ok_def)

lemma sample_lists: "mon_lists config_def sample_monitor"
proof -
  have "m_tagmarked sample_monitor ! i = None" if "i < 9" for i
    using that by (simp add: sample_monitor_def)
  then show ?thesis by (auto simp: mon_lists_def) (simp_all add: sample_monitor_def)
qed

lemma sample_monitor_fields [simp]:
  "m_clients sample_monitor = [2, 3]" "m_stack sample_monitor = [2, 3]" "m_sel sample_monitor = Some 2"
  by (simp_all add: sample_monitor_def)

lemma sample_client_fields [simp]:
  "c_mon (sample_client w) = 1" "c_name (sample_client w) = ''st''"
  by (simp_all add: sample_client_def zero_client_def)

lemma sample_title: "title_ok ''st''"
proof -
  have "\<not> is_cont (cbyte ''st'' (i + 3))" for i by (simp add: cbyte_def)
  then show ?thesis by (simp add: title_ok_def)
qed

lemma sample_wf: "wf config_def sample_state"
  using sample_shape sample_lists sample_title
  by (auto simp: wfx_def sample_state_def screen_ok_def split: if_splits)

text \<open>The same display without the option \<open>viewontag\<close>, and with the second client out of view.\<close>

definition hiding_env :: xenv where
  "hiding_env = sample_env\<lparr>cfg := config_def\<lparr>viewontag := False\<rparr>\<rparr>"

definition sample_state2 :: wm where
  "sample_state2 = sample_state\<lparr>clis := (clis sample_state)(3 \<mapsto> (sample_client 30)\<lparr>c_tags := 2\<rparr>)\<rparr>"

lemma viewontag_simps [simp]:
  "ntags (cf\<lparr>viewontag := b\<rparr>) = ntags cf"
  "TAGMASK (cf\<lparr>viewontag := b\<rparr>) = TAGMASK cf"
  "deref_layout (cf\<lparr>viewontag := b\<rparr>) = deref_layout cf"
  "screen_ok (cf\<lparr>viewontag := b\<rparr>) = screen_ok cf"
  by (simp_all add: TAGMASK_def ntags_def deref_layout_def screen_ok_def fun_eq_iff split: lptr.split)

lemma shape_viewontag: "mon_shape (cf\<lparr>viewontag := b\<rparr>) = mon_shape cf" "mon_lists (cf\<lparr>viewontag := b\<rparr>) = mon_lists cf"
  by (simp_all add: mon_shape_def mon_lists_def fun_eq_iff)

lemma wf_viewontag: "wfx (cf\<lparr>viewontag := b\<rparr>) X s = wfx cf X s"
  by (simp add: wfx_def shape_viewontag)

lemma config_ok_viewontag [simp]: "config_ok (cf\<lparr>viewontag := b\<rparr>) = config_ok cf"
  by (simp add: config_ok_def)

lemma hiding_cfg [simp]: "cfg hiding_env = config_def\<lparr>viewontag := False\<rparr>"
  by (simp add: hiding_env_def)

lemma sample_wf2: "wf (config_def\<lparr>viewontag := False\<rparr>) sample_state2"
  unfolding wf_viewontag using sample_shape sample_lists sample_title
  by (auto simp: wfx_def sample_state2_def sample_state_def screen_ok_def split: if_splits)

text \<open>The same state with one client only, and a display that tells its atoms apart.\<close>

definition sample_state1 :: wm where
  "sample_state1 = sample_state\<lparr>clis := [2 \<mapsto> sample_client 20],
     mmem := [1 \<mapsto> sample_monitor\<lparr>m_clients := [2], m_stack := [2]\<rparr>]\<rparr>"

lemma sample_lists1: "mon_lists config_def (sample_monitor\<lparr>m_clients := [2], m_stack := [2]\<rparr>)"
proof -
  have "m_tagmarked sample_monitor ! i = None" if "i < 9" for i
    using that by (simp add: sample_monitor_def)
  then show ?thesis by (auto simp: mon_lists_def)
qed

lemma sample_shape1: "mon_shape config_def 16 True (sample_monitor\<lparr>m_clients := [2], m_stack := [2]\<rparr>)"
  using sample_shape by (simp add: mon_shape_def lts_proper_def)

lemma sample_wf1: "wf config_def sample_state1"
  using sample_shape1 sample_lists1 sample_title
  by (auto simp: wfx_def sample_state1_def sample_state_def screen_ok_def split: if_splits)

definition atoms_env :: xenv where
  "atoms_env = sample_env\<lparr>netatom := (\<lambda>a. case a of NetWMDesktop \<Rightarrow> 400 | _ \<Rightarrow> 300)\<rparr>"

lemma atoms_cfg [simp]: "cfg atoms_env = config_def"
  by (simp add: atoms_env_def)

text \<open>A display on which every drag ends at once.\<close>

definition dragging_env :: xenv where
  "dragging_env = sample_env\<lparr>XMaskEvents := (\<lambda>_. [MotionNotify 5 5 5 5 900, ButtonRelease 6 6 6 6])\<rparr>"

lemma dragging_cfg [simp]: "cfg dragging_env = config_def"
  by (simp add: dragging_env_def)

lemma dragging_env_ok: "env_ok dragging_env"
  by (simp add: env_ok_def dragging_env_def sample_env_def config_def_ok titles_ok_def classes_ok_def)

lemma dragging_env_ends: "drag_ends dragging_env"
  by (simp add: drag_ends_def dragging_env_def is_release_def)

text \<open>The client lists of \<open>sample_monitor\<close> in memory.\<close>

definition sample_arena :: arena where
  "sample_arena = \<lparr>a_next = [2 \<mapsto> 3], a_snext = [2 \<mapsto> 3], a_clients = Some 2, a_stack = Some 2\<rparr>"

lemma sample_holds: "holds sample_arena sample_monitor"
  by (simp add: holds_def clients.listing_def stack.listing_def sample_arena_def)

end
