(* ===== verification/Drw.thy ===== *)
theory Drw
  imports Text
begin

text \<open>
  The drawing of \<open>drw.c\<close>. Xft, fontconfig and Xlib are the record \<open>xft\<close>: which glyphs a font has,
  how wide a text is in it, and which font is found for a name or a missing glyph. The record
  \<open>drw\<close> holds the struct \<open>Drw\<close> and the static variables of \<open>drw_text\<close>; the fonts are the list of
  the structs \<open>Fnt\<close>, to which \<open>drw_text\<close> appends, so that a pointer to a font is its place in the
  list. Requests are appended to \<open>d_log\<close>.

  \<open>drw_text\<close> calls itself for the mark of an invalid byte and for the dots of a text that is cut.
  The two, its beginning and its loop, are the two cases of \<open>text_run\<close>; \<^term>\<open>None\<close> is that it does not
  return, because of a crash, of \<open>die\<close>, or of a loop or recursion without end.
\<close>

section \<open>Fonts, colours and requests\<close>

record fnt =
  f_xfont :: nat
  f_pattern :: "string option"
  f_ascent :: int
  f_descent :: int

definition f_h :: "fnt \<Rightarrow> int" where
  "f_h f = u32 (f_ascent f + f_descent f)"

record xft =
  XftFontOpenName :: "string \<Rightarrow> (nat \<times> int \<times> int) option"
  FcNameParse :: "string \<Rightarrow> string option"
  XftFontOpenPattern :: "string \<Rightarrow> (nat \<times> int \<times> int) option"
  XftFontMatch :: "string \<Rightarrow> nat \<Rightarrow> string option"
  XftCharExists :: "nat \<Rightarrow> nat \<Rightarrow> bool"
  XftTextExtents :: "nat \<Rightarrow> string \<Rightarrow> int"
  XftColorAllocName :: "string \<Rightarrow> 32 word option"

datatype (plugins only: code size) dreq =
    DCreatePixmap int int | DFreePixmap | DCreateGC | DSetLineAttributes | DFreeGC
  | DCloseFont nat | DFreeColor "32 word"
  | DSetForeground "32 word"
  | DFillRectangle int int int int
  | DDrawRectangle int int int int
  | DDrawString "32 word" nat int int string
  | DCopyArea nat int int int int | DSync

record drw =
  d_w :: int
  d_h :: int
  d_scheme :: "32 word list option"
  d_fonts :: "fnt list"
  nomatches :: "nat list"
  ellipsis_width :: int
  invalid_width :: int
  d_log :: "dreq list"

definition draw :: "dreq list \<Rightarrow> drw \<Rightarrow> drw" where
  "draw rs d = d\<lparr>d_log := d_log d @ rs\<rparr>"

text \<open>\<open>enum { ColFg, ColBg, ColBorder }\<close>\<close>

definition colour :: "bool \<Rightarrow> drw \<Rightarrow> 32 word" where
  "colour bg d = (case d_scheme d of None \<Rightarrow> 0 | Some cs \<Rightarrow> cs ! (if bg then 1 else 0))"

definition drw_create :: "int \<Rightarrow> int \<Rightarrow> drw" where
  "drw_create w h =
     \<lparr>d_w = w, d_h = h, d_scheme = None, d_fonts = [], nomatches = replicate 128 0, ellipsis_width = 0,
      invalid_width = 0, d_log = [DCreatePixmap w h, DCreateGC, DSetLineAttributes]\<rparr>"

definition drw_resize :: "int \<Rightarrow> int \<Rightarrow> drw \<Rightarrow> drw" where
  "drw_resize w h d = draw [DFreePixmap, DCreatePixmap w h] (d\<lparr>d_w := w, d_h := h\<rparr>)"

definition font_of :: "string option \<Rightarrow> nat \<times> int \<times> int \<Rightarrow> fnt" where
  "font_of p f = (case f of (i, a, e) \<Rightarrow> \<lparr>f_xfont = i, f_pattern = p, f_ascent = a, f_descent = e\<rparr>)"

text \<open>\<open>xfont_create\<close> with a name, and with a pattern.\<close>

definition xfont_by_name :: "xft \<Rightarrow> string \<Rightarrow> fnt option" where
  "xfont_by_name X name =
     do {
       f \<leftarrow> XftFontOpenName X name;
       p \<leftarrow> FcNameParse X name;
       Some (font_of (Some p) f) }"

definition xfont_by_pattern :: "xft \<Rightarrow> string \<Rightarrow> fnt option" where
  "xfont_by_pattern X p = map_option (font_of None) (XftFontOpenPattern X p)"

text \<open>From the last name to the first, each in front of those before it.\<close>

definition drw_fontset_create :: "xft \<Rightarrow> string list \<Rightarrow> drw \<Rightarrow> drw" where
  "drw_fontset_create X names d =
     d\<lparr>d_fonts := fold (\<lambda>name fs. case xfont_by_name X name of None \<Rightarrow> fs | Some f \<Rightarrow> f # fs) (rev names) []\<rparr>"

text \<open>\<open>die\<close> is \<^term>\<open>None\<close>.\<close>

definition drw_clr_create :: "xft \<Rightarrow> string \<Rightarrow> 32 word \<Rightarrow> 32 word option" where
  "drw_clr_create X name alpha =
     map_option (\<lambda>px. (px AND 0x00FFFFFF) OR push_bit 24 alpha) (XftColorAllocName X name)"

fun clr_list :: "xft \<Rightarrow> (string \<times> 32 word) list \<Rightarrow> 32 word list option" where
  "clr_list X [] = Some []"
| "clr_list X ((name, alpha) # cs) =
     do { c \<leftarrow> drw_clr_create X name alpha; cs \<leftarrow> clr_list X cs; Some (c # cs) }"

text \<open>A null scheme is the inner \<^term>\<open>None\<close>.\<close>

definition drw_scm_create :: "xft \<Rightarrow> string list \<Rightarrow> 32 word list \<Rightarrow> nat \<Rightarrow> 32 word list option option" where
  "drw_scm_create X names alphas n =
     (if n < 2 then Some None else map_option Some (clr_list X (take n (zip names alphas))))"

definition drw_scm_free :: "32 word list \<Rightarrow> drw \<Rightarrow> drw" where
  "drw_scm_free scm d = draw (map DFreeColor scm) d"

text \<open>The fonts behind a font are freed before it.\<close>

definition drw_fontset_free :: "fnt list \<Rightarrow> drw \<Rightarrow> drw" where
  "drw_fontset_free fs d = draw (map (\<lambda>f. DCloseFont (f_xfont f)) (rev fs)) d"

definition drw_free :: "drw \<Rightarrow> drw" where
  "drw_free d = drw_fontset_free (d_fonts d) (draw [DFreePixmap, DFreeGC] d)"

definition drw_setfontset :: "fnt list \<Rightarrow> drw \<Rightarrow> drw" where
  "drw_setfontset fs d = d\<lparr>d_fonts := fs\<rparr>"

definition drw_setscheme :: "32 word list option \<Rightarrow> drw \<Rightarrow> drw" where
  "drw_setscheme scm d = d\<lparr>d_scheme := scm\<rparr>"

definition drw_rect :: "int \<Rightarrow> int \<Rightarrow> int \<Rightarrow> int \<Rightarrow> bool \<Rightarrow> bool \<Rightarrow> drw \<Rightarrow> drw" where
  "drw_rect x y w h filled invert d =
     (if d_scheme d = None then d
      else draw [DSetForeground (colour invert d),
                 if filled then DFillRectangle x y w h else DDrawRectangle x y (u32 (w - 1)) (u32 (h - 1))] d)"

definition drw_map :: "nat \<Rightarrow> int \<Rightarrow> int \<Rightarrow> int \<Rightarrow> int \<Rightarrow> drw \<Rightarrow> drw" where
  "drw_map win x y w h d = draw [DCopyArea win x y w h, DSync] d"

definition drw_font_getexts :: "xft \<Rightarrow> fnt \<Rightarrow> string \<Rightarrow> nat \<Rightarrow> int" where
  "drw_font_getexts X f t n = u32 (XftTextExtents X (f_xfont f) (take n t))"

section \<open>Text\<close>

text \<open>The arguments of \<open>drw_text\<close>, and whether it draws or only measures.\<close>

record targs =
  a_x :: int
  a_y :: int
  a_w :: int
  a_h :: int
  a_lpad :: int
  a_text :: string
  a_invert :: int
  a_font :: nat

definition render :: "targs \<Rightarrow> bool" where
  "render a \<longleftrightarrow> a_x a \<noteq> 0 \<or> a_y a \<noteq> 0 \<or> a_w a \<noteq> 0 \<or> a_h a \<noteq> 0"

text \<open>The variables of the loop over the characters that are drawn at once.\<close>

record tscan =
  s_x :: int
  s_text :: string
  s_ew :: int
  s_len :: nat
  s_ellipsis_x :: int
  s_ellipsis_w :: int
  s_ellipsis_len :: nat
  s_cp :: nat
  s_err :: bool
  s_exists :: bool
  s_overflow :: bool
  s_next :: "nat option"

text \<open>The first font that has the character, or the first font at all when \<open>charexists\<close> is set.\<close>

definition find_font :: "xft \<Rightarrow> drw \<Rightarrow> nat \<Rightarrow> bool \<Rightarrow> nat \<Rightarrow> nat option" where
  "find_font X d i ex cp =
     find (\<lambda>j. ex \<or> XftCharExists X (f_xfont (d_fonts d ! j)) cp) [i..<length (d_fonts d)]"

text \<open>The body of the loop over the fonts, for the font found.\<close>

definition scan_char :: "xft \<Rightarrow> drw \<Rightarrow> bool \<Rightarrow> nat \<Rightarrow> int \<Rightarrow> nat \<Rightarrow> nat \<Rightarrow> tscan \<Rightarrow> tscan" where
  "scan_char X d rend used w n j s =
     (let tmpw = drw_font_getexts X (d_fonts d ! j) (s_text s) n;
          s = s\<lparr>s_exists := True\<rparr>;
          s = (if u32 (s_ew s + ellipsis_width d) \<le> w
               then s\<lparr>s_ellipsis_x := s32 (s_x s + s_ew s), s_ellipsis_w := u32 (w - s_ew s),
                      s_ellipsis_len := s_len s\<rparr>
               else s)
      in if u32 (s_ew s + tmpw) > w then
           (if rend then s\<lparr>s_overflow := True, s_len := s_ellipsis_len s\<rparr>
            else s\<lparr>s_overflow := True, s_x := s32 (s_x s + tmpw)\<rparr>)
         else if j = used then
           s\<lparr>s_text := drop n (s_text s), s_len := s_len s + (if s_err s then 0 else n),
             s_ew := u32 (s_ew s + (if s_err s then 0 else tmpw))\<rparr>
         else s\<lparr>s_next := Some j\<rparr>)"

definition stopped :: "tscan \<Rightarrow> bool" where
  "stopped s \<longleftrightarrow> s_overflow s \<or> \<not> s_exists s \<or> s_next s \<noteq> None \<or> s_err s"

definition scan_step :: "xft \<Rightarrow> drw \<Rightarrow> bool \<Rightarrow> nat \<Rightarrow> nat \<Rightarrow> int \<Rightarrow> tscan \<Rightarrow> tscan" where
  "scan_step X d rend i used w s =
     (let (n, cp, err) = utf8decode (s_text s);
          s = s\<lparr>s_cp := cp, s_err := err\<rparr>
      in case find_font X d i (s_exists s) cp of
           None \<Rightarrow> s
         | Some j \<Rightarrow> scan_char X d rend used w n j s)"

lemma decode_rest_Inl: "decode_rest t is cp = Inl i \<Longrightarrow> i \<in> set is"
proof (induction t "is" cp rule: decode_rest.induct)
  case (2 t j js cp)
  then show ?case
    by (cases "cbyte t j = 0 \<or> cbyte t j AND 0xC0 \<noteq> 0x80") (auto simp: decode_rest.simps)
qed (simp add: decode_rest.simps)

lemma utf8decode_pos: "utf8decode t = (n, cp, err) \<Longrightarrow> 0 < n"
proof (cases "lens ! drop_bit 3 (cbyte t 0) = 0")
  case False
  assume u: "utf8decode t = (n, cp, err)"
  show ?thesis
  proof (cases "decode_rest t [1..<lens ! drop_bit 3 (cbyte t 0)]
      (cbyte t 0 AND leading_mask ! (lens ! drop_bit 3 (cbyte t 0) - 1))")
    case (Inl i)
    then have "i \<in> set [1..<lens ! drop_bit 3 (cbyte t 0)]" by (rule decode_rest_Inl)
    then show ?thesis using u False Inl by (simp add: utf8decode_def)
  qed (use u False in \<open>auto simp: utf8decode_def Let_def split: if_splits\<close>)
qed (simp add: utf8decode_def)

lemma scan_char_simps [simp]:
  "s_exists (scan_char X d rend used w n j s) = True" "s_err (scan_char X d rend used w n j s) = s_err s"
  "s_cp (scan_char X d rend used w n j s) = s_cp s"
  by (simp_all add: scan_char_def Let_def)

lemma scan_step_less:
  assumes "s_text s \<noteq> []" "\<not> stopped (scan_step X d rend i used w s)"
  shows "length (s_text (scan_step X d rend i used w s)) < length (s_text s)
    \<or> s_text (scan_step X d rend i used w s) = s_text s \<and> s_exists s"
proof -
  obtain n cp err where u: "utf8decode (s_text s) = (n, cp, err)" by (metis prod_cases3)
  note n = utf8decode_pos [OF u]
  show ?thesis
  proof (cases "find_font X d i (s_exists s) cp")
    case None
    then show ?thesis using assms(2) by (simp add: scan_step_def u stopped_def)
  next
    case (Some j)
    then show ?thesis using assms n
      by (simp add: scan_step_def u stopped_def scan_char_def Let_def split: if_splits)
  qed
qed

text \<open>It ends: each step takes a character, or the flag \<open>charexists\<close> is taken back.\<close>

function scan_run :: "xft \<Rightarrow> drw \<Rightarrow> bool \<Rightarrow> nat \<Rightarrow> nat \<Rightarrow> int \<Rightarrow> tscan \<Rightarrow> tscan" where
  "scan_run X d rend i used w s =
     (if s_text s = [] then s
      else let s' = scan_step X d rend i used w s
           in if stopped s' then s' else scan_run X d rend i used w (s'\<lparr>s_exists := False\<rparr>))"
  by pat_completeness auto
termination
proof (relation "measure (\<lambda>(X, d, rend, i, used, w, s). 2 * length (s_text s) + (if s_exists s then 1 else 0))")
qed (use scan_step_less in \<open>fastforce simp: Let_def\<close>)+

declare scan_run.simps [simp del]

text \<open>A font for a character that no font has, with the cache of characters without one.\<close>

definition hash0 :: "nat \<Rightarrow> 32 word" where
  "hash0 cp =
     (let h = word_of_nat cp :: 32 word;
          h = (drop_bit 16 h XOR h) * 0x21F0AAAD
      in (drop_bit 15 h XOR h) * 0xD35A2D97)"

definition no_match :: "nat \<Rightarrow> nat list \<Rightarrow> bool" where
  "no_match cp ns =
     (let h = hash0 cp
      in ns ! (unat (drop_bit 15 h XOR h) mod 128) = cp \<or> ns ! (unat (drop_bit 17 h) mod 128) = cp)"

definition add_no_match :: "nat \<Rightarrow> nat list \<Rightarrow> nat list" where
  "add_no_match cp ns =
     (let h = hash0 cp; h0 = unat (drop_bit 15 h XOR h) mod 128; h1 = unat (drop_bit 17 h) mod 128
      in ns[(if ns ! h0 \<noteq> 0 then h1 else h0) := cp])"

text \<open>The font that is used next, and the fonts and the cache after the search.\<close>

definition fallback :: "xft \<Rightarrow> nat \<Rightarrow> nat \<Rightarrow> drw \<Rightarrow> (nat \<times> drw) option" where
  "fallback X cp used d =
     (if no_match cp (nomatches d) then Some (0, d)
      else do {
        p \<leftarrow> f_pattern (hd (d_fonts d));
        Some (case XftFontMatch X p cp of
            None \<Rightarrow> (used, d)
          | Some m \<Rightarrow>
              (case xfont_by_pattern X m of
                 None \<Rightarrow> (0, d\<lparr>nomatches := add_no_match cp (nomatches d)\<rparr>)
               | Some f \<Rightarrow>
                   if XftCharExists X (f_xfont f) cp
                   then (length (d_fonts d), d\<lparr>d_fonts := d_fonts d @ [f]\<rparr>)
                   else (0, d\<lparr>nomatches := add_no_match cp (nomatches d)\<rparr>))) })"

text \<open>The variables of the outer loop of \<open>drw_text\<close>.\<close>

record pen =
  p_x :: int
  p_w :: int
  p_text :: string
  p_exists :: bool
  p_used :: nat
  p_ellipsis_x :: int
  p_ellipsis_w :: int

definition invalid_mark :: string where
  "invalid_mark = [CHR 0xEF, CHR 0xBF, CHR 0xBD]"

definition scan_start :: "pen \<Rightarrow> tscan" where
  "scan_start p =
     \<lparr>s_x = p_x p, s_text = p_text p, s_ew = 0, s_len = 0, s_ellipsis_x = p_ellipsis_x p,
      s_ellipsis_w = p_ellipsis_w p, s_ellipsis_len = 0, s_cp = 0, s_err = False,
      s_exists = p_exists p, s_overflow = False, s_next = None\<rparr>"

text \<open>\<open>XftDrawStringUtf8\<close> for the characters found, and their width.\<close>

definition draw_run :: "targs \<Rightarrow> nat \<Rightarrow> string \<Rightarrow> tscan \<Rightarrow> drw \<Rightarrow> drw" where
  "draw_run a used text s d =
     (if 0 < s_len s \<and> render a then
        (let f = d_fonts d ! used
         in draw [DDrawString (colour (a_invert a \<noteq> 0) d) (f_xfont f) (s_x s)
                    (s32 (a_y a + u32 (a_h a - f_h f) div 2 + f_ascent f)) (take (s_len s) text)] d)
      else d)"

datatype (plugins only: code size) goal = Call targs | Loop targs pen

text \<open>What a call for the mark and the dots passes on.\<close>

definition sub_call :: "targs \<Rightarrow> int \<Rightarrow> int \<Rightarrow> string \<Rightarrow> targs" where
  "sub_call a x w t = a\<lparr>a_x := x, a_w := w, a_lpad := 0, a_text := t\<rparr>"

definition measure_call :: "string \<Rightarrow> int \<Rightarrow> nat \<Rightarrow> targs" where
  "measure_call t n i =
     \<lparr>a_x = 0, a_y = 0, a_w = 0, a_h = 0, a_lpad = 0, a_text = t, a_invert = n, a_font = i\<rparr>"

partial_function (option) text_run :: "xft \<Rightarrow> goal \<Rightarrow> drw \<Rightarrow> (int \<times> drw) option" where
  "text_run X g d =
     (case g of
        Call a \<Rightarrow>
          if (render a \<and> (d_scheme d = None \<or> a_w a = 0)) \<or> d_fonts d = [] then Some (0, d)
          else do {
            let d = (if render a
                     then draw [DSetForeground (colour (a_invert a = 0) d),
                                DFillRectangle (a_x a) (a_y a) (a_w a) (a_h a)] d
                     else d);
            if render a \<and> a_w a < a_lpad a then Some (s32 (a_x a + a_w a), d)
            else do {
              d \<leftarrow> (if invalid_width d = 0 \<and> render a
                   then do {
                     (n, d) \<leftarrow> text_run X (Call (measure_call invalid_mark 0 0)) d;
                     Some (d\<lparr>invalid_width := u32 n\<rparr>) }
                   else Some d);
              text_run X (Loop a
                \<lparr>p_x = (if render a then s32 (a_x a + a_lpad a) else a_x a),
                 p_w = (if render a then a_w a - a_lpad a
                        else if a_invert a \<noteq> 0 then u32 (a_invert a) else u32 (- 1)),
                 p_text = a_text a, p_exists = False, p_used = 0, p_ellipsis_x = 0, p_ellipsis_w = 0\<rparr>) d } }
      | Loop a p \<Rightarrow>
          if p_text p \<noteq> [] \<and> length (d_fonts d) < a_font a then None
          else do {
            let s = scan_run X d (render a) (a_font a) (p_used p) (p_w p) (scan_start p);
            let d = draw_run a (p_used p) (p_text p) s d;
            let x = (if 0 < s_len s then s32 (s_x s + s_ew s) else s_x s);
            let w = (if 0 < s_len s then u32 (p_w p - s_ew s) else p_w p);
            let bad = (s_err s \<and> (\<not> render a \<or> invalid_width d < w));
            d \<leftarrow> (if bad \<and> render a
                 then do { (_, d) \<leftarrow> text_run X (Call (sub_call a x w invalid_mark)) d; Some d }
                 else Some d);
            let x = (if bad then s32 (x + invalid_width d) else x);
            let w = (if bad then u32 (w - invalid_width d) else w);
            d \<leftarrow> (if render a \<and> s_overflow s
                 then do {
                   (_, d) \<leftarrow> text_run X (Call (sub_call a (s_ellipsis_x s) (s_ellipsis_w s) ''...'')) d;
                   Some d }
                 else Some d);
            if s_text s = [] \<or> s_overflow s then Some (s32 (x + (if render a then w else 0)), d)
            else case s_next s of
                Some j \<Rightarrow>
                  text_run X (Loop a
                    \<lparr>p_x = x, p_w = w, p_text = s_text s, p_exists = False, p_used = j,
                     p_ellipsis_x = s_ellipsis_x s, p_ellipsis_w = s_ellipsis_w s\<rparr>) d
              | None \<Rightarrow> do {
                  (u, d) \<leftarrow> fallback X (s_cp s) (p_used p) d;
                  text_run X (Loop a
                    \<lparr>p_x = x, p_w = w, p_text = s_text s, p_exists = True, p_used = u,
                     p_ellipsis_x = s_ellipsis_x s, p_ellipsis_w = s_ellipsis_w s\<rparr>) d } })"

definition drw_text ::
  "xft \<Rightarrow> int \<Rightarrow> int \<Rightarrow> int \<Rightarrow> int \<Rightarrow> int \<Rightarrow> string \<Rightarrow> int \<Rightarrow> nat \<Rightarrow> drw \<Rightarrow> (int \<times> drw) option" where
  "drw_text X x y w h lpad t invert i d =
     text_run X (Call \<lparr>a_x = x, a_y = y, a_w = w, a_h = h, a_lpad = lpad, a_text = t,
       a_invert = invert, a_font = i\<rparr>) d"

definition drw_fontset_getwidth :: "xft \<Rightarrow> string \<Rightarrow> nat \<Rightarrow> drw \<Rightarrow> (int \<times> drw) option" where
  "drw_fontset_getwidth X t i d =
     (if d_fonts d = [] then Some (0, d)
      else do { (x, d) \<leftarrow> drw_text X 0 0 0 0 0 t 0 i d; Some (u32 x, d) })"

definition drw_fontset_getwidth_clamp :: "xft \<Rightarrow> string \<Rightarrow> int \<Rightarrow> nat \<Rightarrow> drw \<Rightarrow> (int \<times> drw) option" where
  "drw_fontset_getwidth_clamp X t n i d =
     do {
       (tmp, d) \<leftarrow> (if d_fonts d \<noteq> [] \<and> n \<noteq> 0
                   then do { (x, d) \<leftarrow> drw_text X 0 0 0 0 0 t (s32 n) i d; Some (u32 x, d) }
                   else Some (0, d));
       Some (min n tmp, d) }"

section \<open>Measuring always ends\<close>

lemma find_font_less: "find_font X d i ex cp = Some j \<Longrightarrow> i \<le> j \<and> j < length (d_fonts d)"
  by (auto simp: find_font_def find_Some_iff)

lemma find_font_first: "d_fonts d \<noteq> [] \<Longrightarrow> find_font X d 0 True cp = Some 0"
  by (cases "d_fonts d") (simp_all add: find_font_def upt_conv_Cons del: upt_Suc)

lemma find_font_grown:
  assumes "find_font X d 0 False cp = None" "XftCharExists X (f_xfont f) cp"
  shows "find_font X (d\<lparr>d_fonts := d_fonts d @ [f]\<rparr>) 0 False cp = Some (length (d_fonts d))"
  using assms unfolding find_font_def find_Some_iff find_None_iff
  by (intro exI [of _ "length (d_fonts d)"]) (auto simp: nth_append nth_upt simp del: upt_Suc)

lemma find_font_same: "d_fonts d' = d_fonts d \<Longrightarrow> find_font X d' i ex cp = find_font X d i ex cp"
  by (simp add: find_font_def)

lemma scan_step_unstopped: "\<not> stopped (scan_step X d rend i used w s) \<Longrightarrow> s_exists (scan_step X d rend i used w s)
    \<and> s_next (scan_step X d rend i used w s) = None \<and> \<not> s_overflow (scan_step X d rend i used w s)"
  by (simp add: stopped_def)

lemma scan_step_drop: "\<exists>k. s_text (scan_step X d rend i used w s) = drop k (s_text s)"
  by (auto simp: scan_step_def scan_char_def Let_def split: prod.splits option.splits
      intro: exI [of _ "0 :: nat"])

lemma scan_run_drop: "\<exists>k. s_text (scan_run X d rend i used w s) = drop k (s_text s)"
proof (induction X d rend i used w s rule: scan_run.induct)
  case (1 X d rend i used w s)
  obtain k where k: "s_text (scan_step X d rend i used w s) = drop k (s_text s)"
    using scan_step_drop by blast
  show ?case
  proof (cases "s_text s = [] \<or> stopped (scan_step X d rend i used w s)")
    case True
    then show ?thesis using k by (subst scan_run.simps) (auto simp: Let_def intro: exI [of _ "0 :: nat"])
  next
    case False
    with 1 obtain j where "s_text (scan_run X d rend i used w
        (scan_step X d rend i used w s\<lparr>s_exists := False\<rparr>)) = drop j (drop k (s_text s))"
      by (auto simp: k)
    then show ?thesis using False by (subst scan_run.simps) (auto simp: Let_def)
  qed
qed

lemma scan_run_length: "length (s_text (scan_run X d rend i used w s)) \<le> length (s_text s)"
  using scan_run_drop [of X d rend i used w s] by auto

text \<open>A scan that takes no character and does not overflow has found another font, or none.\<close>

lemma scan_run_stuck:
  assumes "s_text s \<noteq> []" "s_next s = None" "\<not> s_overflow s" "utf8decode (s_text s) = (n, cp, err)"
    "r = scan_run X d rend i used w s" "length (s_text r) = length (s_text s)" "\<not> s_overflow r"
  shows "find_font X d i (s_exists s) cp = Some j \<Longrightarrow> j \<noteq> used \<and> s_next r = Some j"
    "find_font X d i (s_exists s) cp = None \<Longrightarrow> \<not> s_exists s \<Longrightarrow> s_next r = None \<and> s_cp r = cp"
proof -
  let ?s = "scan_step X d rend i used w s"
  have r: "r = (if stopped ?s then ?s else scan_run X d rend i used w (?s\<lparr>s_exists := False\<rparr>))"
    using assms(1,5) by (simp add: scan_run.simps [of _ _ _ _ _ _ s] Let_def)
  note n = utf8decode_pos [OF assms(4)]
  show "find_font X d i (s_exists s) cp = None \<Longrightarrow> \<not> s_exists s \<Longrightarrow> s_next r = None \<and> s_cp r = cp"
    using r assms(2,4) by (simp add: scan_step_def stopped_def)
  assume j: "find_font X d i (s_exists s) cp = Some j"
  then have s: "?s = scan_char X d rend used w n j (s\<lparr>s_cp := cp, s_err := err\<rparr>)"
    using assms(4) by (simp add: scan_step_def)
  have le: "length (s_text r) \<le> length (s_text ?s)"
    using r scan_run_length [of X d rend i used w "?s\<lparr>s_exists := False\<rparr>"] by (simp split: if_splits)
  have nov: "\<not> s_overflow ?s" using r assms(7) by (cases "stopped ?s") (auto simp: stopped_def)
  have ju: "j \<noteq> used"
  proof
    assume "j = used"
    then have "s_text ?s = drop n (s_text s)"
      using nov assms(3) by (simp add: s scan_char_def Let_def split: if_splits)
    moreover have "length (drop n (s_text s)) < length (s_text s)" using n assms(1) by simp
    ultimately show False using le assms(6) by (metis not_le)
  qed
  then have "s_next ?s = Some j" using nov by (simp add: s scan_char_def Let_def split: if_splits)
  then show "j \<noteq> used \<and> s_next r = Some j" using ju r by (simp add: stopped_def)
qed

text \<open>
  How many rounds the loop may take before it takes a character: in a round without one it turns
  to the font that has the character, or looks for a new one.
\<close>

definition rounds :: "xft \<Rightarrow> drw \<Rightarrow> pen \<Rightarrow> nat" where
  "rounds X d p =
     (case find_font X d 0 False (fst (snd (utf8decode (p_text p)))) of
        Some j \<Rightarrow> if p_exists p then (if p_used p = 0 then 0 else 2) else if j = p_used p then 0 else 1
      | None \<Rightarrow> if p_exists p then (if p_used p = 0 then 0 else 4) else if p_used p = 0 then 3 else 5)"

definition can_measure :: "drw \<Rightarrow> bool" where
  "can_measure d \<longleftrightarrow> d_fonts d \<noteq> [] \<and> f_pattern (hd (d_fonts d)) \<noteq> None"

text \<open>What the search for a new font leaves to do.\<close>

lemma fallback_cases:
  assumes "f_pattern (hd (d_fonts d)) = Some pat"
  obtains (zero) d' where "fallback X cp u d = Some (0, d')" "d_fonts d' = d_fonts d"
    | (same) "fallback X cp u d = Some (u, d)"
    | (new) f where "fallback X cp u d = Some (length (d_fonts d), d\<lparr>d_fonts := d_fonts d @ [f]\<rparr>)"
        "XftCharExists X (f_xfont f) cp"
proof (cases "no_match cp (nomatches d)")
  case True
  then show ?thesis using zero [of d] by (simp add: fallback_def)
next
  case False
  show ?thesis
  proof (cases "XftFontMatch X pat cp")
    case None
    then show ?thesis using same assms False by (simp add: fallback_def)
  next
    case (Some m)
    let ?d = "d\<lparr>nomatches := add_no_match cp (nomatches d)\<rparr>"
    show ?thesis
    proof (cases "\<exists>f. xfont_by_pattern X m = Some f \<and> XftCharExists X (f_xfont f) cp")
      case True
      then show ?thesis using new Some assms False by (auto simp: fallback_def)
    next
      case nofont: False
      have "fallback X cp u d = Some (0, ?d)"
        using nofont Some assms False by (cases "xfont_by_pattern X m") (simp_all add: fallback_def)
      then show ?thesis using zero [of ?d] by simp
    qed
  qed
qed

lemma fallback_rounds:
  assumes "can_measure d" "find_font X d 0 False cp = None" "utf8decode (p_text p) = (n, cp, err)"
    "\<not> p_exists p" "p_text q = p_text p" "p_exists q"
  shows "\<exists>u d'. fallback X cp (p_used p) d = Some (u, d') \<and> can_measure d' \<and> (p_used q = u \<longrightarrow> rounds X d' q < rounds X d p)"
proof -
  obtain pat where pat: "f_pattern (hd (d_fonts d)) = Some pat" using assms(1) by (auto simp: can_measure_def)
  show ?thesis
  proof (cases rule: fallback_cases [OF pat, of X cp "p_used p"])
    case (1 d')
    then show ?thesis using assms
      by (simp add: can_measure_def rounds_def find_font_same [OF 1(2)])
  next
    case 2
    then show ?thesis using assms by (simp add: rounds_def)
  next
    case (3 f)
    have "d_fonts d \<noteq> []" using assms(1) by (simp add: can_measure_def)
    then show ?thesis using assms 3 find_font_grown [OF assms(2) 3(2)]
      by (simp add: can_measure_def rounds_def)
  qed
qed

lemma measure_step:
  assumes "\<not> render a" "a_font a = 0" "s = scan_run X d False 0 (p_used p) (p_w p) (scan_start p)"
  shows "\<exists>x w. text_run X (Loop a p) d =
      (if s_text s = [] \<or> s_overflow s then Some (s32 x, d)
       else case s_next s of
           Some j \<Rightarrow> text_run X (Loop a \<lparr>p_x = x, p_w = w, p_text = s_text s, p_exists = False, p_used = j,
               p_ellipsis_x = s_ellipsis_x s, p_ellipsis_w = s_ellipsis_w s\<rparr>) d
         | None \<Rightarrow> do {
             (u, d) \<leftarrow> fallback X (s_cp s) (p_used p) d;
             text_run X (Loop a \<lparr>p_x = x, p_w = w, p_text = s_text s, p_exists = True, p_used = u,
               p_ellipsis_x = s_ellipsis_x s, p_ellipsis_w = s_ellipsis_w s\<rparr>) d })"
  unfolding text_run.simps [of X "Loop a p" d] assms(3)
  using assms(1,2) by (simp add: draw_run_def Let_def) blast

lemma fallback_measures:
  assumes "can_measure d"
  shows "\<exists>u d'. fallback X cp used d = Some (u, d') \<and> can_measure d'"
proof -
  obtain pat where pat: "f_pattern (hd (d_fonts d)) = Some pat" using assms by (auto simp: can_measure_def)
  show ?thesis
    by (cases rule: fallback_cases [OF pat, of X cp used]) (use assms in \<open>auto simp: can_measure_def\<close>)
qed

lemma run_measures:
  assumes "\<not> render a" "a_font a = 0" "can_measure d"
  shows "\<exists>r. text_run X (Loop a p) d = Some r"
  using assms(3)
proof (induction "(length (p_text p), rounds X d p)" arbitrary: p d
    rule: wf_induct_rule [OF wf_lex_prod [OF wf_less_than wf_less_than]])
  case 1
  define s where "s = scan_run X d False 0 (p_used p) (p_w p) (scan_start p)"
  obtain k where k: "s_text s = drop k (p_text p)"
    using scan_run_drop [of X d False 0 "p_used p" "p_w p" "scan_start p"] by (auto simp: s_def scan_start_def)
  have IH: "\<exists>r. text_run X (Loop a q) d' = Some r"
    if "can_measure d'" "length (p_text q) < length (p_text p)
       \<or> length (p_text q) = length (p_text p) \<and> rounds X d' q < rounds X d p" for q d'
    using that by (intro 1(1)) auto
  obtain x w where run: "text_run X (Loop a p) d =
      (if s_text s = [] \<or> s_overflow s then Some (s32 x, d)
       else case s_next s of
           Some j \<Rightarrow> text_run X (Loop a \<lparr>p_x = x, p_w = w, p_text = s_text s, p_exists = False, p_used = j,
               p_ellipsis_x = s_ellipsis_x s, p_ellipsis_w = s_ellipsis_w s\<rparr>) d
         | None \<Rightarrow> do {
             (u, d) \<leftarrow> fallback X (s_cp s) (p_used p) d;
             text_run X (Loop a \<lparr>p_x = x, p_w = w, p_text = s_text s, p_exists = True, p_used = u,
               p_ellipsis_x = s_ellipsis_x s, p_ellipsis_w = s_ellipsis_w s\<rparr>) d })"
    using measure_step [OF assms(1,2) s_def] by blast
  have "s_text s = p_text p \<or> length (s_text s) < length (p_text p)"
    using k by (cases "k = 0"; cases "p_text p") auto
  then consider (stop) "s_text s = [] \<or> s_overflow s"
    | (shorter) "s_text s \<noteq> []" "\<not> s_overflow s" "length (s_text s) < length (p_text p)"
    | (stuck) "s_text s \<noteq> []" "\<not> s_overflow s" "s_text s = p_text p"
    by blast
  then show ?case
  proof cases
    case stop
    then show ?thesis using run by simp
  next
    case shorter
    obtain u d' where "fallback X (s_cp s) (p_used p) d = Some (u, d')" "can_measure d'"
      using fallback_measures [OF 1(2)] by metis
    then show ?thesis using run shorter 1(2) IH by (cases "s_next s") auto
  next
    case stuck
    obtain n cp err where u: "utf8decode (p_text p) = (n, cp, err)" by (metis prod_cases3)
    have st: "s_text (scan_start p) = p_text p" "s_next (scan_start p) = None" "\<not> s_overflow (scan_start p)"
      "s_exists (scan_start p) = p_exists p" by (simp_all add: scan_start_def)
    have some: "j \<noteq> p_used p \<and> s_next s = Some j" if "find_font X d 0 (p_exists p) cp = Some j" for j
      using scan_run_stuck(1) [OF _ st(2,3) _ s_def, of n cp err j] stuck u that by (simp add: st)
    have none: "s_next s = None \<and> s_cp s = cp" if "find_font X d 0 False cp = None" "\<not> p_exists p"
      using scan_run_stuck(2) [OF _ st(2,3) _ s_def, of n cp err] stuck u that by (simp add: st)
    show ?thesis
    proof (cases "p_exists p")
      case True
      have "d_fonts d \<noteq> []" using 1(2) by (simp add: can_measure_def)
      then have "0 \<noteq> p_used p \<and> s_next s = Some 0" using some [of 0] True by (simp add: find_font_first)
      moreover have "\<exists>r. text_run X (Loop a \<lparr>p_x = x, p_w = w, p_text = s_text s, p_exists = False, p_used = 0,
          p_ellipsis_x = s_ellipsis_x s, p_ellipsis_w = s_ellipsis_w s\<rparr>) d = Some r"
        using stuck(3) 1(2) True calculation
        by (intro IH) (auto simp: rounds_def split: option.splits)
      ultimately show ?thesis using run stuck(1,2) by simp
    next
      case False
      show ?thesis
      proof (cases "find_font X d 0 False cp")
        case None
        note F = fallback_rounds [OF 1(2) None u False]
        obtain v d' where f: "fallback X cp (p_used p) d = Some (v, d')" "can_measure d'"
          using fallback_measures [OF 1(2)] by metis
        let ?q = "\<lparr>p_x = x, p_w = w, p_text = s_text s, p_exists = True, p_used = v,
               p_ellipsis_x = s_ellipsis_x s, p_ellipsis_w = s_ellipsis_w s\<rparr>"
        have "rounds X d' ?q < rounds X d p" using F [of ?q] f stuck(3) by auto
        then have "\<exists>r. text_run X (Loop a ?q) d' = Some r" using f(2) stuck(3) by (intro IH) auto
        then show ?thesis using run stuck(1,2) none [OF None False] f(1) by simp
      next
        case (Some j)
        then have j: "j \<noteq> p_used p" "s_next s = Some j" using some [of j] False by auto
        moreover have "\<exists>r. text_run X (Loop a \<lparr>p_x = x, p_w = w, p_text = s_text s, p_exists = False, p_used = j,
            p_ellipsis_x = s_ellipsis_x s, p_ellipsis_w = s_ellipsis_w s\<rparr>) d = Some r"
          using stuck(3) 1(2) False Some u j(1) by (intro IH) (auto simp: rounds_def)
        ultimately show ?thesis using run stuck(1,2) by simp
      qed
    qed
  qed
qed

lemma getwidth_ends:
  assumes "d_fonts d \<noteq> [] \<longrightarrow> f_pattern (hd (d_fonts d)) \<noteq> None"
  shows "\<exists>n d'. drw_fontset_getwidth X t 0 d = Some (n, d')"
proof (cases "d_fonts d = []")
  case True
  then show ?thesis by (simp add: drw_fontset_getwidth_def)
next
  case False
  let ?a = "measure_call t 0 0"
  have a: "\<not> render ?a" "a_font ?a = 0" by (simp_all add: render_def measure_call_def)
  have "can_measure d" using assms False by (simp add: can_measure_def)
  then obtain r where r: "text_run X (Loop ?a \<lparr>p_x = 0, p_w = u32 (- 1), p_text = t, p_exists = False,
      p_used = 0, p_ellipsis_x = 0, p_ellipsis_w = 0\<rparr>) d = Some r"
    using run_measures [OF a] by blast
  have "text_run X (Call ?a) d = Some r"
    using r a(1) False by (subst text_run.simps) (simp add: Let_def measure_call_def)
  then show ?thesis using False
    by (cases r) (simp add: drw_fontset_getwidth_def drw_text_def measure_call_def)
qed

text \<open>
  A byte that is not UTF-8, in the middle of a text: although the first font has the mark for it,
  the loop looks for a fallback font for the mark.
\<close>

lemma bad_byte_round:
  assumes "\<not> render a" "a_font a = 0" "utf8decode (p_text p) = (n, UTF_INVALID, True)" "drop n (p_text p) \<noteq> []"
    "find_font X d 0 (p_exists p) UTF_INVALID = Some (p_used p)"
    "drw_font_getexts X (d_fonts d ! p_used p) (p_text p) n \<le> p_w p"
    "fallback X UTF_INVALID (p_used p) d = Some (u, d')"
  shows "\<exists>q. p_text q = drop n (p_text p) \<and> p_used q = u \<and> text_run X (Loop a p) d = text_run X (Loop a q) d'"
proof -
  define s where "s = scan_run X d False 0 (p_used p) (p_w p) (scan_start p)"
  have "p_text p \<noteq> []" using assms(4) by auto
  then have "s = scan_step X d False 0 (p_used p) (p_w p) (scan_start p)"
    using assms(3,5) unfolding s_def
    by (subst scan_run.simps) (simp add: scan_start_def scan_step_def stopped_def)
  then have "s_text s = drop n (p_text p) \<and> s_next s = None \<and> \<not> s_overflow s \<and> s_cp s = UTF_INVALID"
    using assms(3,5,6) by (simp add: scan_start_def scan_step_def scan_char_def Let_def drw_font_getexts_def)
  with measure_step [OF assms(1,2) s_def] assms(4,7)
  obtain x w where "text_run X (Loop a p) d = text_run X (Loop a \<lparr>p_x = x, p_w = w, p_text = s_text s,
      p_exists = True, p_used = u, p_ellipsis_x = s_ellipsis_x s, p_ellipsis_w = s_ellipsis_w s\<rparr>) d'"
    by auto
  then show ?thesis using \<open>s_text s = drop n (p_text p) \<and> _\<close> by (intro exI) auto
qed

text \<open>So the set grows by a font for each such byte.\<close>

lemma bad_byte_font:
  assumes "f_pattern (hd (d_fonts d)) = Some pat" "XftFontMatch X pat UTF_INVALID = Some m"
    "xfont_by_pattern X m = Some f" "XftCharExists X (f_xfont f) UTF_INVALID" "\<not> no_match UTF_INVALID (nomatches d)"
  shows "fallback X UTF_INVALID used d = Some (length (d_fonts d), d\<lparr>d_fonts := d_fonts d @ [f]\<rparr>)"
  using assms by (simp add: fallback_def)

section \<open>Texts that are never finished\<close>

text \<open>
  The round trip of a loop that starts behind the first font: a character that none of the fonts
  from there on has, and that no new font has, is given to the first font, where the loop does
  not look.
\<close>

definition hung :: "xft \<Rightarrow> nat \<Rightarrow> targs \<Rightarrow> pen \<Rightarrow> drw \<Rightarrow> bool" where
  "hung X cp a p d \<longleftrightarrow>
     \<not> render a \<and> 0 < a_font a \<and> a_font a \<le> length (d_fonts d) \<and> p_text p \<noteq> []
     \<and> (\<exists>n. utf8decode (p_text p) = (n, cp, False)
          \<and> (a_font a < length (d_fonts d) \<longrightarrow> drw_font_getexts X (d_fonts d ! a_font a) (p_text p) n \<le> p_w p))
     \<and> find_font X d (a_font a) False cp = None
     \<and> (\<exists>pat m. f_pattern (hd (d_fonts d)) = Some pat \<and> XftFontMatch X pat cp = Some m
          \<and> (\<forall>f. xfont_by_pattern X m = Some f \<longrightarrow> \<not> XftCharExists X (f_xfont f) cp))
     \<and> (p_exists p \<longrightarrow> p_used p = 0)"

lemma getexts_range [simp]: "0 \<le> drw_font_getexts X f t n" "drw_font_getexts X f t n < 4294967296"
  "u32 (drw_font_getexts X f t n) = drw_font_getexts X f t n"
  by (simp_all add: drw_font_getexts_def)

lemma find_font_true: "find_font X d i True cp = (if i < length (d_fonts d) then Some i else None)"
  by (cases "i < length (d_fonts d)") (simp_all add: find_font_def upt_conv_Cons del: upt_Suc)

lemma hung_scan:
  assumes "hung X cp a p d" "s = scan_run X d False (a_font a) (p_used p) (p_w p) (scan_start p)"
  shows "s_text s = p_text p \<and> s_len s = 0 \<and> \<not> s_err s \<and> \<not> s_overflow s \<and> s_cp s = cp
    \<and> s_next s = (if p_exists p \<and> a_font a < length (d_fonts d) then Some (a_font a) else None)"
proof -
  obtain n where u: "p_text p \<noteq> []" "utf8decode (p_text p) = (n, cp, False)"
    and w: "a_font a < length (d_fonts d) \<Longrightarrow> drw_font_getexts X (d_fonts d ! a_font a) (p_text p) n \<le> p_w p"
    and N: "find_font X d (a_font a) False cp = None" and E: "p_exists p \<longrightarrow> p_used p = 0" "0 < a_font a"
    using assms(1) by (auto simp: hung_def)
  have quiet: "scan_run X d False (a_font a) (p_used p) (p_w p) r = r\<lparr>s_cp := cp, s_err := False\<rparr>"
    if "s_text r = p_text p" "\<not> s_exists r" for r
    using that u N by (subst scan_run.simps) (simp add: scan_step_def stopped_def Let_def)
  show ?thesis
  proof (cases "p_exists p")
    case False
    then show ?thesis using quiet [of "scan_start p"] assms(2) by (simp add: scan_start_def)
  next
    case True
    show ?thesis
    proof (cases "a_font a < length (d_fonts d)")
      case F: True
      then show ?thesis using u w [OF F] E True assms(2)
        by (subst (asm) scan_run.simps)
          (auto simp: scan_start_def scan_step_def stopped_def scan_char_def find_font_true Let_def)
    next
      case F: False
      have "scan_step X d False (a_font a) (p_used p) (p_w p) (scan_start p) = (scan_start p)\<lparr>s_cp := cp\<rparr>"
        using u True F by (simp add: scan_start_def scan_step_def find_font_true)
      then have "s = scan_run X d False (a_font a) (p_used p) (p_w p) ((scan_start p)\<lparr>s_cp := cp, s_exists := False\<rparr>)"
        using u True assms(2) by (subst (asm) scan_run.simps) (simp add: scan_start_def stopped_def)
      then show ?thesis using quiet [of "(scan_start p)\<lparr>s_cp := cp, s_exists := False\<rparr>"] F
        by (simp add: scan_start_def)
    qed
  qed
qed

lemma hung_fallback:
  assumes "hung X cp a p d"
  shows "\<exists>d'. fallback X cp u d = Some (0, d') \<and> d_fonts d' = d_fonts d"
  using assms by (auto simp: hung_def fallback_def split: option.split)

lemma hung_next:
  assumes "hung X cp a p d" "p_w q = p_w p" "p_text q = p_text p" "p_exists q \<longrightarrow> p_used q = 0" "d_fonts d' = d_fonts d"
  shows "hung X cp a q d'"
  using assms by (auto simp: hung_def find_font_def)

lemma hung_never_ends: "text_run X g d = Some r \<Longrightarrow> g = Loop a p \<Longrightarrow> \<not> hung X cp a p d"
proof (induction X g d r arbitrary: p rule: text_run.raw_induct [rotated, consumes 1, case_names step])
  case (step f X g d r)
  show ?case
  proof
    assume H: "hung X cp a p d"
    define s where "s = scan_run X d False (a_font a) (p_used p) (p_w p) (scan_start p)"
    note S = hung_scan [OF H s_def]
    have R: "\<not> render a" "\<not> length (d_fonts d) < a_font a" "p_text p \<noteq> []"
      using H by (simp_all add: hung_def)
    obtain d' where d': "fallback X cp (p_used p) d = Some (0, d')" "d_fonts d' = d_fonts d"
      using hung_fallback [OF H] by blast
    show False
    proof (cases "p_exists p \<and> a_font a < length (d_fonts d)")
      case True
      let ?q = "\<lparr>p_x = s_x s, p_w = p_w p, p_text = p_text p, p_exists = False, p_used = a_font a,
               p_ellipsis_x = s_ellipsis_x s, p_ellipsis_w = s_ellipsis_w s\<rparr>"
      have "f X (Loop a ?q) d = Some r"
        using step(2) S R True unfolding step(3) by (simp add: s_def [symmetric] draw_run_def Let_def)
      from step(1) [OF this refl] show False using hung_next [OF H, of ?q d] by simp
    next
      case False
      let ?q = "\<lparr>p_x = s_x s, p_w = p_w p, p_text = p_text p, p_exists = True, p_used = 0,
               p_ellipsis_x = s_ellipsis_x s, p_ellipsis_w = s_ellipsis_w s\<rparr>"
      have "s_next s = None" using S False by auto
      then have "f X (Loop a ?q) d' = Some r"
        using step(2) S R d' unfolding step(3) by (simp add: s_def [symmetric] draw_run_def Let_def)
      from step(1) [OF this refl] show False using hung_next [OF H, of ?q d'] d'(2) by simp
    qed
  qed
qed

lemma hung_getwidth:
  assumes "scalar cp" "t = utf8_encode cp @ r" "0 < i" "i \<le> length (d_fonts d)"
    "\<And>j. i \<le> j \<Longrightarrow> j < length (d_fonts d) \<Longrightarrow> \<not> XftCharExists X (f_xfont (d_fonts d ! j)) cp"
    "f_pattern (hd (d_fonts d)) = Some pat" "XftFontMatch X pat cp = Some m"
    "\<And>f. xfont_by_pattern X m = Some f \<Longrightarrow> \<not> XftCharExists X (f_xfont f) cp"
  shows "drw_fontset_getwidth X t i d = None"
proof -
  let ?a = "measure_call t 0 i"
  let ?p = "\<lparr>p_x = 0, p_w = u32 (- 1), p_text = t, p_exists = False, p_used = 0,
      p_ellipsis_x = 0, p_ellipsis_w = 0\<rparr>"
  have t: "t \<noteq> []" using assms(2) by (auto simp: utf8_encode_def encode_bytes_def)
  have m: "u32 (- 1) = 4294967295" by (simp add: u32_def)
  have "drw_font_getexts X f u n \<le> u32 (- 1)" for f u n
    unfolding m using getexts_range(2) [of X f u n] by linarith
  then have "hung X cp ?a ?p d"
    using assms t decode_encoded [OF assms(1), of r]
    by (auto simp: hung_def render_def measure_call_def find_font_def find_None_iff)
  then have L: "text_run X (Loop ?a ?p) d = None"
    using hung_never_ends [of X "Loop ?a ?p" d _ ?a ?p cp] by (cases "text_run X (Loop ?a ?p) d") auto
  have "text_run X (Call ?a) d = None"
    using L assms(3,4) by (subst text_run.simps) (auto simp: Let_def measure_call_def render_def)
  then show ?thesis using assms(3,4)
    by (auto simp: drw_fontset_getwidth_def drw_text_def measure_call_def)
qed

text \<open>
  The dots of a text that is cut, in a space that is narrower than a dot: they are cut too, and
  leave the same space for their own dots.
\<close>

definition cut_at :: "xft \<Rightarrow> drw \<Rightarrow> string \<Rightarrow> int \<Rightarrow> bool" where
  "cut_at X d t w \<longleftrightarrow>
     t \<noteq> [] \<and> (\<exists>n cp j. utf8decode t = (n, cp, False) \<and> find_font X d 0 False cp = Some j
       \<and> w < drw_font_getexts X (d_fonts d ! j) t n)"

definition narrow :: "xft \<Rightarrow> goal \<Rightarrow> drw \<Rightarrow> bool" where
  "narrow X g d \<longleftrightarrow>
     d_scheme d \<noteq> None \<and> ellipsis_width d = 0 \<and> invalid_width d \<noteq> 0 \<and>
     (case g of
        Call a \<Rightarrow> a_font a = 0 \<and> a_lpad a < a_w a \<and> 0 < a_w a
          \<and> cut_at X d (a_text a) (a_w a - a_lpad a) \<and> cut_at X d ''...'' (a_w a - a_lpad a)
      | Loop a p \<Rightarrow> a_font a = 0 \<and> render a \<and> 0 < p_w p \<and> \<not> p_exists p
          \<and> cut_at X d (p_text p) (p_w p) \<and> cut_at X d ''...'' (p_w p))"

lemma draw_simps [simp]:
  "d_fonts (draw rs d) = d_fonts d" "d_scheme (draw rs d) = d_scheme d" "nomatches (draw rs d) = nomatches d"
  "ellipsis_width (draw rs d) = ellipsis_width d" "invalid_width (draw rs d) = invalid_width d"
  "d_log (draw rs d) = d_log d @ rs" "cut_at X (draw rs d) t w = cut_at X d t w" "find_font X (draw rs d) i ex = find_font X d i ex"
  by (simp_all add: draw_def find_font_def cut_at_def fun_eq_iff)

text \<open>The first character of a text that does not fit.\<close>

lemma scan_cut:
  assumes "utf8decode (p_text p) = (n, cp, False)" "p_text p \<noteq> []" "\<not> p_exists p"
    "find_font X d i False cp = Some j" "0 \<le> p_w p" "p_w p < drw_font_getexts X (d_fonts d ! j) (p_text p) n"
    "ellipsis_width d = 0" "s = scan_run X d True i (p_used p) (p_w p) (scan_start p)"
  shows "s_overflow s \<and> s_len s = 0 \<and> \<not> s_err s \<and> s_ellipsis_w s = p_w p \<and> s_ellipsis_x s = s32 (p_x p)"
proof -
  have "p_w p < 4294967296" by (rule less_trans [OF assms(6) getexts_range(2)])
  then show ?thesis using assms
    by (subst (asm) scan_run.simps) (simp add: scan_start_def scan_step_def scan_char_def stopped_def Let_def)
qed

lemma decode_dots: "utf8decode ''...'' = (1, 46, False)"
  by (simp add: decode_1 cbyte_def)

lemma narrow_loop:
  assumes "narrow X (Loop a p) d" "s = scan_run X d True 0 (p_used p) (p_w p) (scan_start p)"
  shows "s_overflow s \<and> s_len s = 0 \<and> \<not> s_err s \<and> narrow X (Call (sub_call a (s_ellipsis_x s) (s_ellipsis_w s) ''...'')) d"
proof -
  obtain n cp j where c: "utf8decode (p_text p) = (n, cp, False)" "p_text p \<noteq> []"
    "find_font X d 0 False cp = Some j" "p_w p < drw_font_getexts X (d_fonts d ! j) (p_text p) n"
    using assms(1) by (auto simp: narrow_def cut_at_def)
  have p: "\<not> p_exists p" "0 \<le> p_w p" "ellipsis_width d = 0" using assms(1) by (simp_all add: narrow_def)
  show ?thesis
    using scan_cut [OF c(1,2) p(1) c(3) p(2) c(4) p(3) assms(2)] assms(1) by (simp add: narrow_def sub_call_def)
qed

lemma narrow_never_ends: "text_run X g d = Some r \<Longrightarrow> \<not> narrow X g d"
proof (induction X g d r rule: text_run.raw_induct [rotated, consumes 1, case_names step])
  case (step f X g d r)
  show ?case
  proof
    assume N: "narrow X g d"
    show False
    proof (cases g)
      case (Call a)
      have a: "render a" "d_fonts d \<noteq> []" "\<not> a_w a < a_lpad a" "a_w a \<noteq> 0" "d_scheme d \<noteq> None" "invalid_width d \<noteq> 0"
        using N Call by (auto simp: narrow_def render_def cut_at_def find_font_def)
      let ?d = "draw [DSetForeground (colour (a_invert a = 0) d), DFillRectangle (a_x a) (a_y a) (a_w a) (a_h a)] d"
      let ?p = "\<lparr>p_x = s32 (a_x a + a_lpad a), p_w = a_w a - a_lpad a, p_text = a_text a, p_exists = False,
        p_used = 0, p_ellipsis_x = 0, p_ellipsis_w = 0\<rparr>"
      have "f X (Loop a ?p) ?d = Some r" using step(2) a Call by (simp add: Let_def)
      from step(1) [OF this] show False using N Call a(1) by (simp add: narrow_def)
    next
      case (Loop a p)
      define s where "s = scan_run X d True 0 (p_used p) (p_w p) (scan_start p)"
      have R: "render a" "a_font a = 0" using N Loop by (simp_all add: narrow_def)
      note S = narrow_loop [OF N [unfolded Loop] s_def]
      have "\<exists>q. f X (Call (sub_call a (s_ellipsis_x s) (s_ellipsis_w s) ''...'')) d = Some q"
        using step(2) S R unfolding Loop
        by (simp add: s_def [symmetric] draw_run_def Let_def split: Option.bind_splits)
      then show False using step(1) S by blast
    qed
  qed
qed

section \<open>Texts that fit\<close>

text \<open>
  The text of some characters, its width when each is drawn in the first font that has it, and
  its runs of characters that are drawn in the same font.
\<close>

definition utf8 :: "nat list \<Rightarrow> string" where
  "utf8 cps = concat (map utf8_encode cps)"

definition covered :: "xft \<Rightarrow> drw \<Rightarrow> nat \<Rightarrow> nat list \<Rightarrow> bool" where
  "covered X d i cps \<longleftrightarrow> (\<forall>cp \<in> set cps. scalar cp \<and> find_font X d i False cp \<noteq> None)"

definition glyph_width :: "xft \<Rightarrow> drw \<Rightarrow> nat \<Rightarrow> nat \<Rightarrow> int" where
  "glyph_width X d i cp =
     (case find_font X d i False cp of
        None \<Rightarrow> 0
      | Some j \<Rightarrow> u32 (XftTextExtents X (f_xfont (d_fonts d ! j)) (utf8_encode cp)))"

definition text_width :: "xft \<Rightarrow> drw \<Rightarrow> nat \<Rightarrow> nat list \<Rightarrow> int" where
  "text_width X d i cps = sum_list (map (glyph_width X d i) cps)"

function font_runs :: "('a \<Rightarrow> 'b) \<Rightarrow> 'a list \<Rightarrow> ('b \<times> 'a list) list" where
  "font_runs f [] = []"
| "font_runs f (c # cs) =
     (f c, c # takeWhile (\<lambda>b. f b = f c) cs) # font_runs f (dropWhile (\<lambda>b. f b = f c) cs)"
  by pat_completeness auto
termination
  by (relation "measure (\<lambda>(f, cs). length cs)") (auto simp: le_imp_less_Suc length_dropWhile_le)

text \<open>The requests for the runs, one behind the other.\<close>

fun place_runs :: "xft \<Rightarrow> drw \<Rightarrow> targs \<Rightarrow> int \<Rightarrow> (nat option \<times> nat list) list \<Rightarrow> dreq list" where
  "place_runs X d a x [] = []"
| "place_runs X d a x ((j, cs) # rs) =
     (let f = d_fonts d ! the j
      in DDrawString (colour (a_invert a \<noteq> 0) d) (f_xfont f) x
           (s32 (a_y a + u32 (a_h a - f_h f) div 2 + f_ascent f)) (utf8 cs)
         # place_runs X d a (s32 (x + text_width X d (a_font a) cs)) rs)"

lemma glyph_width_nonneg [simp]: "0 \<le> glyph_width X d i cp"
  by (simp add: glyph_width_def split: option.split)

lemma text_width_simps [simp]: "text_width X d i [] = 0"
  "text_width X d i (c # cs) = glyph_width X d i c + text_width X d i cs"
  "text_width X d i (cs @ ds) = text_width X d i cs + text_width X d i ds"
  by (simp_all add: text_width_def)

lemma text_width_nonneg [simp]: "0 \<le> text_width X d i cps"
  by (induction cps) simp_all

lemma utf8_simps [simp]: "utf8 [] = []" "utf8 (c # cs) = utf8_encode c @ utf8 cs"
  "utf8 (cs @ ds) = utf8 cs @ utf8 ds"
  by (simp_all add: utf8_def)

lemma covered_simps [simp]: "covered X d i []"
  "covered X d i (c # cs) \<longleftrightarrow> scalar c \<and> find_font X d i False c \<noteq> None \<and> covered X d i cs"
  by (auto simp: covered_def)

lemma covered_dropWhile: "covered X d i cps \<Longrightarrow> covered X d i (dropWhile P cps)"
  by (auto simp: covered_def dest: set_dropWhileD)

lemma utf8_encode_not_Nil [simp]: "utf8_encode cp \<noteq> []"
  by (simp add: utf8_encode_def encode_bytes_def)

lemma utf8_Nil_iff [simp]: "utf8 cps = [] \<longleftrightarrow> cps = []"
  by (cases cps) simp_all

lemma getexts_glyph:
  "find_font X d i False cp = Some j \<Longrightarrow>
   drw_font_getexts X (d_fonts d ! j) (utf8_encode cp @ r) (length (utf8_encode cp)) = glyph_width X d i cp"
  by (simp add: drw_font_getexts_def glyph_width_def)

lemma decode_utf8: "scalar cp \<Longrightarrow> utf8decode (utf8_encode cp @ r) = (length (utf8_encode cp), cp, False)"
  using decode_encoded by (simp add: length_utf8_encode)

lemma scan_covered:
  assumes "covered X d i cps" "s_text s = utf8 cps" "\<not> s_exists s" "\<not> s_err s" "s_next s = None" "\<not> s_overflow s"
    "0 \<le> s_ew s" "s_ew s + text_width X d i cps \<le> w" "w < 4294967296"
    "P = (\<lambda>c. find_font X d i False c = Some used)" "s' = scan_run X d rend i used w s"
  shows "s_text s' = utf8 (dropWhile P cps) \<and> s_ew s' = s_ew s + text_width X d i (takeWhile P cps)
    \<and> s_len s' = s_len s + length (utf8 (takeWhile P cps)) \<and> \<not> s_err s' \<and> \<not> s_overflow s' \<and> s_x s' = s_x s
    \<and> s_next s' = (case dropWhile P cps of [] \<Rightarrow> None | c # _ \<Rightarrow> find_font X d i False c)"
  using assms(1-9,11)
proof (induction cps arbitrary: s s')
  case Nil
  then show ?case by (simp add: scan_run.simps)
next
  case (Cons c cs)
  obtain j where j: "find_font X d i False c = Some j" using Cons.prems(1) by auto
  note g = getexts_glyph [OF j]
  have dec: "utf8decode (s_text s) = (length (utf8_encode c), c, False)"
    using Cons.prems(1,2) by (simp add: decode_utf8)
  have fit: "s_ew s + glyph_width X d i c \<le> w" "s_ew s + glyph_width X d i c + text_width X d i cs \<le> w"
    using Cons.prems(8) text_width_nonneg [of X d i cs] unfolding text_width_simps by linarith+
  then have u: "u32 (s_ew s + glyph_width X d i c) = s_ew s + glyph_width X d i c"
    using Cons.prems(7,9) by (intro u32_id) (auto intro: add_nonneg_nonneg)
  let ?t = "scan_step X d rend i used w s"
  have t: "s_exists ?t" "\<not> s_err ?t" "\<not> s_overflow ?t" "s_x ?t = s_x s"
    "s_next ?t = (if j = used then None else Some j)"
    "s_text ?t = (if j = used then utf8 cs else s_text s)"
    "s_len ?t = s_len s + (if j = used then length (utf8_encode c) else 0)"
    "s_ew ?t = s_ew s + (if j = used then glyph_width X d i c else 0)"
    using Cons.prems(2-6) dec j fit u
    by (simp_all add: scan_step_def scan_char_def Let_def g)
  have run: "s' = (if j = used then scan_run X d rend i used w (?t\<lparr>s_exists := False\<rparr>) else ?t)"
    using Cons.prems(2,10) t by (subst (asm) scan_run.simps) (simp add: stopped_def Let_def)
  show ?case
  proof (cases "j = used")
    case False
    then show ?thesis using run t j Cons.prems(2) by (simp add: assms(10))
  next
    case True
    note IH = Cons.IH [of "?t\<lparr>s_exists := False\<rparr>" s']
    have "s_text s' = utf8 (dropWhile P cs) \<and> s_ew s' = s_ew ?t + text_width X d i (takeWhile P cs)
      \<and> s_len s' = s_len ?t + length (utf8 (takeWhile P cs)) \<and> \<not> s_err s' \<and> \<not> s_overflow s' \<and> s_x s' = s_x ?t
      \<and> s_next s' = (case dropWhile P cs of [] \<Rightarrow> None | c # _ \<Rightarrow> find_font X d i False c)"
      using IH Cons.prems(1,7,9) t True run fit by simp
    then show ?thesis using t j True by (simp add: assms(10))
  qed
qed

lemma s32_add [simp]: "s32 (s32 x + y) = s32 (x + y)" "s32 (x + s32 y) = s32 (x + y)"
proof -
  have "s32 y mod 2 ^ 32 = y mod 2 ^ 32" for y
    by (simp add: s32_def Let_def mod_simps)
  then have "(s32 x + y) mod 2 ^ 32 = (x + y) mod 2 ^ 32" "(x + s32 y) mod 2 ^ 32 = (x + y) mod 2 ^ 32"
    by (metis mod_add_left_eq) (metis \<open>\<And>y. s32 y mod 2 ^ 32 = y mod 2 ^ 32\<close> mod_add_right_eq)
  then show "s32 (s32 x + y) = s32 (x + y)" "s32 (x + s32 y) = s32 (x + y)"
    by (simp_all add: s32_def [of "_ + _"])
qed

lemma draw_draw [simp]: "draw [] d = d" "draw qs (draw rs d) = draw (rs @ qs) d"
  by (simp_all add: draw_def)

lemma glyph_width_draw [simp]: "glyph_width X (draw rs d) = glyph_width X d"
  by (intro ext) (simp add: glyph_width_def cong: option.case_cong)

lemma place_runs_draw [simp]: "place_runs X (draw rs d) a x fs = place_runs X d a x fs"
  by (induction fs arbitrary: x) (auto simp: Let_def colour_def text_width_def)

lemma covered_draw [simp]: "covered X (draw rs d) i cps = covered X d i cps"
  "text_width X (draw rs d) i cps = text_width X d i cps"
  by (simp_all add: covered_def text_width_def)

lemma font_runs_hd: "cps \<noteq> [] \<Longrightarrow> f (hd cps) = v \<Longrightarrow>
    font_runs f cps = (v, takeWhile (\<lambda>b. f b = v) cps) # font_runs f (dropWhile (\<lambda>b. f b = v) cps)"
  by (cases cps) auto

lemma utf8_take: "take (length (utf8 (takeWhile P cps))) (utf8 cps) = utf8 (takeWhile P cps)"
  by (metis append_eq_conv_conj takeWhile_dropWhile_id utf8_simps(3))

lemma width_split: "text_width X d i cps = text_width X d i (takeWhile P cps) + text_width X d i (dropWhile P cps)"
  by (metis takeWhile_dropWhile_id text_width_simps(3))

lemma s32_s32 [simp]: "s32 (s32 x) = s32 x"
  using s32_add(1) [of x 0] by simp

text \<open>The loop on a text that fits: it draws the runs, and nothing is left out.\<close>

lemma run_covered:
  assumes "covered X d (a_font a) cps" "a_font a \<le> length (d_fonts d)" "p_text p = utf8 cps" "\<not> p_exists p"
    "text_width X d (a_font a) cps \<le> p_w p" "p_w p < 4294967296"
  shows "text_run X (Loop a p) d =
    Some (s32 (p_x p + (if render a then p_w p else text_width X d (a_font a) cps)),
      if render a then draw (place_runs X d a (p_x p) (font_runs (find_font X d (a_font a) False) cps)) d else d)"
  using assms
proof (induction "2 * length cps + (if cps \<noteq> [] \<and> find_font X d (a_font a) False (hd cps) \<noteq> Some (p_used p) then 1 else 0)"
    arbitrary: cps p d rule: less_induct)
  case less
  let ?f = "find_font X d (a_font a) False" and ?i = "a_font a"
  define P where "P = (\<lambda>c. ?f c = Some (p_used p))"
  define s where "s = scan_run X d (render a) ?i (p_used p) (p_w p) (scan_start p)"
  define pre where "pre = takeWhile P cps"
  define post where "post = dropWhile P cps"
  note W = width_split [of X d ?i cps P, folded pre_def post_def]
  have fit: "text_width X d ?i pre \<le> p_w p" "text_width X d ?i post \<le> p_w p - text_width X d ?i pre"
    using less.prems(5) W text_width_nonneg [of X d ?i post] by linarith+
  have S: "s_text s = utf8 post" "s_ew s = text_width X d ?i pre" "s_len s = length (utf8 pre)" "\<not> s_err s"
    "\<not> s_overflow s" "s_x s = p_x p" "s_next s = (case post of [] \<Rightarrow> None | c # _ \<Rightarrow> ?f c)"
    using scan_covered [OF less.prems(1), of "scan_start p" "p_w p" P "p_used p" s] less.prems(3-6)
    by (simp_all add: P_def s_def scan_start_def pre_def post_def)
  let ?g = "d_fonts d ! p_used p"
  let ?d = "if pre \<noteq> [] \<and> render a
    then draw [DDrawString (colour (a_invert a \<noteq> 0) d) (f_xfont ?g) (p_x p)
           (s32 (a_y a + u32 (a_h a - f_h ?g) div 2 + f_ascent ?g)) (utf8 pre)] d else d"
  let ?x = "if pre \<noteq> [] then s32 (p_x p + text_width X d ?i pre) else p_x p"
  let ?w = "p_w p - text_width X d ?i pre"
  have d: "draw_run a (p_used p) (p_text p) s d = ?d"
    using S less.prems(3) utf8_take [of P cps] by (simp add: draw_run_def Let_def pre_def)
  have "u32 ?w = ?w"
    by (rule u32_id) (use fit(1) less.prems(6) text_width_nonneg [of X d ?i pre] in linarith)+
  then have w: "(if 0 < s_len s then u32 (p_w p - s_ew s) else p_w p) = ?w" using S by (cases "pre = []") simp_all
  have x: "(if 0 < s_len s then s32 (s_x s + s_ew s) else s_x s) = ?x" using S by simp
  define d1 where "d1 = draw_run a (p_used p) (p_text p) s d"
  define x1 where "x1 = (if 0 < s_len s then s32 (s_x s + s_ew s) else s_x s)"
  define w1 where "w1 = (if 0 < s_len s then u32 (p_w p - s_ew s) else p_w p)"
  have run: "text_run X (Loop a p) d =
      (if post = [] then Some (s32 (x1 + (if render a then w1 else 0)), d1)
       else text_run X (Loop a \<lparr>p_x = x1, p_w = w1, p_text = utf8 post, p_exists = False, p_used = the (?f (hd post)),
              p_ellipsis_x = s_ellipsis_x s, p_ellipsis_w = s_ellipsis_w s\<rparr>) d1)"
  proof (cases "post = []")
    case True
    then show ?thesis using S(1,4,5) less.prems(2)
      unfolding text_run.simps [of X "Loop a p" d] goal.case Let_def s_def [symmetric]
        d1_def [symmetric] x1_def [symmetric] w1_def [symmetric] by simp
  next
    case False
    then obtain j where "s_next s = Some j" "?f (hd post) = Some j"
      using S(7) covered_dropWhile [OF less.prems(1), of P] by (cases post) (auto simp: post_def [symmetric])
    then show ?thesis using False S(1,4,5) less.prems(2)
      unfolding text_run.simps [of X "Loop a p" d] goal.case Let_def s_def [symmetric]
        d1_def [symmetric] x1_def [symmetric] w1_def [symmetric] by simp
  qed
  note eqs = d [folded d1_def] x [folded x1_def] w [folded w1_def]
  have pw: "p_w p = w1 + text_width X d ?i pre" using eqs(3) by simp
  have split: "pre @ post = cps" by (simp add: pre_def post_def)
  have R: "font_runs ?f cps = (if pre = [] then [] else [(Some (p_used p), pre)]) @ font_runs ?f post"
  proof (cases "pre = []")
    case True
    then show ?thesis using split by simp
  next
    case False
    then have "cps \<noteq> []" "P (hd cps)" unfolding pre_def by (cases cps, simp_all split: if_splits)+
    from font_runs_hd [of cps ?f "Some (p_used p)", OF this(1) this(2) [unfolded P_def]]
    have "font_runs ?f cps = (Some (p_used p), pre) # font_runs ?f post"
      unfolding pre_def post_def P_def .
    then show ?thesis using False by simp
  qed
  show ?case
  proof (cases "post = []")
    case True
    then show ?thesis using run eqs(1,2) R W by (auto simp: Let_def pw ac_simps)
  next
    case False
    obtain j where j: "?f (hd post) = Some j"
      using False covered_dropWhile [OF less.prems(1), of P] by (cases post) (auto simp: post_def [symmetric])
    let ?q = "\<lparr>p_x = x1, p_w = w1, p_text = utf8 post, p_exists = False, p_used = j,
              p_ellipsis_x = s_ellipsis_x s, p_ellipsis_w = s_ellipsis_w s\<rparr>"
    have dd: "d_fonts d1 = d_fonts d" "find_font X d1 ?i False = ?f" "text_width X d1 ?i = text_width X d ?i"
      "covered X d1 ?i = covered X d ?i" "place_runs X d1 a = place_runs X d a"
      unfolding eqs(1) by (auto simp: fun_eq_iff)
    have "length post < length cps \<or> post = cps \<and> ?f (hd cps) \<noteq> Some (p_used p)"
    proof (cases "pre = []")
      case True
      then show ?thesis using split False hd_dropWhile [of P cps] by (auto simp: post_def P_def)
    qed (use split in auto)
    then have m: "2 * length post + (if post \<noteq> [] \<and> ?f (hd post) \<noteq> Some (p_used ?q) then 1 else 0)
        < 2 * length cps + (if cps \<noteq> [] \<and> ?f (hd cps) \<noteq> Some (p_used p) then 1 else 0)"
      using False j by auto
    have IH: "text_run X (Loop a ?q) d1 =
      Some (s32 (x1 + (if render a then w1 else text_width X d ?i post)),
        if render a then draw (place_runs X d a x1 (font_runs ?f post)) d1 else d1)"
      using less.hyps [of post d1 ?q, unfolded dd, OF m] less.prems(1,2,6) fit(2) eqs(3)
        covered_dropWhile [OF less.prems(1), of P] text_width_nonneg [of X d ?i pre]
      by (simp add: dd post_def [symmetric])
    show ?thesis using run False j IH W eqs(1,2) R by (auto simp: Let_def pw ac_simps)
  qed
qed

lemma u32_s32 [simp]: "u32 (s32 x) = u32 x"
  by (simp add: u32_def s32_def Let_def mod_simps)

lemma call_measures:
  assumes "covered X d i cps" "i \<le> length (d_fonts d)" "d_fonts d \<noteq> []" "text_width X d i cps < 4294967296"
  shows "text_run X (Call (measure_call (utf8 cps) 0 i)) d = Some (s32 (text_width X d i cps), d)"
proof -
  let ?a = "measure_call (utf8 cps) 0 i"
  have m: "u32 (- 1) = 4294967295" by (simp add: u32_def)
  have "text_run X (Loop ?a \<lparr>p_x = 0, p_w = 4294967295, p_text = utf8 cps, p_exists = False, p_used = 0,
      p_ellipsis_x = 0, p_ellipsis_w = 0\<rparr>) d = Some (s32 (text_width X d i cps), d)"
    using run_covered [of X d ?a cps] assms by (simp add: measure_call_def render_def)
  then show ?thesis using assms(3) m
    by (subst text_run.simps) (simp add: measure_call_def render_def)
qed

lemma getwidth_covered:
  assumes "covered X d i cps" "i \<le> length (d_fonts d)" "text_width X d i cps < 4294967296"
  shows "drw_fontset_getwidth X (utf8 cps) i d = Some (text_width X d i cps, d)"
proof (cases "d_fonts d = []")
  case True
  then show ?thesis using assms(1) by (cases cps) (auto simp: drw_fontset_getwidth_def find_font_def)
next
  case False
  then show ?thesis using call_measures [OF assms(1,2) False assms(3)] assms(3)
    by (simp add: drw_fontset_getwidth_def drw_text_def measure_call_def)
qed

lemma invalid_mark_utf8: "invalid_mark = utf8 [0xFFFD]"
  by (simp add: invalid_mark_def utf8_encode_def encode_bytes_def char_of_def bit_0)

lemma glyph_width_width [simp]: "glyph_width X (d\<lparr>invalid_width := n\<rparr>) = glyph_width X d"
  by (intro ext) (simp add: glyph_width_def find_font_def cong: option.case_cong)

lemma covered_width [simp]: "covered X (d\<lparr>invalid_width := n\<rparr>) i cps = covered X d i cps"
  "text_width X (d\<lparr>invalid_width := n\<rparr>) i cps = text_width X d i cps"
  "find_font X (d\<lparr>invalid_width := n\<rparr>) i ex = find_font X d i ex"
  "draw rs d\<lparr>invalid_width := n\<rparr> = draw rs (d\<lparr>invalid_width := n\<rparr>)"
  by (auto simp: covered_def text_width_def find_font_def draw_def fun_eq_iff)

lemma place_runs_width [simp]: "place_runs X (d\<lparr>invalid_width := n\<rparr>) a x fs = place_runs X d a x fs"
  by (induction fs arbitrary: x) (auto simp: Let_def colour_def)

lemma text_covered:
  assumes "covered X d i cps" "i \<le> length (d_fonts d)" "d_fonts d \<noteq> []" "d_scheme d \<noteq> None"
    "0 \<le> lpad" "0 < w" "w < 4294967296" "lpad + text_width X d i cps \<le> w"
    "invalid_width d \<noteq> 0 \<or> covered X d 0 [0xFFFD]"
    "a = \<lparr>a_x = x, a_y = y, a_w = w, a_h = h, a_lpad = lpad, a_text = utf8 cps, a_invert = v, a_font = i\<rparr>"
  shows "\<exists>n. drw_text X x y w h lpad (utf8 cps) v i d = Some (s32 (x + w),
    draw ([DSetForeground (colour (v = 0) d), DFillRectangle x y w h]
          @ place_runs X d a (s32 (x + lpad)) (font_runs (find_font X d i False) cps)) (d\<lparr>invalid_width := n\<rparr>))"
proof -
  let ?rs = "[DSetForeground (colour (v = 0) d), DFillRectangle x y w h]"
  have r: "render a" using assms(6,10) by (simp add: render_def)
  obtain scm where scm: "d_scheme d = Some scm" using assms(4) by blast
  have nw: "\<not> w < lpad" using assms(8) text_width_nonneg [of X d i cps] by linarith
  have call: "text_run X (Call a) d = do {
      d \<leftarrow> (if invalid_width d = 0
           then do {
             (n, d) \<leftarrow> text_run X (Call (measure_call invalid_mark 0 0)) (draw ?rs d);
             Some (d\<lparr>invalid_width := u32 n\<rparr>) }
           else Some (draw ?rs d));
      text_run X (Loop a
        \<lparr>p_x = s32 (x + lpad), p_w = w - lpad, p_text = utf8 cps, p_exists = False, p_used = 0,
         p_ellipsis_x = 0, p_ellipsis_w = 0\<rparr>) d }"
    using assms(3,6) scm r nw unfolding text_run.simps [of X "Call a" d] by (simp add: assms(10) Let_def)
  obtain n where n: "(if invalid_width d = 0
           then do {
             (n, d) \<leftarrow> text_run X (Call (measure_call invalid_mark 0 0)) (draw ?rs d);
             Some (d\<lparr>invalid_width := u32 n\<rparr>) }
           else Some (draw ?rs d)) = Some (draw ?rs (d\<lparr>invalid_width := n\<rparr>))"
  proof (cases "invalid_width d = 0")
    case True
    have "text_width X d 0 [0xFFFD] < 4294967296"
      by (simp add: glyph_width_def split: option.split)
    then show ?thesis
      using that call_measures [of X "draw ?rs d" 0 "[0xFFFD]"] True assms(3,9)
      by (simp add: invalid_mark_utf8 del: text_width_simps)
  next
    case False
    then show ?thesis using that [of "invalid_width d"] by simp
  qed
  let ?d = "draw ?rs (d\<lparr>invalid_width := n\<rparr>)"
  have "text_run X (Loop a
        \<lparr>p_x = s32 (x + lpad), p_w = w - lpad, p_text = utf8 cps, p_exists = False, p_used = 0,
         p_ellipsis_x = 0, p_ellipsis_w = 0\<rparr>) ?d = Some (s32 (x + w),
         draw (place_runs X ?d a (s32 (x + lpad)) (font_runs (find_font X ?d i False) cps)) ?d)"
    using run_covered [of X ?d a cps] assms(1,2,5,7,8) r by (simp add: assms(10))
  then have "text_run X (Call a) d = Some (s32 (x + w),
      draw (?rs @ place_runs X d a (s32 (x + lpad)) (font_runs (find_font X d i False) cps)) (d\<lparr>invalid_width := n\<rparr>))"
    unfolding call n by (simp add: assms(2))
  then show ?thesis by (auto simp: drw_text_def assms(10))
qed

lemma font_runs_concat: "concat (map snd (font_runs f cs)) = cs"
  by (induction f cs rule: font_runs.induct) auto

lemma font_runs_font: "(v, rs) \<in> set (font_runs f cs) \<Longrightarrow> c \<in> set rs \<Longrightarrow> f c = v"
  by (induction f cs rule: font_runs.induct) (auto dest: set_takeWhileD)

section \<open>Properties\<close>

text \<open>A font server with two fonts of fixed width, and the fonts loaded from it.\<close>

definition sample_xft :: xft where
  "sample_xft =
     \<lparr>XftFontOpenName = (\<lambda>name. if name = ''SF Mono'' then Some (1, 12, 4) else if name = ''PingFang SC'' then Some (2, 12, 4) else None),
      FcNameParse = Some, XftFontOpenPattern = (\<lambda>p. Some (3, 12, 4)), XftFontMatch = (\<lambda>p cp. Some p),
      XftCharExists = (\<lambda>f cp. f = 1 \<and> cp < 128 \<or> f = 2 \<and> 0x4E00 \<le> cp \<and> cp < 0x9FFF),
      XftTextExtents = (\<lambda>f t. if f = 1 then 8 else 16), XftColorAllocName = (\<lambda>_. Some 0)\<rparr>"

definition sample_drw :: drw where
  "sample_drw = (drw_fontset_create sample_xft [''SF Mono'', ''Missing'', ''PingFang SC''] (drw_create 1920 16))
     \<lparr>d_scheme := Some [1, 2, 3], invalid_width := 8\<rparr>"

lemma sample_fonts: "d_fonts sample_drw =
    [font_of (Some ''SF Mono'') (1, 12, 4), font_of (Some ''PingFang SC'') (2, 12, 4)]"
  by (simp add: sample_drw_def drw_fontset_create_def sample_xft_def xfont_by_name_def)

lemma sample_find: "find_font sample_xft sample_drw 0 False cp =
    (if cp < 128 then Some 0 else if 0x4E00 \<le> cp \<and> cp < 0x9FFF then Some 1 else None)"
  by (simp add: find_font_def sample_fonts sample_xft_def font_of_def upt_rec)

lemma sample_extents: "XftTextExtents sample_xft f t = (if f = 1 then 8 else 16)"
  by (simp add: sample_xft_def)

lemma sample_glyph: "glyph_width sample_xft sample_drw 0 cp =
    (if cp < 128 then 8 else if 0x4E00 \<le> cp \<and> cp < 0x9FFF then 16 else 0)"
  by (simp add: glyph_width_def sample_find sample_fonts font_of_def sample_extents)



text \<open>
  C39: Searched from a later font on, as the option \<open>statusfontindex\<close> of the configuration has it,
  measuring never ends for a character that none of these fonts and no other font has.
\<close>

theorem measuring_hangs:
  assumes "scalar cp" "0 < i" "i \<le> length (d_fonts d)"
    "\<And>j. i \<le> j \<Longrightarrow> j < length (d_fonts d) \<Longrightarrow> \<not> XftCharExists X (f_xfont (d_fonts d ! j)) cp"
    "f_pattern (hd (d_fonts d)) = Some pat" "XftFontMatch X pat cp = Some m"
    "\<And>f. xfont_by_pattern X m = Some f \<Longrightarrow> \<not> XftCharExists X (f_xfont f) cp"
  shows "drw_fontset_getwidth X (utf8_encode cp @ r) i d = None"
  using hung_getwidth [OF assms(1) refl assms(2-7)] .

lemma measuring_hangs_witness: "drw_fontset_getwidth sample_xft (utf8_encode 65 @ []) 1 sample_drw = None"
  by (rule measuring_hangs [where pat = "''SF Mono''" and m = "''SF Mono''"])
    (auto simp: scalar_def sample_fonts font_of_def sample_xft_def xfont_by_pattern_def less_Suc_eq)

text \<open>
  C31: The width of a text whose characters have glyphs is the sum of the widths of its characters,
  each in the first font that has it; measuring changes nothing.
\<close>

theorem width_is_sum:
  assumes "covered X d i cps" "i \<le> length (d_fonts d)" "text_width X d i cps < 2 ^ 32"
  shows "drw_fontset_getwidth X (utf8 cps) i d = Some (text_width X d i cps, d)"
  using getwidth_covered [OF assms(1,2)] assms(3) by simp

lemma width_is_sum_witness: "drw_fontset_getwidth sample_xft (utf8 [65, 0x4E2D, 66]) 0 sample_drw = Some (32, sample_drw)"
  using width_is_sum [of sample_xft sample_drw 0 "[65, 0x4E2D, 66]"]
  by (simp add: sample_find scalar_def sample_glyph sample_fonts)



text \<open>
  C40: A text that does not fit is cut and ends with dots; where there is less space than a dot
  takes, the dots are cut in turn, and the recursion never ends: the width that the dots need is
  looked up in \<open>ellipsis_width\<close>, which nothing sets.
\<close>

theorem cut_never_ends:
  assumes "d_scheme d \<noteq> None" "ellipsis_width d = 0" "invalid_width d \<noteq> 0" "lpad < w" "0 < w"
    "cut_at X d t (w - lpad)" "cut_at X d ''...'' (w - lpad)"
  shows "drw_text X x y w h lpad t v 0 d = None"
proof (rule ccontr)
  assume "drw_text X x y w h lpad t v 0 d \<noteq> None"
  then obtain r where "text_run X (Call \<lparr>a_x = x, a_y = y, a_w = w, a_h = h, a_lpad = lpad, a_text = t,
      a_invert = v, a_font = 0\<rparr>) d = Some r" by (auto simp: drw_text_def)
  from narrow_never_ends [OF this] show False using assms by (simp add: narrow_def)
qed

lemma cut_never_ends_witness: "drw_text sample_xft 0 0 5 16 0 ''st'' 0 0 sample_drw = None"
proof (rule cut_never_ends)
  have E: "drw_font_getexts sample_xft (d_fonts sample_drw ! 0) t n = 8" for t n
    by (simp add: sample_fonts drw_font_getexts_def sample_extents font_of_def)
  show "cut_at sample_xft sample_drw ''st'' (5 - 0)" "cut_at sample_xft sample_drw ''...'' (5 - 0)"
    by (simp_all add: cut_at_def sample_find decode_1 cbyte_def E)
qed (simp_all add: sample_drw_def drw_fontset_create_def drw_create_def)

end
