(* ===== verification/Startup.thy ===== *)
theory Startup
  imports Prelude
begin

text \<open>
  What \<open>main\<close> and \<open>setup\<close> do before the state of the window manager is touched: the variables of
  the environment (\<open>initenv\<close>) and the choice of a visual with an alpha channel (\<open>xinitvisual\<close>).
  Whether \<open>setenv\<close> succeeds and which visuals there are is up to the system.
\<close>

section \<open>The environment\<close>

text \<open>One call of \<open>setenv\<close>, with the value that says whether it failed.\<close>

definition setenv :: "(string \<Rightarrow> bool) \<Rightarrow> string \<Rightarrow> string \<Rightarrow> (string \<rightharpoonup> string) \<Rightarrow> int \<times> (string \<rightharpoonup> string)" where
  "setenv works name val env = (if works name then (0, env(name \<mapsto> val)) else (-1, env))"

text \<open>The result, the environment, and the warnings.\<close>

definition initenv :: "(string \<Rightarrow> bool) \<Rightarrow> (string \<rightharpoonup> string) \<Rightarrow> int \<times> (string \<rightharpoonup> string) \<times> string list" where
  "initenv works env =
     (let (ret, env) = setenv works ''LC_ALL'' ''en_US.UTF-8'' env;
          ws = (if ret \<noteq> 0 then [''warning: no LC_ALL update''] else []);
          (ret, env) = setenv works ''LANG'' ''en_US.UTF-8'' env;
          ws = ws @ (if ret \<noteq> 0 then [''warning: no LANG update''] else [])
      in (ret, env, ws))"

text \<open>The result is that of the last call: a failure of the first one is not reported.\<close>

lemma initenv_result: "fst (initenv works env) = (if works ''LANG'' then 0 else -1)"
  by (simp add: initenv_def setenv_def)

lemma initenv_sets: "works ''LC_ALL'' \<Longrightarrow> works ''LANG'' \<Longrightarrow>
    initenv works env = (0, env(''LC_ALL'' \<mapsto> ''en_US.UTF-8'', ''LANG'' \<mapsto> ''en_US.UTF-8''), [])"
  by (simp add: initenv_def setenv_def)

section \<open>The visual\<close>

text \<open>
  A visual of the server with its depth, and its render format, which is null when the server
  has none for it: whether it is a direct one, and whether it has an alpha mask.
\<close>

record vinfo =
  v_visual :: nat
  v_depth :: nat
  v_format :: "(bool \<times> bool) option"

record screen_visual =
  sv_visual :: nat
  sv_depth :: nat
  sv_default_map :: bool
  sv_useargb :: bool

text \<open>The loop over the visuals; a null format is followed, which is a crash.\<close>

fun argb_visual :: "vinfo list \<Rightarrow> vinfo option option" where
  "argb_visual [] = Some None"
| "argb_visual (i # is) =
     do { (direct, alpha) \<leftarrow> v_format i; if direct \<and> alpha then Some (Some i) else argb_visual is }"

definition xinitvisual :: "vinfo list \<Rightarrow> nat \<Rightarrow> nat \<Rightarrow> screen_visual option" where
  "xinitvisual infos default_visual default_depth =
     do {
       v \<leftarrow> argb_visual infos;
       Some (case v of
           Some i \<Rightarrow> \<lparr>sv_visual = v_visual i, sv_depth = v_depth i, sv_default_map = False, sv_useargb = True\<rparr>
         | None \<Rightarrow> \<lparr>sv_visual = default_visual, sv_depth = default_depth, sv_default_map = True, sv_useargb = False\<rparr>) }"

lemma argb_visual_found: "argb_visual is = Some (Some i) \<Longrightarrow> i \<in> set is \<and> v_format i = Some (True, True)"
  by (induction "is") (auto split: Option.bind_splits if_splits)

lemma argb_visual_none: "argb_visual is = Some None \<Longrightarrow> i \<in> set is \<Longrightarrow> v_format i \<noteq> Some (True, True)"
  by (induction "is") (auto split: Option.bind_splits if_splits)

text \<open>With a format for every visual one is chosen, and one with alpha if there is one.\<close>

lemma xinitvisual_total:
  assumes "\<And>i. i \<in> set is \<Longrightarrow> v_format i \<noteq> None"
  shows "\<exists>v. xinitvisual is dv dd = Some v \<and> sv_useargb v = (\<exists>i \<in> set is. v_format i = Some (True, True))"
proof -
  have "argb_visual is \<noteq> None" using assms by (induction "is") (auto split: Option.bind_splits)
  then obtain r where "argb_visual is = Some r" by blast
  then show ?thesis
    using argb_visual_found [of "is"] argb_visual_none [of "is"]
    by (cases r) (auto simp: xinitvisual_def)
qed

text \<open>Without one for the first the program crashes.\<close>

lemma xinitvisual_crash: "v_format i = None \<Longrightarrow> xinitvisual (i # is) dv dd = None"
  by (simp add: xinitvisual_def)

end
