(* ===== verification/Desk.thy ===== *)
theory Desk
  imports Events ViewEffects
begin

text \<open>
  The desk: what the state means to a user. A client has a place (its monitor, its tags and
  whether it is sticky), a monitor has two tag sets of which one is in view, and nothing else
  of the state is seen here: geometry, order, focus list and layout are not.

  This theory shows which operations leave the desk as it is; what the commands do to it is the
  subject of \<open>DeskSteps\<close>.
\<close>

section \<open>The desk of a state\<close>

record place =
  on_mon :: mid
  on_tags :: "32 word"
  on_all :: bool

record desk =
  places :: "cid \<Rightarrow> place option"
  views :: "mid \<Rightarrow> (32 word \<times> 32 word) option"
  screens :: "mid list"

definition place_of :: "client \<Rightarrow> place" where
  "place_of k = \<lparr>on_mon = c_mon k, on_tags = c_tags k, on_all = c_issticky k\<rparr>"

text \<open>The tags in view, and the tags that \<open>view\<close> goes back to.\<close>

definition view_of :: "monitor \<Rightarrow> 32 word \<times> 32 word" where
  "view_of m = (tagsel m, m_tagset m ! (m_seltags m XOR 1))"

definition desk_of :: "wm \<Rightarrow> desk" where
  "desk_of s = \<lparr>places = map_option place_of \<circ> clis s, views = map_option view_of \<circ> mmem s, screens = mons s\<rparr>"

definition in_view :: "desk \<Rightarrow> cid \<Rightarrow> bool" where
  "in_view d c \<longleftrightarrow>
     (case places d c of
        None \<Rightarrow> False
      | Some p \<Rightarrow> on_all p \<or> (case views d (on_mon p) of None \<Rightarrow> False | Some (v, _) \<Rightarrow> on_tags p AND v \<noteq> 0))"

section \<open>Operations that keep the desk\<close>

text \<open>
  \<open>desk_is d p\<close>: if \<open>p\<close> ends, then with the desk \<open>d\<close>. That it ends is not said here; the rules
  therefore need nothing of the state, and follow every operation of the code.
\<close>

definition desk_is :: "desk \<Rightarrow> wm option \<Rightarrow> bool" where
  "desk_is d p \<longleftrightarrow> (\<forall>t. p = Some t \<longrightarrow> desk_of t = d)"

definition desk_with :: "desk \<Rightarrow> ('a \<times> wm) option \<Rightarrow> bool" where
  "desk_with d p \<longleftrightarrow> (\<forall>a t. p = Some (a, t) \<longrightarrow> desk_of t = d)"

named_theorems desk_intro "operations that keep the desk"

lemma desk_isD: "desk_is d p \<Longrightarrow> p = Some t \<Longrightarrow> desk_of t = d"
  by (simp add: desk_is_def)

lemma desk_end [desk_intro]:
  "desk_of t = d \<Longrightarrow> desk_is d (Some t)"
  "desk_of t = d \<Longrightarrow> desk_with d (Some (a, t))"
  "desk_is d None" "desk_with d None"
  by (simp_all add: desk_is_def desk_with_def)

lemma desk_bind [desk_intro]:
  "desk_is d p \<Longrightarrow> (\<And>t. desk_of t = d \<Longrightarrow> desk_is d (f t)) \<Longrightarrow> desk_is d (p \<bind> f)"
  "desk_is d p \<Longrightarrow> (\<And>t. desk_of t = d \<Longrightarrow> desk_with d (h t)) \<Longrightarrow> desk_with d (p \<bind> h)"
  unfolding desk_is_def desk_with_def by (metis bind_eq_Some_conv)+

lemma desk_bind_with [desk_intro]:
  assumes "desk_with d q"
  shows "(\<And>a t. desk_of t = d \<Longrightarrow> desk_is d (g (a, t))) \<Longrightarrow> desk_is d (q \<bind> g)"
    "(\<And>a t. desk_of t = d \<Longrightarrow> desk_with d (k (a, t))) \<Longrightarrow> desk_with d (q \<bind> k)"
proof -
  consider "q = None" | a t where "q = Some (a, t)" "desk_of t = d"
    using assms by (cases q) (auto simp: desk_with_def)
  note c = this
  show "desk_is d (q \<bind> g)" if "\<And>a t. desk_of t = d \<Longrightarrow> desk_is d (g (a, t))"
    using c by cases (simp_all add: that desk_end)
  show "desk_with d (q \<bind> k)" if "\<And>a t. desk_of t = d \<Longrightarrow> desk_with d (k (a, t))"
    using c by cases (simp_all add: that desk_end)
qed

text \<open>Reading a value; this rule comes last.\<close>

lemma desk_read:
  "(\<And>x. desk_is d (f x)) \<Longrightarrow> desk_is d (r \<bind> f)"
  "(\<And>x. desk_with d (g x)) \<Longrightarrow> desk_with d (r \<bind> g)"
  by (auto simp: desk_is_def desk_with_def bind_eq_Some_conv)

lemma desk_branch [desk_intro]:
  "(b \<Longrightarrow> desk_is d p) \<Longrightarrow> (\<not> b \<Longrightarrow> desk_is d q) \<Longrightarrow> desk_is d (if b then p else q)"
  "(b \<Longrightarrow> desk_with d p') \<Longrightarrow> (\<not> b \<Longrightarrow> desk_with d q') \<Longrightarrow> desk_with d (if b then p' else q')"
  by simp_all

lemma desk_cases [desk_intro]:
  "desk_is d p \<Longrightarrow> (\<And>x. desk_is d (f x)) \<Longrightarrow> desk_is d (case z of None \<Rightarrow> p | Some x \<Rightarrow> f x)"
  "(\<And>x y. w = (x, y) \<Longrightarrow> desk_is d (g x y)) \<Longrightarrow> desk_is d (case w of (x, y) \<Rightarrow> g x y)"
  "(\<And>x y. w = (x, y) \<Longrightarrow> desk_with d (h x y)) \<Longrightarrow> desk_with d (case w of (x, y) \<Rightarrow> h x y)"
  "(\<And>x y. w = (x, y) \<Longrightarrow> desk_is d (l x y v)) \<Longrightarrow> desk_is d ((case w of (x, y) \<Rightarrow> l x y) v)"
  "(\<And>x y. w = (x, y) \<Longrightarrow> desk_with d (n x y v)) \<Longrightarrow> desk_with d ((case w of (x, y) \<Rightarrow> n x y) v)"
  by (simp_all split: option.split prod.split)

lemma desk_each [desk_intro]:
  assumes "desk_of t = d" "\<And>x u. desk_of u = d \<Longrightarrow> desk_is d (f x u)"
  shows "desk_is d (each f xs t)"
  using assms(1)
  by (induction xs arbitrary: t) (simp_all add: desk_end desk_bind assms(2))

lemma desk_each_from [desk_intro]:
  assumes "desk_of t = d" "\<And>i x u. desk_of u = d \<Longrightarrow> desk_is d (f i x u)"
  shows "desk_is d (each_from i f xs t)"
  using assms(1)
  by (induction xs arbitrary: i t) (simp_all add: desk_end desk_bind assms(2))

lemma desk_each_with [desk_intro]:
  assumes "desk_of t = d" "\<And>i x a u. desk_of u = d \<Longrightarrow> desk_with d (f i x (a, u))"
  shows "desk_with d (each_from i f xs (a, t))"
  using assms(1)
  by (induction xs arbitrary: i a t) (simp_all add: desk_end desk_bind_with assms(2))

text \<open>What an update may change.\<close>

lemmas desk_simps = place_of_def view_of_def tagsel_def Let_def
  save_geometry_def barpos_def setgaps_mon_def resetmfact_mon_def

lemma setlayout_view [simp]: "view_of (setlayout_mon v k) = view_of k"
  by (simp add: setlayout_mon_def Let_def view_of_def tagsel_def split: option.split)

lemma desk_modc [desk_intro]:
  "desk_of t = d \<Longrightarrow> (\<And>k. place_of (f k) = place_of k) \<Longrightarrow> desk_is d (modc c f t)"
  by (auto simp: desk_is_def desk_of_def modc_def bind_eq_Some_conv fun_eq_iff)

lemma desk_modm [desk_intro]:
  "desk_of t = d \<Longrightarrow> (\<And>k. view_of (f k) = view_of k) \<Longrightarrow> desk_is d (modm m f t)"
  by (auto simp: desk_is_def desk_of_def modm_def bind_eq_Some_conv fun_eq_iff)

lemma desk_fields [simp]:
  "desk_of (emit r t) = desk_of t" "desk_of (t\<lparr>selmon := m\<rparr>) = desk_of t"
  "desk_of (t\<lparr>prevclient := p\<rparr>) = desk_of t" "desk_of (t\<lparr>lastfocusedwin := w\<rparr>) = desk_of t"
  "desk_of (t\<lparr>running := b\<rparr>) = desk_of t" "desk_of (t\<lparr>restart := b\<rparr>) = desk_of t"
  "desk_of (updatenumlockmask E t) = desk_of t"
  by (simp_all add: desk_of_def emit_def updatenumlockmask_def)

lemma desk_quit [simp]: "desk_of (quit i t) = desk_of t"
proof -
  have "desk_of (fold (\<lambda>p s. if 0 < p then emit (WaitPid p) (emit (KillPid p) s) else s) ps t) = desk_of t" for ps
    by (induction ps arbitrary: t) simp_all
  then show ?thesis by (simp add: quit_def Let_def)
qed

lemma desk_emits [simp]: "desk_of (fold emit rs t) = desk_of t"
  by (induction rs arbitrary: t) simp_all

lemma desk_drw_text [simp]: "desk_of (snd (drw_text x y w h l tx i f t)) = desk_of t"
  by (simp add: drw_text_def)

lemma desk_draws:
  "drw_text x y w h l tx i f t = (r, u) \<Longrightarrow> desk_of u = desk_of t"
  "draw_status E m k t = (r, u) \<Longrightarrow> desk_of u = desk_of t"
  by (auto simp: drw_text_def draw_status_def Let_def split: if_splits)

text \<open>Properties, grabs and the pointer.\<close>

lemma sendevent_desk [desk_intro]: "desk_of t = d \<Longrightarrow> desk_with d (sendevent E c p t)"
  unfolding sendevent_def Let_def by (intro desk_intro desk_read) (simp_all add: desk_simps)

lemma setfocus_desk [desk_intro]: "desk_of t = d \<Longrightarrow> desk_is d (setfocus E c t)"
  unfolding setfocus_def Let_def by (intro desk_intro desk_read) (simp_all add: desk_simps)

lemma configure_desk [desk_intro]: "desk_of t = d \<Longrightarrow> desk_is d (configure c t)"
  unfolding configure_def by (intro desk_intro desk_read) (simp_all add: desk_simps)

lemma killthis_desk [desk_intro]: "desk_of t = d \<Longrightarrow> desk_is d (killthis E c t)"
  unfolding killthis_def by (intro desk_intro desk_read) (simp_all add: desk_simps)

lemma grabbuttons_desk [desk_intro]: "desk_of t = d \<Longrightarrow> desk_is d (grabbuttons E c b t)"
  unfolding grabbuttons_def Let_def by (intro desk_intro desk_read) (simp_all add: desk_simps)

lemma seturgent_desk [desk_intro]: "desk_of t = d \<Longrightarrow> desk_is d (seturgent E c b t)"
  unfolding seturgent_def by (intro desk_intro desk_read) (simp_all add: desk_simps)

lemma updateclientdesktop_desk [desk_intro]: "desk_of t = d \<Longrightarrow> desk_is d (updateclientdesktop E c t)"
  unfolding updateclientdesktop_def by (intro desk_intro desk_read) (simp_all add: desk_simps)

lemma updatecurrentdesktop_desk [desk_intro]: "desk_of t = d \<Longrightarrow> desk_is d (updatecurrentdesktop E t)"
  unfolding updatecurrentdesktop_def by (intro desk_intro desk_read) (simp_all add: desk_simps)

lemma warp_desk [desk_intro]: "desk_of t = d \<Longrightarrow> desk_is d (warp E co t)"
  unfolding warp_def by (intro desk_intro desk_read) (simp_all add: desk_simps)

text \<open>Geometry and the bar.\<close>

lemma updatesizehints_desk [desk_intro]: "desk_of t = d \<Longrightarrow> desk_is d (updatesizehints E c t)"
  unfolding updatesizehints_def by (intro desk_intro desk_read) (simp_all add: desk_simps hints_of_def Let_def split: prod.split)

lemma applysizehints_desk [desk_intro]: "desk_of t = d \<Longrightarrow> desk_with d (applysizehints E c g i t)"
  unfolding applysizehints_def Let_def by (intro desk_intro desk_read) (simp_all add: desk_simps)

lemma resizeclient_desk [desk_intro]: "desk_of t = d \<Longrightarrow> desk_is d (resizeclient E c x y w h t)"
  unfolding resizeclient_def Let_def by (intro desk_intro desk_read) (simp_all add: desk_simps)

lemma resize_desk [desk_intro]: "desk_of t = d \<Longrightarrow> desk_is d (resize E c x y w h i t)"
  unfolding resize_def by (intro desk_intro desk_read) (simp_all add: desk_simps)

lemma draw_tags_desk [desk_intro]: "desk_of t = d \<Longrightarrow> desk_with d (draw_tags E m k occ u t)"
  unfolding draw_tags_def Let_def by (intro desk_intro desk_read) (simp_all add: desk_simps)

lemma count_symbol_desk [desk_intro]: "desk_of t = d \<Longrightarrow> desk_is d (count_symbol E m k t)"
  unfolding count_symbol_def by (intro desk_intro desk_read) (simp_all add: desk_simps)

lemma draw_title_desk [desk_intro]: "desk_of t = d \<Longrightarrow> desk_is d (draw_title E m c x w t)"
  unfolding draw_title_def Let_def by (intro desk_intro desk_read) (simp_all add: desk_simps)

lemma drawbar_desk [desk_intro]: "desk_of t = d \<Longrightarrow> desk_is d (drawbar E m t)"
  unfolding drawbar_def Let_def by (intro desk_intro desk_read) (auto dest: desk_draws)

lemma drawbars_desk [desk_intro]: "desk_of t = d \<Longrightarrow> desk_is d (drawbars E t)"
  unfolding drawbars_def by (intro desk_intro desk_read) (simp_all add: desk_simps)

lemma updatebarpos_desk [desk_intro]: "desk_of t = d \<Longrightarrow> desk_is d (updatebarpos m t)"
  unfolding updatebarpos_def by (intro desk_intro desk_read) (simp_all add: desk_simps)

text \<open>Layouts.\<close>

lemma resize_slot_desk [desk_intro]: "desk_of t = d \<Longrightarrow> desk_is d (resize_slot E c a t)"
  unfolding resize_slot_def by (intro desk_intro desk_read) (simp_all add: desk_simps)

lemma tile_gaps_desk [desk_intro]: "desk_of t = d \<Longrightarrow> desk_with d (tile_gaps E k n x w h i c (a, t))"
  unfolding tile_gaps_def Let_def by (intro desk_intro desk_read) (simp_all add: desk_simps)

lemma tile_plain_desk [desk_intro]: "desk_of t = d \<Longrightarrow> desk_with d (tile_plain E k n x w h i c (a, t))"
  unfolding tile_plain_def Let_def by (intro desk_intro desk_read) (simp_all add: desk_simps)

lemma bstack_gaps_desk [desk_intro]: "desk_of t = d \<Longrightarrow> desk_with d (bstack_gaps E k n x w h i c (a, t))"
  unfolding bstack_gaps_def Let_def by (intro desk_intro desk_read) (simp_all add: desk_simps)

lemma bstack_plain_desk [desk_intro]: "desk_of t = d \<Longrightarrow> desk_with d (bstack_plain E k n h w y i c (a, t))"
  unfolding bstack_plain_def Let_def by (intro desk_intro desk_read) (simp_all add: desk_simps)

lemma tile_desk [desk_intro]: "desk_of t = d \<Longrightarrow> desk_is d (tile E m t)"
  unfolding tile_def Let_def by (intro desk_intro desk_read) (simp_all add: desk_simps)

lemma bstack_desk [desk_intro]: "desk_of t = d \<Longrightarrow> desk_is d (bstack E m t)"
  unfolding bstack_def Let_def by (intro desk_intro desk_read) (simp_all add: desk_simps)

lemma doubledeck_desk [desk_intro]: "desk_of t = d \<Longrightarrow> desk_is d (doubledeck E m t)"
  unfolding doubledeck_def Let_def by (intro desk_intro desk_read) (simp_all add: desk_simps)

lemma zetadeck_desk [desk_intro]: "desk_of t = d \<Longrightarrow> desk_is d (zetadeck E m t)"
  unfolding zetadeck_def Let_def by (intro desk_intro desk_read) (simp_all add: desk_simps)

lemma monocle_desk [desk_intro]: "desk_of t = d \<Longrightarrow> desk_is d (monocle E m t)"
  unfolding monocle_def Let_def by (intro desk_intro desk_read) (simp_all add: desk_simps)

lemma grid_desk [desk_intro]: "desk_of t = d \<Longrightarrow> desk_is d (grid E m t)"
  unfolding grid_def Let_def by (intro desk_intro desk_read) (simp_all add: desk_simps)

lemma clear_desk [desk_intro]: "desk_of t = d \<Longrightarrow> desk_is d (clear E m t)"
  unfolding clear_def Let_def by (intro desk_intro desk_read) (simp_all add: desk_simps)

lemma run_layout_desk [desk_intro]: "desk_of t = d \<Longrightarrow> desk_is d (run_layout a E m t)"
  unfolding run_layout_def by (cases a) (simp_all add: desk_intro)

lemma arrangemon_desk [desk_intro]: "desk_of t = d \<Longrightarrow> desk_is d (arrangemon E m t)"
  unfolding arrangemon_def by (intro desk_intro desk_read) (simp_all add: desk_simps)

text \<open>Lists and focus.\<close>

lemma attach_desk [desk_intro]: "desk_of t = d \<Longrightarrow> desk_is d (attach c t)"
  unfolding attach_def by (intro desk_intro desk_read) (simp_all add: desk_simps)

lemma attachstack_desk [desk_intro]: "desk_of t = d \<Longrightarrow> desk_is d (attachstack c t)"
  unfolding attachstack_def by (intro desk_intro desk_read) (simp_all add: desk_simps)

lemma attachx_desk [desk_intro]: "desk_of t = d \<Longrightarrow> desk_is d (attachx E c t)"
  unfolding attachx_def by (intro desk_intro desk_read) (simp_all add: desk_simps)

lemma detach_desk [desk_intro]: "desk_of t = d \<Longrightarrow> desk_is d (detach E c t)"
  unfolding detach_def by (intro desk_intro desk_read) (simp_all add: desk_simps)

lemma detachstack_desk [desk_intro]: "desk_of t = d \<Longrightarrow> desk_is d (detachstack c t)"
  unfolding detachstack_def by (intro desk_intro desk_read) (simp_all add: desk_simps)

lemma enqueue_desk [desk_intro]: "desk_of t = d \<Longrightarrow> desk_is d (enqueue c t)"
  unfolding enqueue_def by (intro desk_intro desk_read) (simp_all add: desk_simps)

lemma enqueuestack_desk [desk_intro]: "desk_of t = d \<Longrightarrow> desk_is d (enqueuestack c t)"
  unfolding enqueuestack_def by (intro desk_intro desk_read) (simp_all add: desk_simps)

lemma unfocus_desk [desk_intro]: "desk_of t = d \<Longrightarrow> desk_is d (unfocus E co b t)"
  unfolding unfocus_def Let_def by (intro desk_intro desk_read) (simp_all add: desk_simps)

lemma focus_client_desk [desk_intro]: "desk_of t = d \<Longrightarrow> desk_is d (focus_client E c t)"
  unfolding focus_client_def Let_def by (intro desk_intro desk_read) (simp_all add: desk_simps)

lemma focus_desk [desk_intro]: "desk_of t = d \<Longrightarrow> desk_is d (focus E co t)"
  unfolding focus_def by (intro desk_intro desk_read) (simp_all add: desk_simps)

lemma showhide_desk [desk_intro]: "desk_of t = d \<Longrightarrow> desk_is d (showhide E cs t)"
proof (induction cs arbitrary: t)
  case (Cons c cs)
  show ?case
    unfolding showhide.simps Let_def by (intro Cons.IH desk_intro desk_read) (simp_all add: Cons.prems)
qed (simp add: desk_end)

lemma stack_below_desk [desk_intro]: "desk_of t = d \<Longrightarrow> desk_with d (stack_below cs (w, t))"
  unfolding stack_below_def by (intro desk_intro desk_read) (auto intro: desk_intro)

lemma restack_desk [desk_intro]: "desk_of t = d \<Longrightarrow> desk_is d (restack E m t)"
  unfolding restack_def Let_def by (intro desk_intro desk_read) (simp_all add: desk_simps)

lemma arrange_desk [desk_intro]: "desk_of t = d \<Longrightarrow> desk_is d (arrange E mo t)"
  unfolding arrange_def by (intro desk_intro desk_read) (simp_all add: desk_simps)

text \<open>Commands on focus and order.\<close>

lemma focusmaster_desk [desk_intro]: "desk_of t = d \<Longrightarrow> desk_is d (focusmaster E t)"
  unfolding focusmaster_def Let_def by (intro desk_intro desk_read) (simp_all add: desk_simps)

lemma focusstack_desk [desk_intro]: "desk_of t = d \<Longrightarrow> desk_is d (focusstack E i t)"
  unfolding focusstack_def by (intro desk_intro desk_read) (simp_all add: desk_simps)

lemma focussame_desk [desk_intro]: "desk_of t = d \<Longrightarrow> desk_is d (focussame E i t)"
  unfolding focussame_def Let_def by (intro desk_intro desk_read) (simp_all add: desk_simps)

lemma swapfocus_desk [desk_intro]: "desk_of t = d \<Longrightarrow> desk_is d (swapfocus E t)"
  unfolding swapfocus_def by (intro desk_intro desk_read) (simp_all add: desk_simps)

lemma focusmon_desk [desk_intro]: "desk_of t = d \<Longrightarrow> desk_is d (focusmon E i t)"
  unfolding focusmon_def by (intro desk_intro desk_read) (simp_all add: desk_simps)

lemma rotatestack_desk [desk_intro]: "desk_of t = d \<Longrightarrow> desk_is d (rotatestack E i t)"
  unfolding rotatestack_def Let_def by (intro desk_intro desk_read) (simp_all add: desk_simps)

lemma pop_desk [desk_intro]: "desk_of t = d \<Longrightarrow> desk_is d (pop E c t)"
  unfolding pop_def by (intro desk_intro desk_read) (simp_all add: desk_simps)

lemma zoom_desk [desk_intro]: "desk_of t = d \<Longrightarrow> desk_is d (zoom E t)"
  unfolding zoom_def Let_def by (intro desk_intro desk_read) (simp_all add: desk_simps)

text \<open>Commands on floating clients.\<close>

lemma togglefloating_desk [desk_intro]: "desk_of t = d \<Longrightarrow> desk_is d (togglefloating E t)"
  unfolding togglefloating_def Let_def by (intro desk_intro desk_read) (simp_all add: desk_simps)

lemma setfullscreen_desk [desk_intro]: "desk_of t = d \<Longrightarrow> desk_is d (setfullscreen E c b t)"
  unfolding setfullscreen_def Let_def by (intro desk_intro desk_read) (simp_all add: desk_simps)

lemma togglefullscr_desk [desk_intro]: "desk_of t = d \<Longrightarrow> desk_is d (togglefullscr E t)"
  unfolding togglefullscr_def by (intro desk_intro desk_read) (simp_all add: desk_simps)

lemma moveclient_desk [desk_intro]: "desk_of t = d \<Longrightarrow> desk_is d (moveclient E x y w h t)"
  unfolding moveclient_def Let_def by (intro desk_intro desk_read) (simp_all add: desk_simps)

lemma maximize_desk [desk_intro]: "desk_of t = d \<Longrightarrow> desk_is d (maximize E x y w h t)"
  unfolding maximize_def Let_def by (intro desk_intro desk_read) (simp_all add: desk_simps)

lemma fmaximize_desk [desk_intro]: "desk_of t = d \<Longrightarrow> desk_is d (fmaximize E a t)"
  unfolding fmaximize_def Let_def by (intro desk_intro desk_read) (simp_all add: desk_simps)

lemma fsnap_desk [desk_intro]: "desk_of t = d \<Longrightarrow> desk_is d (fsnap E a t)"
  unfolding fsnap_def Let_def by (intro desk_intro desk_read) (simp_all add: desk_simps)

lemma fdeck_desk [desk_intro]: "desk_of t = d \<Longrightarrow> desk_is d (fdeck E a t)"
  unfolding fdeck_def Let_def by (intro desk_intro desk_read) (simp_all add: desk_simps)

lemma setwfact_desk [desk_intro]: "desk_of t = d \<Longrightarrow> desk_is d (setwfact E f t)"
  unfolding setwfact_def Let_def by (intro desk_intro desk_read) (simp_all add: desk_simps)

lemma sethfact_desk [desk_intro]: "desk_of t = d \<Longrightarrow> desk_is d (sethfact E f t)"
  unfolding sethfact_def Let_def by (intro desk_intro desk_read) (simp_all add: desk_simps)

lemma incfloat_desk [desk_intro]: "desk_of t = d \<Longrightarrow> desk_is d (incfloat E i t)"
  unfolding incfloat_def by (intro desk_intro desk_read) (simp_all add: desk_simps)

text \<open>Commands on layouts.\<close>

lemma setlayout_desk [desk_intro]: "desk_of t = d \<Longrightarrow> desk_is d (setlayout E v t)"
  unfolding setlayout_def by (intro desk_intro desk_read, simp_all only: setlayout_view) (simp_all add: desk_simps)

lemma cyclelayout_desk [desk_intro]: "desk_of t = d \<Longrightarrow> desk_is d (cyclelayout E i t)"
  unfolding cyclelayout_def by (intro desk_intro desk_read) (simp add: desk_intro desk_read split: lptr.split)

lemma setgaps_desk [desk_intro]: "desk_of t = d \<Longrightarrow> desk_is d (setgaps E i t)"
  unfolding setgaps_def by (intro desk_intro desk_read) (simp_all add: desk_simps)

lemma incnmaster_desk [desk_intro]: "desk_of t = d \<Longrightarrow> desk_is d (incnmaster E i t)"
  unfolding incnmaster_def by (intro desk_intro desk_read) (simp_all add: desk_simps)

lemma resetnmaster_desk [desk_intro]: "desk_of t = d \<Longrightarrow> desk_is d (resetnmaster E u t)"
  unfolding resetnmaster_def by (intro desk_intro desk_read) (simp_all add: desk_simps)

lemma setmfact_desk [desk_intro]: "desk_of t = d \<Longrightarrow> desk_is d (setmfact E f t)"
  unfolding setmfact_def Let_def by (intro desk_intro desk_read) (simp_all add: desk_simps)

lemma setsmfact_desk [desk_intro]: "desk_of t = d \<Longrightarrow> desk_is d (setsmfact E f t)"
  unfolding setsmfact_def Let_def by (intro desk_intro desk_read) (simp_all add: desk_simps)

lemma resetmfact_desk [desk_intro]: "desk_of t = d \<Longrightarrow> desk_is d (resetmfact E t)"
  unfolding resetmfact_def by (intro desk_intro desk_read) (simp_all add: desk_simps)

lemma togglebar_desk [desk_intro]: "desk_of t = d \<Longrightarrow> desk_is d (togglebar E t)"
  unfolding togglebar_def Let_def by (intro desk_intro desk_read) (simp_all add: desk_simps)

lemma killclient_desk [desk_intro]: "desk_of t = d \<Longrightarrow> desk_is d (killclient E u t)"
  unfolding killclient_def by (intro desk_intro desk_read) (simp_all add: desk_simps)

lemma spawn_desk [desk_intro]: "desk_of t = d \<Longrightarrow> desk_is d (spawn E cmd t)"
  by (simp add: spawn_def fork_exec_def desk_end Let_def split: prod.split)

end
