(* ===== verification/DeskSteps.thy ===== *)
theory DeskSteps
  imports Desk Safety
begin

text \<open>
  What each command does to the desk (\<open>desk_step\<close>), and that the command of the model does exactly
  that (\<open>run_action_refines\<close>). On the specification it is then a small step that every client keeps
  a valid set of tags (\<open>desk_step_ok\<close>).
\<close>

section \<open>Updates of a desk\<close>

definition re_place :: "(cid \<Rightarrow> place \<Rightarrow> bool) \<Rightarrow> (place \<Rightarrow> place) \<Rightarrow> desk \<Rightarrow> desk" where
  "re_place P f d = d\<lparr>places := \<lambda>c. map_option (\<lambda>p. if P c p then f p else p) (places d c)\<rparr>"

definition re_view :: "mid \<Rightarrow> (32 word \<times> 32 word \<Rightarrow> 32 word \<times> 32 word) \<Rightarrow> desk \<Rightarrow> desk" where
  "re_view m f d = d\<lparr>views := (views d)(m := map_option f (views d m))\<rparr>"

definition view_step :: "config \<Rightarrow> mid \<Rightarrow> 32 word \<Rightarrow> desk \<Rightarrow> desk" where
  "view_step cf m u = re_view m (\<lambda>(v, w).
     if u AND TAGMASK cf = v then (v, w)
     else if u AND TAGMASK cf = 0 then (w, v) else (u AND TAGMASK cf, v))"

text \<open>The tags of a place are updated unless none would be left.\<close>

definition tag_step :: "config \<Rightarrow> (32 word \<Rightarrow> 32 word) \<Rightarrow> cid option \<Rightarrow> desk \<Rightarrow> desk" where
  "tag_step cf f co = re_place (\<lambda>c p. co = Some c \<and> f (on_tags p) \<noteq> 0) (\<lambda>p. p\<lparr>on_tags := f (on_tags p)\<rparr>)"

definition shown_tags :: "desk \<Rightarrow> mid \<Rightarrow> 32 word" where
  "shown_tags d m = (case views d m of None \<Rightarrow> 0 | Some (v, _) \<Rightarrow> v)"

text \<open>Exchanging two tag sets on a monitor that shows exactly one tag.\<close>

definition swap_word :: "32 word \<Rightarrow> 32 word \<Rightarrow> 32 word \<Rightarrow> 32 word" where
  "swap_word new cur t =
     (let x = (if t AND new \<noteq> 0 \<or> t AND cur \<noteq> 0 then t XOR (cur XOR new) else t)
      in if x = 0 then new else x)"

definition swap_step :: "config \<Rightarrow> mid \<Rightarrow> 32 word \<Rightarrow> desk \<Rightarrow> desk" where
  "swap_step cf m u d =
     (let new = u AND TAGMASK cf; cur = shown_tags d m
      in if new = cur \<or> cur = 0 \<or> cur AND (cur - 1) \<noteq> 0 then d
         else re_view m (\<lambda>(v, w). (new, w))
                (re_place (\<lambda>c p. on_mon p = m) (\<lambda>p. p\<lparr>on_tags := swap_word new cur (on_tags p)\<rparr>) d))"

definition turn :: "nat \<Rightarrow> int \<Rightarrow> 32 word \<Rightarrow> 32 word" where
  "turn n i v =
     (let r = nat \<bar>i\<bar>
      in (if i < 0 then drop_bit r v OR push_bit (n - r) v else push_bit r v OR drop_bit (n - r) v)
         AND tagmask n)"

definition rotate_step :: "config \<Rightarrow> mid \<Rightarrow> int \<Rightarrow> desk \<Rightarrow> desk" where
  "rotate_step cf m i = re_view m (\<lambda>(v, w). if turn (ntags cf) i v \<noteq> 0 then (turn (ntags cf) i v, w) else (v, w))"

text \<open>The tags that have a client on a monitor.\<close>

definition used_tags :: "desk \<Rightarrow> mid \<Rightarrow> 32 word" where
  "used_tags d m =
     fold (\<lambda>j w. if \<exists>c p. places d c = Some p \<and> on_mon p = m \<and> bit (on_tags p) j then w OR push_bit j 1 else w) [0..<32] 0"

text \<open>The neighbour of a monitor on the ring of monitors.\<close>

definition neighbour :: "int \<Rightarrow> mid \<Rightarrow> desk \<Rightarrow> mid" where
  "neighbour i m d =
     (if i > 0 then hd (after m (screens d) @ screens d) else last (screens d @ before m (screens d)))"

definition move_to :: "desk \<Rightarrow> mid \<Rightarrow> place \<Rightarrow> place" where
  "move_to d m p = p\<lparr>on_mon := m, on_tags := shown_tags d m\<rparr>"

definition send_step :: "mid \<Rightarrow> cid option \<Rightarrow> desk \<Rightarrow> desk" where
  "send_step m co d = re_place (\<lambda>c p. co = Some c \<and> on_mon p \<noteq> m) (move_to d m) d"

text \<open>The clients in view on two monitors change places.\<close>

definition exchange_step :: "mid \<Rightarrow> mid \<Rightarrow> desk \<Rightarrow> desk" where
  "exchange_step m n d =
     re_place (\<lambda>c p. in_view d c \<and> (on_mon p = m \<or> on_mon p = n))
       (\<lambda>p. move_to d (if on_mon p = m then n else m) p) d"

text \<open>
  The commands: \<open>m\<close> is the selected monitor and \<open>co\<close> its selected client. Every other command
  leaves the desk as it is.
\<close>

fun desk_step :: "config \<Rightarrow> mid \<Rightarrow> cid option \<Rightarrow> action \<Rightarrow> desk \<Rightarrow> desk" where
  "desk_step cf m co (View u) d = view_step cf m u d"
| "desk_step cf m co (Toggleview u) d =
     re_view m (\<lambda>(v, w). if v XOR (u AND TAGMASK cf) \<noteq> 0 then (v XOR (u AND TAGMASK cf), w) else (v, w)) d"
| "desk_step cf m co (Tag u) d =
     (let d' = tag_step cf (\<lambda>_. u AND TAGMASK cf) co d
      in if co \<noteq> None \<and> u AND TAGMASK cf \<noteq> 0 \<and> viewontag cf \<and> u AND TAGMASK cf \<noteq> TAGMASK cf
         then view_step cf m u d' else d')"
| "desk_step cf m co (Toggletag u) d = tag_step cf (\<lambda>t. t XOR (u AND TAGMASK cf)) co d"
| "desk_step cf m co (Swaptag u) d = swap_step cf m u d"
| "desk_step cf m co (Rotatetags i) d = rotate_step cf m i d"
| "desk_step cf m co (Shiftviewclients i) d =
     (case shift_loop (ntags cf) i (used_tags d m) (shown_tags d m) of
        None \<Rightarrow> d | Some w \<Rightarrow> view_step cf m w d)"
| "desk_step cf m co (Tagmon i) d =
     (if length (screens d) < 2 then d else send_step (neighbour i m d) co d)"
| "desk_step cf m co (Tagswapmon i) d =
     (if length (screens d) < 2 then d else exchange_step m (neighbour i m d) d)"
| "desk_step cf m co Togglesticky d =
     re_place (\<lambda>c p. co = Some c) (\<lambda>p. p\<lparr>on_all := \<not> on_all p\<rparr>) d"
| "desk_step cf m co a d = d"

section \<open>Updates of the state\<close>

lemma views_desk [simp]: "views (desk_of s) m = map_option view_of (mmem s m)"
  "places (desk_of s) c = map_option place_of (clis s c)" "screens (desk_of s) = mons s"
  by (simp_all add: desk_of_def)

lemma shown_tags_desk: "mmem s m = Some k \<Longrightarrow> shown_tags (desk_of s) m = tagsel k"
  by (simp add: shown_tags_def view_of_def)

lemma in_view_desk: "ISVISIBLE s c = Some v \<Longrightarrow> in_view (desk_of s) c = v"
  by (auto simp: in_view_def ISVISIBLE_def ISVISIBLEONTAG_def place_of_def view_of_def bind_eq_Some_conv)

lemma modm_re_view:
  assumes "mmem s m = Some k" "view_of (g k) = f (view_of k)"
  shows "desk_is (re_view m f (desk_of s)) (modm m g s)"
  using assms by (simp add: modm_def desk_is_def re_view_def desk_of_def fun_eq_iff)

lemma modc_re_place:
  assumes "clis s c = Some k" "place_of (g k) = (if P c (place_of k) then f (place_of k) else place_of k)"
    "\<And>b j. clis s b = Some j \<Longrightarrow> b \<noteq> c \<Longrightarrow> \<not> P b (place_of j)"
  shows "desk_is (re_place P f (desk_of s)) (modc c g s)"
  using assms by (auto simp: modc_def desk_is_def re_place_def desk_of_def fun_eq_iff option.map_comp intro!: option.map_cong0)

lemma re_view_same: "(\<And>x. views d m = Some x \<Longrightarrow> f x = x) \<Longrightarrow> re_view m f d = d"
  by (cases "views d m") (simp_all add: re_view_def fun_upd_idem)

lemma re_place_same: "(\<And>c p. places d c = Some p \<Longrightarrow> P c p \<Longrightarrow> f p = p) \<Longrightarrow> re_place P f d = d"
proof -
  assume a: "\<And>c p. places d c = Some p \<Longrightarrow> P c p \<Longrightarrow> f p = p"
  have "map_option (\<lambda>p. if P c p then f p else p) (places d c) = places d c" for c
    using a by (cases "places d c") auto
  then show ?thesis by (simp add: re_place_def)
qed

lemma re_place_cong:
  assumes "\<And>c p. places d c = Some p \<Longrightarrow> (if P c p then f p else p) = (if Q c p then g p else p)"
  shows "re_place P f d = re_place Q g d"
proof -
  have "map_option (\<lambda>p. if P c p then f p else p) (places d c) = map_option (\<lambda>p. if Q c p then g p else p) (places d c)" for c
    using assms by (cases "places d c") auto
  then show ?thesis by (simp add: re_place_def)
qed

lemma re_place_two:
  assumes "\<And>c p. places d c = Some p \<Longrightarrow>
    (if Q c (if P c p then f p else p) then g (if P c p then f p else p) else if P c p then f p else p) = (if R c p then h p else p)"
  shows "re_place Q g (re_place P f d) = re_place R h d"
proof -
  have "map_option (\<lambda>p. if Q c p then g p else p) (map_option (\<lambda>p. if P c p then f p else p) (places d c))
      = map_option (\<lambda>p. if R c p then h p else p) (places d c)" for c
    using assms [of c] by (cases "places d c") auto
  then show ?thesis by (simp add: re_place_def del: option.map_comp)
qed

text \<open>A step to another desk, when more is known of the step.\<close>

lemma desk_then: "desk_is d p \<Longrightarrow> (\<And>t. desk_of t = d \<Longrightarrow> desk_is d' (f t)) \<Longrightarrow> desk_is d' (p \<bind> f)"
  unfolding desk_is_def by (metis bind_eq_Some_conv)

lemma desk_then_res:
  "desk_is d p \<Longrightarrow> res Q p \<Longrightarrow> (\<And>t. desk_of t = d \<Longrightarrow> Q t \<Longrightarrow> desk_is d' (f t)) \<Longrightarrow> desk_is d' (p \<bind> f)"
  unfolding res_iff using desk_isD by force

text \<open>The end of the commands on tags.\<close>

lemma desk_refocus:
  assumes "desk_is d p"
  shows "desk_is d (p \<bind> (\<lambda>s. focus E None s \<bind> (\<lambda>s. arrange E (Some (selmon s)) s)))"
  by (rule desk_bind [OF assms]) (intro desk_intro)

section \<open>Views\<close>

lemma view_desk:
  assumes m: "selm s = Some m" and S: "mon_shape (cfg E) b r m"
  shows "desk_is (view_step (cfg E) (selmon s) u (desk_of s)) (view E u s)"
proof (cases "u AND TAGMASK (cfg E) = tagsel m")
  case True
  then have "view_step (cfg E) (selmon s) u (desk_of s) = desk_of s"
    using m unfolding view_step_def by (intro re_view_same) (auto simp: selm_def view_of_def)
  then show ?thesis using True m by (simp add: view_def desk_end)
next
  case False
  have l: "length (m_tagset m) = 2" "m_seltags m < 2" using S by (simp_all add: mon_shape_def)
  have x: "(m_seltags m XOR 1) XOR 1 = m_seltags m" "m_seltags m XOR 1 \<noteq> m_seltags m"
    using l(2) by (auto simp: xor.assoc less_2_cases_iff)
  have "view_of m' = (if u AND TAGMASK (cfg E) = 0 then (snd (view_of m), fst (view_of m))
      else (u AND TAGMASK (cfg E), fst (view_of m)))" if "view_mon (cfg E) u m = Some m'" for m'
    using that l x
    by (auto simp: view_mon_def view_of_def tagsel_def apply_pertag_def Let_def split: bind_splits if_splits)
  then have "desk_is (view_step (cfg E) (selmon s) u (desk_of s)) (modm (selmon s) (\<lambda>_. m') s)"
    if "view_mon (cfg E) u m = Some m'" for m'
    unfolding view_step_def using that m False
    by (intro modm_re_view) (auto simp: selm_def view_of_def)
  then show ?thesis
    unfolding view_def m bind.bind_lunit using False
    by (cases "view_mon (cfg E) u m") (auto intro!: desk_intro)
qed

lemma toggleview_desk:
  assumes m: "selm s = Some m" and S: "mon_shape (cfg E) b r m"
  shows "desk_is (desk_step (cfg E) (selmon s) co (Toggleview u) (desk_of s)) (toggleview E u s)"
    (is "desk_is ?d _")
proof (cases "tagsel m XOR (u AND TAGMASK (cfg E)) = 0")
  case True
  then have "?d = desk_of s"
    using m unfolding desk_step.simps by (intro re_view_same) (auto simp: selm_def view_of_def)
  then show ?thesis using True m by (auto simp: toggleview_def intro!: desk_intro)
next
  case False
  let ?new = "tagsel m XOR (u AND TAGMASK (cfg E))"
  have l: "length (m_tagset m) = 2" "m_seltags m < 2" using S by (simp_all add: mon_shape_def)
  have x: "m_seltags m XOR 1 \<noteq> m_seltags m" using l(2) by (auto simp: less_2_cases_iff)
  have "view_of m' = (?new, snd (view_of m))" if "toggleview_mon ?new m = Some m'" for m'
    using that l x
    by (auto simp: toggleview_mon_def view_of_def tagsel_def apply_pertag_def Let_def split: bind_splits if_splits)
  then have "desk_is ?d (modm (selmon s) (\<lambda>_. m') s)" if "toggleview_mon ?new m = Some m'" for m'
    unfolding desk_step.simps using that m False
    by (intro modm_re_view) (auto simp: selm_def view_of_def)
  then show ?thesis
    unfolding toggleview_def m bind.bind_lunit Let_def using False
    by (cases "toggleview_mon ?new m") (auto intro!: desk_intro)
qed

lemma rotatetags_desk:
  assumes m: "selm s = Some m" and S: "mon_shape (cfg E) b r m"
  shows "desk_is (rotate_step (cfg E) (selmon s) i (desk_of s)) (rotatetags E i s)"
proof -
  let ?n = "turn (ntags (cfg E)) i (tagsel m)"
  have l: "length (m_tagset m) = 2" "m_seltags m < 2" using S by (simp_all add: mon_shape_def)
  have x: "m_seltags m XOR 1 \<noteq> m_seltags m" using l(2) by (auto simp: less_2_cases_iff)
  have n: "w AND TAGMASK (cfg E) = ?n"
    if "(if i < 0 then rotate_right (ntags (cfg E)) (nat \<bar>i\<bar>) (tagsel m)
         else rotate_left (ntags (cfg E)) (nat \<bar>i\<bar>) (tagsel m)) = Some w" for w
    using that by (auto simp: turn_def rotate_left_def rotate_right_def Let_def TAGMASK_def split: if_splits)
  have c: "desk_is (rotate_step (cfg E) (selmon s) i (desk_of s))
      (modm (selmon s) (\<lambda>m. m\<lparr>m_tagset := (m_tagset m)[m_seltags m := ?n]\<rparr>) s)" if "?n \<noteq> 0"
    unfolding rotate_step_def using that m l x
    by (intro modm_re_view) (auto simp: selm_def view_of_def tagsel_def)
  have e: "rotate_step (cfg E) (selmon s) i (desk_of s) = desk_of s" if "?n = 0"
    unfolding rotate_step_def using that m by (intro re_view_same) (auto simp: selm_def view_of_def)
  show ?thesis
    unfolding rotatetags_def m bind.bind_lunit Let_def
    using n c e
    by (cases "if i < 0 then rotate_right (ntags (cfg E)) (nat \<bar>i\<bar>) (tagsel m)
         else rotate_left (ntags (cfg E)) (nat \<bar>i\<bar>) (tagsel m)") (auto intro!: desk_refocus desk_end)
qed

section \<open>Tags\<close>

text \<open>The selected client of a well-formed state is on the selected monitor.\<close>

lemma selected_client:
  assumes W: "wf cf s" and m: "selm s = Some m" "m_sel m = Some c"
  obtains k where "clis s c = Some k" "c_mon k = selmon s"
  using wfx_client [OF W _ wfx_sel_client [OF W]] m by (metis selm_def)

lemma retag_desk:
  assumes "clis s c = Some k"
  shows "desk_is (tag_step cf (\<lambda>_. t) (Some c) (desk_of s)) (if t \<noteq> 0 then modc c (\<lambda>k. k\<lparr>c_tags := t\<rparr>) s else Some s)"
proof (cases "t = 0")
  case True
  then show ?thesis by (auto simp: tag_step_def intro!: desk_end re_place_same [symmetric])
next
  case False
  then show ?thesis
    unfolding tag_step_def using assms by simp (rule modc_re_place, auto simp: place_of_def)
qed

lemma toggletag_desk:
  assumes W: "wf (cfg E) s"
  shows "desk_is (desk_step (cfg E) (selmon s) (selid s) (Toggletag u) (desk_of s)) (toggletag E u s)"
proof -
  obtain m where m: "selm s = Some m" using wfx_selmon [OF W] by metis
  show ?thesis
  proof (cases "m_sel m")
    case None
    then show ?thesis
      using m by (auto simp: toggletag_def selid_def tag_step_def intro!: desk_end re_place_same [symmetric])
  next
    case (Some c)
    obtain k where k: "clis s c = Some k" by (rule selected_client [OF W m Some])
    let ?t = "c_tags k XOR (u AND TAGMASK (cfg E))"
    let ?d = "desk_step (cfg E) (selmon s) (selid s) (Toggletag u) (desk_of s)"
    have d: "?d = tag_step (cfg E) (\<lambda>_. ?t) (Some c) (desk_of s)"
      using m Some k unfolding desk_step.simps tag_step_def
      by (intro re_place_cong) (auto simp: selid_def place_of_def)
    have "desk_is ?d (if ?t \<noteq> 0 then modc c (\<lambda>k. k\<lparr>c_tags := ?t\<rparr>) s else Some s)"
      unfolding d by (rule retag_desk [OF k])
    then have "desk_is ?d (if ?t \<noteq> 0 then do { s \<leftarrow> modc c (\<lambda>k. k\<lparr>c_tags := ?t\<rparr>) s; s \<leftarrow> focus E None s;
        arrange E (Some (selmon s)) s } else Some s)"
      by (cases "?t = 0") (auto intro!: desk_refocus)
    then show ?thesis
      unfolding toggletag_def m bind.bind_lunit Some option.case k Let_def
      by (rule desk_bind) (intro desk_intro)
  qed
qed

lemma togglesticky_desk:
  assumes W: "wf (cfg E) s"
  shows "desk_is (desk_step (cfg E) (selmon s) (selid s) Togglesticky (desk_of s)) (togglesticky E s)"
proof -
  obtain m where m: "selm s = Some m" using wfx_selmon [OF W] by metis
  show ?thesis
  proof (cases "m_sel m")
    case None
    then show ?thesis
      using m by (auto simp: togglesticky_def selid_def intro!: desk_end re_place_same [symmetric])
  next
    case (Some c)
    obtain k where k: "clis s c = Some k" by (rule selected_client [OF W m Some])
    let ?d = "desk_step (cfg E) (selmon s) (selid s) Togglesticky (desk_of s)"
    have d: "desk_is ?d (modc c (\<lambda>k. k\<lparr>c_issticky := \<not> c_issticky (the (clis s c))\<rparr>) (emit r s))" for r
      using modc_re_place [of "emit r s" c k] m Some k
      by (auto simp: selid_def place_of_def)
    have a: "desk_is ?d (modc c (\<lambda>k. k\<lparr>c_issticky := \<not> c_issticky (the (clis s c))\<rparr>) (emit r s)
        \<bind> (\<lambda>s. arrange E (f s) s))" for r f
      by (rule desk_bind [OF d]) (intro desk_intro)
    have "desk_is ?d (setsticky E c (\<not> c_issticky k) s)"
      using k d a by (cases "c_issticky k") (simp_all add: setsticky_def)
    then show ?thesis
      unfolding togglesticky_def m bind.bind_lunit Some option.case k
      by (rule desk_bind) (intro desk_intro)
  qed
qed

lemma tag_desk:
  assumes W: "wf (cfg E) s" and ok: "config_ok (cfg E)"
  shows "desk_is (desk_step (cfg E) (selmon s) (selid s) (Tag u) (desk_of s)) (tag E u s)" (is "desk_is ?d _")
proof -
  obtain m where m: "selm s = Some m" using wfx_selmon [OF W] by metis
  let ?t = "u AND TAGMASK (cfg E)"
  show ?thesis
  proof (cases "m_sel m = None \<or> ?t = 0")
    case True
    then show ?thesis
      using m by (auto simp: tag_def selid_def tag_step_def Let_def intro!: desk_end re_place_same [symmetric] split: option.split)
  next
    case False
    then obtain c where c: "m_sel m = Some c" and t: "?t \<noteq> 0" by auto
    obtain k where k: "clis s c = Some k" by (rule selected_client [OF W m c])
    let ?s = "s\<lparr>clis := (clis s)(c \<mapsto> k\<lparr>c_tags := ?t\<rparr>)\<rparr>"
    have e: "modc c (\<lambda>k. k\<lparr>c_tags := ?t\<rparr>) s = Some ?s" using k by (simp add: modc_def)
    have W': "wf (cfg E) ?s" using wfx_title [OF W k] by (intro wfx_modc [OF W k]) simp_all
    have d: "desk_of ?s = tag_step (cfg E) (\<lambda>_. ?t) (Some c) (desk_of s)"
      using retag_desk [OF k, of "cfg E" ?t] t e by (simp add: desk_is_def)
    let ?p = "do { s \<leftarrow> focus E None ?s; arrange E (Some (selmon s)) s }"
    have p: "desk_is (desk_of ?s) ?p" by (intro desk_intro) simp_all
    have b: "(if viewontag (cfg E) \<and> ?t \<noteq> TAGMASK (cfg E) then view_step (cfg E) (selmon s) u (desk_of ?s) else desk_of ?s) = ?d"
      using c m t d by (simp add: selid_def Let_def)
    have "desk_is ?d (do { s \<leftarrow> ?p; s \<leftarrow> (if viewontag (cfg E) \<and> ?t \<noteq> TAGMASK (cfg E) then view E u s else Some s);
        m \<leftarrow> selm s; c \<leftarrow> m_sel m; updateclientdesktop E c s })"
    proof (rule desk_then_res [OF p refocus_here [OF W' ok]])
      fix v assume v: "desk_of v = desk_of ?s" "settled (cfg E) ?s v"
      have sm: "selmon v = selmon s" and Wv: "wf (cfg E) v" using v(2) by (simp_all add: settled_def)
      obtain n where n: "mmem v (selmon v) = Some n" "selm v = Some n" by (rule wfx_selmon [OF Wv])
      have "desk_is ?d (if viewontag (cfg E) \<and> ?t \<noteq> TAGMASK (cfg E) then view E u v else Some v)"
        unfolding b [symmetric]
        using view_desk [OF n(2) wfx_shape [OF Wv n(1)], of u] v(1) sm by (simp add: desk_end)
      then show "desk_is ?d (do { s \<leftarrow> (if viewontag (cfg E) \<and> ?t \<noteq> TAGMASK (cfg E) then view E u v else Some v);
          m \<leftarrow> selm s; c \<leftarrow> m_sel m; updateclientdesktop E c s })"
        by (rule desk_bind) (intro desk_intro desk_read)
    qed
    then show ?thesis using m c t e by (simp add: tag_def Let_def)
  qed
qed

text \<open>The same update of every client of a list.\<close>

lemma re_place_list:
  assumes "\<And>p. f (f p) = f p \<or> b \<notin> set cs"
  shows "re_place (\<lambda>c _. c \<in> set cs) f (re_place (\<lambda>c _. c = b) f d) = re_place (\<lambda>c _. c \<in> set (b # cs)) f d"
  by (rule re_place_two) (use assms in auto)

lemma each_modc_desk:
  assumes "\<And>k. place_of (g k) = f (place_of k)" "distinct cs"
  shows "desk_is (re_place (\<lambda>c _. c \<in> set cs) f (desk_of s)) (each (\<lambda>c. modc c g) cs s)"
  using assms(2)
proof (induction cs arbitrary: s)
  case Nil
  then show ?case by (simp add: desk_end re_place_same [symmetric])
next
  case (Cons b cs)
  have "desk_is (re_place (\<lambda>c _. c = b) f (desk_of s)) (modc b g s)"
    using modc_re_place [of s b _ g "\<lambda>c _. c = b" f] assms(1)
    by (cases "clis s b") (auto simp: modc_def desk_end)
  then show ?case
    unfolding each.simps
  proof (rule desk_then)
    fix t assume "desk_of t = re_place (\<lambda>c _. c = b) f (desk_of s)"
    then show "desk_is (re_place (\<lambda>c _. c \<in> set (b # cs)) f (desk_of s)) (each (\<lambda>c. modc c g) cs t)"
      using Cons.IH [of t] Cons.prems re_place_list [of f b cs "desk_of s"] by simp
  qed
qed

lemma each_modc_frame: "each (\<lambda>c. modc c g) cs s = Some t \<Longrightarrow> mmem t = mmem s \<and> selmon t = selmon s"
  by (induction cs arbitrary: s) (auto simp: modc_def bind_eq_Some_conv)

text \<open>The clients of a monitor are the ones placed on it.\<close>

lemma clients_of:
  assumes W: "wfx cf X s" and m: "mmem s m = Some k" and p: "places (desk_of s) c = Some p"
  shows "c \<in> set (m_clients k) \<longleftrightarrow> on_mon p = m \<and> c \<notin> X"
proof -
  obtain j where j: "clis s c = Some j" "c_mon j = on_mon p" using p by (auto simp: place_of_def)
  show ?thesis
    using wfx_clientD [OF W m, of c] wfx_notin [OF W m, of c] wfx_listedD [OF W j(1)] j m by auto
qed

lemma swaptag_desk:
  assumes W: "wf (cfg E) s"
  shows "desk_is (swap_step (cfg E) (selmon s) u (desk_of s)) (swaptag E u s)" (is "desk_is ?d _")
proof -
  obtain m where m: "selm s = Some m" "mmem s (selmon s) = Some m" using wfx_selmon [OF W] by metis
  note S = wfx_shape [OF W m(2)]
  let ?new = "u AND TAGMASK (cfg E)" and ?cur = "tagsel m"
  have cur: "shown_tags (desk_of s) (selmon s) = ?cur" by (rule shown_tags_desk [OF m(2)])
  show ?thesis
  proof (cases "?new = ?cur \<or> ?cur = 0 \<or> ?cur AND (?cur - 1) \<noteq> 0")
    case True
    then show ?thesis using m cur by (simp add: swaptag_def swap_step_def Let_def desk_end)
  next
    case False
    let ?f = "\<lambda>p. p\<lparr>on_tags := swap_word ?new ?cur (on_tags p)\<rparr>"
    let ?e = "re_place (\<lambda>c p. on_mon p = selmon s) ?f (desk_of s)"
    have l: "length (m_tagset m) = 2" "m_seltags m < 2" using S by (simp_all add: mon_shape_def)
    have x: "m_seltags m XOR 1 \<noteq> m_seltags m" using l(2) by (auto simp: less_2_cases_iff)
    have d: "?d = re_view (selmon s) (\<lambda>(v, w). (?new, w)) ?e"
      using False by (auto simp: swap_step_def cur Let_def)
    have "distinct (m_clients m)" using wfx_lists [OF W m(2)] by (simp add: mon_lists_def)
    then have "desk_is (re_place (\<lambda>c _. c \<in> set (m_clients m)) ?f (desk_of s))
        (each (\<lambda>c. modc c (swap_tags ?new ?cur)) (m_clients m) s)"
      by (rule each_modc_desk [rotated]) (simp add: place_of_def swap_tags_def swap_word_def Let_def)
    also have "re_place (\<lambda>c _. c \<in> set (m_clients m)) ?f (desk_of s) = ?e"
      by (rule re_place_cong) (simp add: clients_of [OF W m(2)])
    finally have a: "desk_is ?e (each (\<lambda>c. modc c (swap_tags ?new ?cur)) (m_clients m) s)" .
    have b: "desk_is ?d (modm (selmon v) (\<lambda>m. m\<lparr>m_tagset := (m_tagset m)[m_seltags m := ?new]\<rparr>) v)"
      if "each (\<lambda>c. modc c (swap_tags ?new ?cur)) (m_clients m) s = Some v" "desk_of v = ?e" for v
      unfolding d that(2) [symmetric]
      using each_modc_frame [OF that(1)] m(2) l x
      by (auto intro!: modm_re_view simp: view_of_def tagsel_def)
    have c: "desk_is ?d (do { s \<leftarrow> modm (selmon v) (\<lambda>m. m\<lparr>m_tagset := (m_tagset m)[m_seltags m := ?new]\<rparr>) v;
        s \<leftarrow> focus E None s; s \<leftarrow> arrange E (Some (selmon s)) s; m \<leftarrow> selm s;
        each (\<lambda>c s. do { k \<leftarrow> clis s c; if c_tags k AND ?new \<noteq> 0 then updateclientdesktop E c s else Some s }) (m_clients m) s })"
      if "each (\<lambda>c. modc c (swap_tags ?new ?cur)) (m_clients m) s = Some v" for v
      by (rule desk_bind [OF b [OF that desk_isD [OF a that]]]) (intro desk_intro desk_read)
    show ?thesis
    proof (cases "each (\<lambda>c. modc c (swap_tags ?new ?cur)) (m_clients m) s")
      case None
      then show ?thesis using False m by (simp add: swaptag_def Let_def desk_end)
    next
      case (Some v)
      then show ?thesis using False m c [OF Some] by (simp add: swaptag_def Let_def)
    qed
  qed
qed

section \<open>Shifting the view\<close>

lemma bit_fold_tags: "bit (fold (\<lambda>k w. w OR c_tags k) ks w) j \<longleftrightarrow> bit w j \<or> (\<exists>k \<in> set ks. bit (c_tags k) j)"
  by (induction ks arbitrary: w) (auto simp: bit_or_iff)

lemma bit_fold_if:
  fixes w :: "32 word"
  assumes "\<And>i. i \<in> set js \<Longrightarrow> i < 32"
  shows "bit (fold (\<lambda>j w. if P j then w OR push_bit j 1 else w) js w) j \<longleftrightarrow> bit w j \<or> j \<in> set js \<and> P j"
  using assms by (induction js arbitrary: w) (auto simp: bit_or_iff bit_exp_iff)

lemma set_those: "those (map f cs) = Some ks \<Longrightarrow> k \<in> set ks \<longleftrightarrow> (\<exists>c \<in> set cs. f c = Some k)"
  by (induction cs arbitrary: ks) (auto split: option.splits)

lemma used_tags_desk:
  assumes W: "wf cf s" and m: "mmem s m = Some k" and ks: "those (map (clis s) (m_clients k)) = Some ks"
  shows "fold (\<lambda>k w. w OR c_tags k) ks 0 = used_tags (desk_of s) m"
proof (rule bit_word_eqI)
  fix j assume "j < LENGTH(32)"
  then have j: "j \<in> set [0..<32]" by simp
  have "(\<exists>i \<in> set ks. bit (c_tags i) j) \<longleftrightarrow> (\<exists>c p. places (desk_of s) c = Some p \<and> on_mon p = m \<and> bit (on_tags p) j)"
    (is "?l \<longleftrightarrow> ?r")
  proof
    assume ?l
    then obtain c i where c: "c \<in> set (m_clients k)" "clis s c = Some i" "bit (c_tags i) j"
      by (auto simp: set_those [OF ks])
    then have "places (desk_of s) c = Some (place_of i)" "on_mon (place_of i) = m" "bit (on_tags (place_of i)) j"
      using wfx_clientD [OF W m c(1)] by (auto simp: place_of_def)
    then show ?r by blast
  next
    assume ?r
    then obtain c p where p: "places (desk_of s) c = Some p" "on_mon p = m" "bit (on_tags p) j" by blast
    then obtain i where "clis s c = Some i" "on_tags p = c_tags i" by (auto simp: place_of_def)
    moreover have "c \<in> set (m_clients k)" using clients_of [OF W m p(1)] p(2) by simp
    ultimately show ?l using p(3) set_those [OF ks, of i] by auto
  qed
  then show "bit (fold (\<lambda>k w. w OR c_tags k) ks 0) j = bit (used_tags (desk_of s) m) j"
    unfolding used_tags_def using j by (simp only: bit_fold_tags) (subst bit_fold_if, simp_all)
qed

lemma shiftviewclients_desk:
  assumes W: "wf (cfg E) s"
  shows "desk_is (desk_step (cfg E) (selmon s) (selid s) (Shiftviewclients i) (desk_of s)) (shiftviewclients E i s)"
proof -
  obtain m where m: "selm s = Some m" "mmem s (selmon s) = Some m" using wfx_selmon [OF W] by metis
  show ?thesis
    unfolding shiftviewclients_def m(1) bind.bind_lunit desk_step.simps shown_tags_desk [OF m(2)]
    using view_desk [OF m(1) wfx_shape [OF W m(2)]] used_tags_desk [OF W m(2)]
    by (cases "those (map (clis s) (m_clients m))")
      (auto simp: Let_def desk_end split: option.split bind_splits)
qed

section \<open>Sending clients\<close>

lemma neighbour_desk:
  assumes "dirtomon i s = Some t"
  shows "neighbour i (selmon s) (desk_of s) = t"
  using assms by (auto simp: dirtomon_def neighbour_def split: list.splits if_splits)

lemma dirtomon_other:
  assumes W: "wfx cf X s" and m: "dirtomon i s = Some m" and two: "2 \<le> length (mons s)"
  shows "m \<noteq> selmon s"
proof -
  obtain us vs where ms: "mons s = us @ selmon s # vs"
    using split_list [OF wfx_selmon_in [OF W]] by blast
  then have d: "selmon s \<notin> set us" "selmon s \<notin> set vs" using wfx_distinct_mons [OF W] by auto
  have a: "after (selmon s) (us @ selmon s # vs) = vs" by (rule after_append [OF d(1)])
  have b: "before (selmon s) (us @ selmon s # vs) = us" using d(1) by (induction us) auto
  have "m \<in> set us \<union> set vs"
  proof (cases "0 < i")
    case True
    have "Some m = (case vs of x # _ \<Rightarrow> Some x | [] \<Rightarrow> (case mons s of x # _ \<Rightarrow> Some x | [] \<Rightarrow> None))"
      using m True a ms by (simp add: dirtomon_def del: after.simps)
    then have "m = (case vs of x # _ \<Rightarrow> x | [] \<Rightarrow> hd (us @ [selmon s]))"
      unfolding ms by (cases vs; cases us) simp_all
    then show ?thesis using two ms by (cases vs; cases us) auto
  next
    case False
    then have "m = (if us = [] then last (selmon s # vs) else last us)"
      using m b d by (cases us) (auto simp: dirtomon_def ms split: if_splits)
    then show ?thesis using two ms by (cases us) (auto simp: last_in_set)
  qed
  then show ?thesis using d by auto
qed

lemma modc_re_place_all:
  assumes "\<And>k. clis s c = Some k \<Longrightarrow> place_of (g k) = f (place_of k)"
  shows "desk_is (re_place (\<lambda>b _. b = c) f (desk_of s)) (modc c g s)"
  using modc_re_place [of s c _ g "\<lambda>b _. b = c" f] assms
  by (cases "clis s c") (auto simp: modc_def desk_end)

lemma move_desk:
  assumes "mmem s m = Some k"
  shows "desk_is (re_place (\<lambda>b _. b = c) (move_to (desk_of s) m) (desk_of s))
    (modc c (\<lambda>j. j\<lparr>c_mon := m, c_tags := tagsel k\<rparr>) s)"
  by (rule modc_re_place_all) (simp add: move_to_def place_of_def shown_tags_desk [OF assms])

lemma sendmon_desk:
  assumes k: "clis s c = Some k"
  shows "desk_is (send_step m (Some c) (desk_of s)) (sendmon E c m s)" (is "desk_is ?d _")
proof (cases "c_mon k = m")
  case True
  then have "?d = desk_of s"
    unfolding send_step_def by (intro re_place_same) (use k in \<open>auto simp: place_of_def\<close>)
  then show ?thesis using True k by (simp add: sendmon_def desk_end)
next
  case False
  then have d: "?d = re_place (\<lambda>b _. b = c) (move_to (desk_of s) m) (desk_of s)"
    unfolding send_step_def by (intro re_place_cong) (use k in \<open>auto simp: place_of_def\<close>)
  have t: "desk_is ?d (do { k \<leftarrow> mmem t m; s \<leftarrow> modc c (\<lambda>j. j\<lparr>c_mon := m, c_tags := tagsel k\<rparr>) t;
      s \<leftarrow> attachx E c s; s \<leftarrow> attachstack c s; s \<leftarrow> focus E None s; arrange E None s })"
    if "desk_of t = desk_of s" for t
  proof (cases "mmem t m")
    case (Some j)
    show ?thesis
      using move_desk [OF Some, of c] unfolding Some bind.bind_lunit d that
      by (rule desk_bind) (intro desk_intro)
  qed (simp add: desk_end)
  show ?thesis
    unfolding sendmon_def k bind.bind_lunit using False
    by simp ((rule desk_then, (intro desk_intro; simp))+, erule t)
qed

lemma tagmon_desk:
  assumes W: "wf (cfg E) s"
  shows "desk_is (desk_step (cfg E) (selmon s) (selid s) (Tagmon i) (desk_of s)) (tagmon E i s)"
proof -
  obtain m where m: "selm s = Some m" using wfx_selmon [OF W] by metis
  show ?thesis
  proof (cases "m_sel m")
    case None
    then show ?thesis
      using m by (auto simp: tagmon_def selid_def send_step_def intro!: desk_end re_place_same [symmetric])
  next
    case (Some c)
    obtain k where k: "clis s c = Some k" by (rule selected_client [OF W m Some])
    show ?thesis
      using m Some sendmon_desk [OF k] neighbour_desk [of i s]
      by (cases "dirtomon i s") (auto simp: tagmon_def selid_def intro: desk_end)
  qed
qed

section \<open>Exchanging what two monitors show\<close>

lemma unfocus_selmon: "unfocus E co b s = Some t \<Longrightarrow> selmon t = selmon s"
proof -
  have f: "selmon (fold emit rs u) = selmon u" for rs u by (induction rs arbitrary: u) (simp_all add: emit_def)
  show "unfocus E co b s = Some t \<Longrightarrow> selmon t = selmon s"
    by (auto simp: unfocus_def grabbuttons_def Let_def f emit_def updatenumlockmask_def bind_eq_Some_conv split: option.splits)
qed

lemma detach_selmon: "detach E c s = Some t \<Longrightarrow> selmon t = selmon s"
  "detachstack c s = Some t \<Longrightarrow> selmon t = selmon s"
  by (auto simp: detach_def detachstack_def modm_def bind_eq_Some_conv split: if_splits)

lemma take_visible_desk:
  assumes "take_visible E cs (out, s) = Some (out', t)"
  shows "desk_of t = desk_of s" "selmon t = selmon s" "set out' = set out \<union> {c \<in> set cs. in_view (desk_of s) c}"
proof -
  have "desk_of t = desk_of s \<and> selmon t = selmon s \<and> set out' = set out \<union> {c \<in> set cs. in_view (desk_of s) c}"
    using assms
  proof (induction cs arbitrary: out s)
    case (Cons c cs)
    obtain v where v: "ISVISIBLE s c = Some v" using Cons.prems by (auto simp: bind_eq_Some_conv)
    show ?case
    proof (cases v)
      case False
      then show ?thesis using Cons v in_view_desk [OF v] by auto
    next
      case True
      let ?p = "do { s \<leftarrow> unfocus E (Some c) True s; s \<leftarrow> detach E c s; detachstack c s }"
      obtain u where u: "?p = Some u" "take_visible E cs (c # out, u) = Some (out', t)"
        using Cons.prems v True by (auto simp: bind_eq_Some_conv)
      have "desk_of u = desk_of s" by (rule desk_isD [OF _ u(1)]) (intro desk_intro, simp_all)
      moreover have "selmon u = selmon s"
        using u(1) by (auto simp: bind_eq_Some_conv dest!: unfocus_selmon detach_selmon)
      ultimately show ?thesis using Cons.IH [OF u(2)] in_view_desk [OF v] True by auto
    qed
  qed simp
  then show "desk_of t = desk_of s" "selmon t = selmon s" "set out' = set out \<union> {c \<in> set cs. in_view (desk_of s) c}"
    by blast+
qed

lemma give_desk: "desk_is (re_place (\<lambda>b _. b = c) (move_to (desk_of s) m) (desk_of s)) (give E m c s)"
proof (cases "mmem s m")
  case (Some k)
  show ?thesis
    unfolding give_def Some bind.bind_lunit
    by (rule desk_bind [OF move_desk [OF Some]]) (intro desk_intro desk_read, simp_all)
qed (simp add: give_def desk_end)

lemma shown_re_place [simp]: "shown_tags (re_place P f d) m = shown_tags d m"
  "move_to (re_place P f d) m = move_to d m" "screens (re_place P f d) = screens d"
  by (simp_all add: shown_tags_def re_place_def move_to_def fun_eq_iff)

lemma give_all_desk: "desk_is (re_place (\<lambda>c _. c \<in> set cs) (move_to (desk_of s) m) (desk_of s)) (each (give E m) cs s)"
proof (induction cs arbitrary: s)
  case Nil
  then show ?case by (simp add: desk_end re_place_same [symmetric])
next
  case (Cons b cs)
  show ?case
    unfolding each.simps
  proof (rule desk_then [OF give_desk])
    fix t assume t: "desk_of t = re_place (\<lambda>c _. c = b) (move_to (desk_of s) m) (desk_of s)"
    have "move_to d m (move_to d m p) = move_to d m p" for d p by (simp add: move_to_def)
    then show "desk_is (re_place (\<lambda>c _. c \<in> set (b # cs)) (move_to (desk_of s) m) (desk_of s)) (each (give E m) cs t)"
      using Cons.IH [of t] re_place_list [of "move_to (desk_of s) m" b cs "desk_of s"] by (simp add: t)
  qed
qed

lemma update_selmon:
  "modc c f s = Some t \<Longrightarrow> selmon t = selmon s" "modm m g s = Some t \<Longrightarrow> selmon t = selmon s"
  "configure c s = Some t \<Longrightarrow> selmon t = selmon s"
  by (auto simp: modc_def modm_def configure_def emit_def bind_eq_Some_conv)

lemma bindE: "p \<bind> f = Some t \<Longrightarrow> (\<And>u. p = Some u \<Longrightarrow> f u = Some t \<Longrightarrow> R) \<Longrightarrow> R"
  by (cases p) simp_all

lemma when_selmon: "(if b then modc c f s else Some s) = Some t \<Longrightarrow> selmon t = selmon s"
  by (cases b) (simp_all add: update_selmon)

lemma resizeclient_selmon: "resizeclient E c x y w h s = Some t \<Longrightarrow> selmon t = selmon s"
  unfolding resizeclient_def Let_def
  by (elim bindE, split if_split_asm) (auto elim!: bindE dest!: when_selmon update_selmon)

lemma attach_selmon: "attach c s = Some t \<Longrightarrow> selmon t = selmon s" "attachstack c s = Some t \<Longrightarrow> selmon t = selmon s"
  by (auto simp: attach_def attachstack_def elim!: bindE dest: update_selmon)

lemma give_selmon: "give E m c s = Some t \<Longrightarrow> selmon t = selmon s"
  unfolding give_def
  by (elim bindE, split if_split_asm)
    (auto elim!: bindE dest!: update_selmon attach_selmon resizeclient_selmon)

lemma give_all_selmon: "each (give E m) cs s = Some t \<Longrightarrow> selmon t = selmon s"
  by (induction cs arbitrary: s) (auto simp: bind_eq_Some_conv dest: give_selmon)

lemma tagswapmon_desk:
  assumes W: "wf (cfg E) s" and ok: "config_ok (cfg E)"
  shows "desk_is (desk_step (cfg E) (selmon s) (selid s) (Tagswapmon i) (desk_of s)) (tagswapmon E i s)" (is "desk_is ?d _")
proof (cases "length (mons s) < 2")
  case True
  then show ?thesis by (simp add: tagswapmon_def desk_end)
next
  case False
  obtain m where m: "dirtomon i s = Some m" "m \<in> set (mons s)" using dirtomon_total [OF W] by blast
  obtain k where k: "selm s = Some k" "mmem s (selmon s) = Some k" using wfx_selmon [OF W] by metis
  show ?thesis
  proof (cases "tagswapmon E i s")
    case (Some v)
    then obtain sc s1 n mc s2 s3 s4 where st:
      "take_visible E (m_clients k) ([], s) = Some (sc, s1)" "mmem s1 m = Some n"
      "take_visible E (m_clients n) ([], s1) = Some (mc, s2)"
      "each (give E m) sc s2 = Some s3" "each (give E (selmon s3)) mc s3 = Some s4"
      "do { s \<leftarrow> focus E None s4; arrange E None s } = Some v"
      using False m k by (auto simp: tagswapmon_def bind_eq_Some_conv)
    note V1 = take_visible_desk [OF st(1)] and V2 = take_visible_desk [OF st(3)]
    let ?D = "desk_of s"
    have al: "\<exists>j. clis s c = Some j" if "c \<in> set (m_clients k)" for c
      using wfx_clientD [OF W k(2) that] by blast
    have "res (\<lambda>(sc, u). frx (cfg E) ({} \<union> set sc) s u \<and> distinct sc \<and> set sc \<inter> {} = {} \<and> set sc \<subseteq> set [] \<union> set (m_clients k))
        (take_visible E (m_clients k) ([], s))"
      using wfx_lists [OF W k(2)] al
      by (intro take_visible_frx) (auto simp: fr_refl [OF W] ok mon_lists_def)
    then have W1: "wfx (cfg E) (set sc) s1" using st(1) by auto
    have mne: "m \<noteq> selmon s" using dirtomon_other [OF W m(1)] False by simp
    have sc: "c \<in> set sc \<longleftrightarrow> in_view ?D c \<and> on_mon p = selmon s" if "places ?D c = Some p" for c p
      using V1(3) clients_of [OF W k(2) that] by auto
    have mc: "c \<in> set mc \<longleftrightarrow> in_view ?D c \<and> on_mon p = m" if "places ?D c = Some p" for c p
      using V2(3) V1(1) clients_of [OF W1 st(2), of c p] that sc [OF that] mne by auto
    have d3: "desk_of s3 = re_place (\<lambda>c _. c \<in> set sc) (move_to ?D m) ?D" "selmon s3 = selmon s"
      using desk_isD [OF give_all_desk st(4)] give_all_selmon [OF st(4)] V1(1,2) V2(1,2) by simp_all
    have d4: "desk_of s4 = re_place (\<lambda>c _. c \<in> set mc) (move_to ?D (selmon s)) (desk_of s3)"
      using desk_isD [OF give_all_desk st(5)] d3 by simp
    have "desk_of v = desk_of s4" by (rule desk_isD [OF _ st(6)]) (intro desk_intro, simp_all)
    also have "\<dots> = exchange_step (selmon s) m ?D"
      unfolding d4 d3(1) exchange_step_def
      by (rule re_place_two) (use sc mc mne in \<open>auto simp: move_to_def\<close>)
    finally show ?thesis using Some False neighbour_desk [OF m(1)] by (simp add: desk_is_def)
  qed (simp add: desk_is_def)
qed

section \<open>The commands\<close>

text \<open>The two commands that follow the pointer run other handlers while they do, and are not treated here.\<close>

fun drags :: "action \<Rightarrow> bool" where
  "drags (Moveorplace i) = True"
| "drags Resizemouse = True"
| "drags a = False"

lemma run_action_desk:
  assumes W: "wf (cfg E) s" and ok: "config_ok (cfg E)" and a: "\<not> drags a"
  shows "desk_is (desk_step (cfg E) (selmon s) (selid s) a (desk_of s)) (run_action E a s)"
proof -
  obtain m where m: "selm s = Some m" "mmem s (selmon s) = Some m" using wfx_selmon [OF W] by metis
  note S = wfx_shape [OF W m(2)]
  show ?thesis
  proof (cases a)
    case (View u)
    then show ?thesis using view_desk [OF m(1) S] by simp
  next
    case (Toggleview u)
    then show ?thesis using toggleview_desk [OF m(1) S] by simp
  next
    case (Tag u)
    then show ?thesis using tag_desk [OF W ok] by simp
  next
    case (Toggletag u)
    then show ?thesis using toggletag_desk [OF W] by simp
  next
    case (Swaptag u)
    then show ?thesis using swaptag_desk [OF W] by simp
  next
    case (Rotatetags i)
    then show ?thesis using rotatetags_desk [OF m(1) S] by simp
  next
    case (Shiftviewclients i)
    then show ?thesis using shiftviewclients_desk [OF W] by simp
  next
    case (Tagmon i)
    then show ?thesis using tagmon_desk [OF W] by simp
  next
    case (Tagswapmon i)
    then show ?thesis using tagswapmon_desk [OF W ok] by simp
  next
    case Togglesticky
    then show ?thesis using togglesticky_desk [OF W] by simp
  qed (use a in \<open>auto intro: desk_intro\<close>)
qed

section \<open>Well-formed desks\<close>

definition tags_valid :: "config \<Rightarrow> 32 word \<Rightarrow> bool" where
  "tags_valid cf t \<longleftrightarrow> t \<noteq> 0 \<and> t AND TAGMASK cf = t"

definition desk_ok :: "config \<Rightarrow> desk \<Rightarrow> bool" where
  "desk_ok cf d \<longleftrightarrow>
     (\<forall>c p. places d c = Some p \<longrightarrow> tags_valid cf (on_tags p) \<and> on_mon p \<in> set (screens d))
     \<and> (\<forall>m \<in> set (screens d). \<exists>v w. views d m = Some (v, w) \<and> tags_valid cf v \<and> tags_valid cf w)"

lemma desk_ok_re_place:
  assumes "desk_ok cf d"
    "\<And>c p. places d c = Some p \<Longrightarrow> P c p \<Longrightarrow> tags_valid cf (on_tags (f p)) \<and> on_mon (f p) \<in> set (screens d)"
  shows "desk_ok cf (re_place P f d)"
  using assms by (fastforce simp: desk_ok_def re_place_def)

lemma desk_okD: "desk_ok cf d \<Longrightarrow> places d c = Some p \<Longrightarrow> tags_valid cf (on_tags p) \<and> on_mon p \<in> set (screens d)"
  unfolding desk_ok_def by blast

lemma desk_ok_re_view:
  assumes d: "desk_ok cf d"
    and f: "\<And>v w. tags_valid cf v \<Longrightarrow> tags_valid cf w \<Longrightarrow> tags_valid cf (fst (f (v, w))) \<and> tags_valid cf (snd (f (v, w)))"
  shows "desk_ok cf (re_view m f d)"
proof -
  have "\<exists>v w. views (re_view m f d) n = Some (v, w) \<and> tags_valid cf v \<and> tags_valid cf w" if n: "n \<in> set (screens d)" for n
  proof -
    obtain v w where "views d n = Some (v, w)" "tags_valid cf v" "tags_valid cf w"
      using d n unfolding desk_ok_def by blast
    then show ?thesis using f [of v w] by (cases "f (v, w)"; cases "n = m") (simp_all add: re_view_def)
  qed
  then show ?thesis using d by (simp add: desk_ok_def re_view_def)
qed

lemma desk_ok_shown: "desk_ok cf d \<Longrightarrow> m \<in> set (screens d) \<Longrightarrow> tags_valid cf (shown_tags d m)"
  by (auto simp: desk_ok_def shown_tags_def)

lemma neighbour_in:
  assumes "m \<in> set (screens d)"
  shows "neighbour i m d \<in> set (screens d)"
proof -
  have "hd (after m (screens d) @ screens d) \<in> set (after m (screens d) @ screens d)"
    "last (screens d @ before m (screens d)) \<in> set (screens d @ before m (screens d))"
    using assms by (intro hd_in_set last_in_set; auto)+
  then show ?thesis using set_after [of m "screens d"] set_before [of m "screens d"] by (auto simp: neighbour_def)
qed

lemma swap_word_valid:
  assumes "tags_valid cf new" "tags_valid cf cur" "tags_valid cf t"
  shows "tags_valid cf (swap_word new cur t)"
proof -
  have "(t XOR (cur XOR new)) AND TAGMASK cf = t XOR (cur XOR new)"
    using assms by (simp add: tags_valid_def bit.conj_xor_distrib2)
  then show ?thesis using assms by (simp add: tags_valid_def swap_word_def Let_def)
qed

lemma view_step_ok: "desk_ok cf d \<Longrightarrow> desk_ok cf (view_step cf m u d)"
  unfolding view_step_def by (erule desk_ok_re_view) (auto simp: tags_valid_def and.assoc)

lemma tag_step_ok:
  assumes "desk_ok cf d" "\<And>t. tags_valid cf t \<Longrightarrow> f t AND TAGMASK cf = f t"
  shows "desk_ok cf (tag_step cf f co d)"
  unfolding tag_step_def using assms
  by (intro desk_ok_re_place) (auto simp: desk_ok_def tags_valid_def)

lemma desk_step_ok:
  assumes d: "desk_ok cf d" and m: "m \<in> set (screens d)" and a: "\<And>u. a = Swaptag u \<Longrightarrow> u AND TAGMASK cf \<noteq> 0"
  shows "desk_ok cf (desk_step cf m co a d)"
proof (cases a)
  case (Toggleview u)
  then show ?thesis using d by (simp, intro desk_ok_re_view) (auto simp: tags_valid_def masked_xor)
next
  case (Tag u)
  then show ?thesis
    using tag_step_ok [OF d, of "\<lambda>_. u AND TAGMASK cf"] view_step_ok by (simp add: Let_def and.assoc)
next
  case (Toggletag u)
  then show ?thesis using tag_step_ok [OF d] by (simp add: tags_valid_def masked_xor)
next
  case (Swaptag u)
  have u: "tags_valid cf (u AND TAGMASK cf)" using a [OF Swaptag] by (simp add: tags_valid_def and.assoc)
  have "desk_ok cf (re_place (\<lambda>c p. on_mon p = m)
      (\<lambda>p. p\<lparr>on_tags := swap_word (u AND TAGMASK cf) (shown_tags d m) (on_tags p)\<rparr>) d)"
    using desk_okD [OF d] swap_word_valid [OF u desk_ok_shown [OF d m]]
    by (intro desk_ok_re_place [OF d]) (simp add: m)
  from desk_ok_re_view [OF this, of "\<lambda>(v, w). (u AND TAGMASK cf, w)"]
  show ?thesis using Swaptag d u by (simp add: swap_step_def Let_def)
next
  case (Rotatetags i)
  have "turn (ntags cf) i v AND TAGMASK cf = turn (ntags cf) i v" for v
    by (simp add: turn_def TAGMASK_def Let_def and.assoc)
  then show ?thesis using Rotatetags d by (auto simp: rotate_step_def tags_valid_def intro!: desk_ok_re_view)
next
  case (Shiftviewclients i)
  then show ?thesis using d view_step_ok by (simp split: option.split)
next
  case (Tagmon i)
  then show ?thesis
    using d desk_ok_shown [OF d neighbour_in [OF m]] neighbour_in [OF m]
    by (auto simp: send_step_def move_to_def intro!: desk_ok_re_place)
next
  case (Tagswapmon i)
  then show ?thesis
    using d m desk_ok_shown [OF d neighbour_in [OF m]] desk_ok_shown [OF d m] neighbour_in [OF m]
    by (auto simp: exchange_step_def move_to_def intro!: desk_ok_re_place)
next
  case Togglesticky
  then show ?thesis using desk_okD [OF d] by (simp, intro desk_ok_re_place [OF d]) simp
qed (use d view_step_ok in auto)

lemma desk_ok_state:
  assumes W: "wf cf s"
  shows "desk_ok cf (desk_of s) \<longleftrightarrow> (\<forall>c k. clis s c = Some k \<longrightarrow> tags_valid cf (c_tags k))"
proof -
  have v: "\<exists>v w. views (desk_of s) m = Some (v, w) \<and> tags_valid cf v \<and> tags_valid cf w" if m: "m \<in> set (mons s)" for m
  proof -
    obtain k where k: "mmem s m = Some k" using wfx_monitor [OF W] m by blast
    have i: "m_seltags k < length (m_tagset k)" "m_seltags k XOR 1 < length (m_tagset k)"
      and t: "\<forall>x \<in> set (m_tagset k). tags_valid cf x"
      using mon_shapeD(1) [OF wfx_shape [OF W k]] by (simp_all add: base_shape_def tags_valid_def)
    then show ?thesis using k by (simp add: view_of_def tagsel_def)
  qed
  have p: "(\<forall>p. places (desk_of s) c = Some p \<longrightarrow> tags_valid cf (on_tags p) \<and> on_mon p \<in> set (mons s))
      \<longleftrightarrow> (\<forall>k. clis s c = Some k \<longrightarrow> tags_valid cf (c_tags k))" for c
    using wfx_owner [OF W, of c] by (cases "clis s c") (auto simp: place_of_def)
  have "(\<forall>m \<in> set (mons s). \<exists>v w. views (desk_of s) m = Some (v, w) \<and> tags_valid cf v \<and> tags_valid cf w)"
    using v by blast
  then show ?thesis unfolding desk_ok_def views_desk(3) p by blast
qed

section \<open>The refinement\<close>

text \<open>A command that the hazards allow ends, in a well-formed state and with the desk of the specification.\<close>

lemma run_action_refines:
  assumes W: "wf (cfg E) s" and ok: "env_ok E" and a: "action_ok E a s" "running s" "\<not> drags a"
  shows "\<exists>t. run_action E a s = Some t \<and> wf (cfg E) t
    \<and> desk_of t = desk_step (cfg E) (selmon s) (selid s) a (desk_of s)"
proof -
  obtain t where t: "run_action E a s = Some t" "stays (cfg E) s t"
    using run_action_stays [OF W ok a(1,2)] by (auto simp: res_iff)
  have "desk_is (desk_step (cfg E) (selmon s) (selid s) a (desk_of s)) (run_action E a s)"
    by (rule run_action_desk [OF W _ a(3)]) (use ok in blast)
  then show ?thesis using t stays_wf by (blast dest: desk_isD)
qed

lemma run_action_tags:
  assumes W: "wf (cfg E) s" and ok: "env_ok E" and a: "action_ok E a s" "running s" "\<not> drags a"
    and t: "\<forall>c k. clis s c = Some k \<longrightarrow> tags_valid (cfg E) (c_tags k)"
  shows "\<exists>t. run_action E a s = Some t
    \<and> (\<forall>c k. clis t c = Some k \<longrightarrow> tags_valid (cfg E) (c_tags k) \<and> c_mon k \<in> set (mons t))"
proof -
  obtain u where u: "run_action E a s = Some u" "wf (cfg E) u"
    "desk_of u = desk_step (cfg E) (selmon s) (selid s) a (desk_of s)"
    using run_action_refines [OF W ok a] by blast
  have "desk_ok (cfg E) (desk_of u)"
    unfolding u(3)
    by (rule desk_step_ok) (use t desk_ok_state [OF W] wfx_selmon_in [OF W] a(1) in auto)
  then show ?thesis using u desk_ok_state [OF u(2)] wfx_owner [OF u(2)] by auto
qed

end
