(* ===== verification/Spec2Isabelle.thy ===== *)
theory Spec2Isabelle
  imports Sample Drw Startup DeskSteps
begin

text \<open>
  A model of the window manager \<open>dwm\<close> (\<open>src/src/dwm\<close>) and the theorems that it is correct.

  The program. \<open>dwm.c\<close> manages the windows of an X display: every window it takes over becomes a
  \<open>Client\<close>, every screen a \<open>Monitor\<close>, and a monitor keeps two linked lists of its clients, in the
  order of the layout (\<open>clients\<close>) and in the order of the last focus (\<open>stack\<close>). A client has a set
  of tags, a monitor shows a set of tags, and the clients in view that do not float are placed by
  one of seven layouts. \<open>main\<close> sets up the display, manages the windows that are there (\<open>scan\<close>)
  and runs an event loop (\<open>run\<close>): events of the server are handled, and bindings of keys and
  buttons run commands. \<open>drw.c\<close> draws the texts of the bar with fonts and fallback fonts, and \<open>util.c\<close> cuts titles.

  How it is modelled.
  \<^item> The global state of \<open>dwm.c\<close> is the record \<open>wm\<close> (theory \<open>WState\<close>), with a heap of clients
    and one of monitors, indexed by address. Every function of the code is a function from the
    state into \<open>option\<close>; a null or freed pointer that is followed, a division by zero, a shift
    too far and a write outside a buffer are \<^term>\<open>None\<close>. The functions call each other as in
    the code and are declared in an order in which callees come first.
  \<^item> The X server is the record \<open>xenv\<close> (\<open>XProto\<close>): requests are appended to a log in the state,
    and every answer is an arbitrary function of the log. Xlib, Xinerama, Xft and the processes
    started are not part of the repository. What the theorems need of them are the named
    predicates \<open>env_ok\<close>, \<open>display_ok\<close>, \<open>screens_ok\<close> and \<open>drag_ends\<close>.
  \<^item> The configuration is a record (\<open>Config\<close>), with the values of \<open>config.def.h\<close> as one instance;
    the operations are proved for every configuration with \<open>config_ok\<close>.
  \<^item> Numbers: tag masks are 32-bit words. Where the code mixes \<open>unsigned int\<close> into its geometry,
    the conversions are written out; \<open>float\<close> is rounded to 24 bits (\<open>CArith\<close>). Other \<open>int\<close> values
    are mathematical integers: they are coordinates, far from overflow.

  Which theory models which part.
  \<^item> \<open>Prelude\<close>, \<open>CArith\<close>: the option monad with the predicate \<open>res\<close> and its rules, loops, C
    arithmetic. \<open>Text\<close>: \<open>utf8trunc\<close> (\<open>util.c\<close>) and \<open>utf8decode\<close> (\<open>drw.c\<close>) on bytes. \<open>Drw\<close>: the
    fonts, colours and texts of \<open>drw.c\<close>. \<open>Startup\<close>: \<open>initenv\<close> and \<open>xinitvisual\<close>.
  \<^item> \<open>Config\<close>, \<open>XProto\<close>, \<open>WState\<close>: configuration, server, state, and the invariant \<open>wf\<close>: the
    client lists of the monitors are permutations of each other, partition the allocated clients,
    name clients of that monitor only, the selected client is one of its monitor, and every array
    and index of a monitor is in its bounds.
  \<^item> \<open>ClientLists\<close>: \<open>attach\<close>, \<open>detach\<close> and their variants on lists of addresses. \<open>PtrLists\<close>: the
    same operations as the code has them, on links in memory, and the proof that they agree.
  \<^item> \<open>XProps\<close>, \<open>Geometry\<close>, \<open>Bar\<close>, \<open>Layouts\<close>, \<open>FocusOps\<close>, \<open>Floating\<close>, \<open>Views\<close>, \<open>Monitors\<close>, \<open>Manage\<close>,
    \<open>Handlers\<close>, \<open>Mouse\<close>, \<open>Events\<close>: the operations of \<open>dwm.c\<close>, one theory for each group.
  \<^item> \<open>Frames\<close>, \<open>ViewFrames\<close>, \<open>Transit\<close>, \<open>Screens\<close>, \<open>Clients\<close>, \<open>HandlerFrames\<close>, \<open>MouseFrames\<close>: that
    these operations do not crash and keep the invariant. \<open>frx\<close> is the frame of operations that
    neither make nor destroy clients, \<open>grows\<close> of those that may make some, \<open>stays\<close> of all.
    Between \<open>detach\<close> and \<open>attach\<close> a client is in no list; such clients are the set \<open>X\<close> of the
    invariant \<open>wfx\<close>, of which \<open>wf\<close> is the case without any.
  \<^item> \<open>Safety\<close>: under which conditions a command or an event is safe (\<open>action_ok\<close>, \<open>event_ok\<close>).
    \<open>Program\<close>: the event loop as a step relation, its invariant, and the whole run.
  \<^item> \<open>Desk\<close>, \<open>DeskSteps\<close>: the abstract specification of the commands. The desk of a state is the
    place of every client (monitor, tags, sticky) and the two tag sets of every monitor;
    \<open>desk_step\<close> is what a command does to it, and \<open>run_action\<close> is shown to refine \<open>desk_step\<close>. The
    rules \<open>desk_intro\<close> follow the operations that leave the desk as it is. The two commands that follow the
    pointer run event handlers meanwhile, new windows included, and have no such step.
  \<^item> \<open>ViewEffects\<close>, \<open>GridCells\<close>, \<open>Behaviour\<close>: what single operations compute, and the inputs on
    which they fail. \<open>Sample\<close>: a display and states for the examples.

  What the theorems show. First, that the program as a whole does not crash and keeps its
  structure, from the start through any sequence of events to the end, and what its largest
  operations do to the set of clients. Then the effects of the commands on focus, views and tags,
  in general by the refinement of \<open>desk_step\<close> and for single commands in more detail,
  the refinement of the list operations by those on pointers, bounds of sizes and positions, the
  layout \<open>grid\<close>, the loops that follow the mouse, the processes, UTF-8 and the
  drawing of texts. Last, the inputs on
  which the code does fail: the conditions of \<open>action_ok\<close> exclude them, and the theorems show
  for the most important ones that the failure is real.

  Fuel and loops. The loops over lists are structural. The loop of \<open>cleanup\<close> runs while a monitor
  has a client; its fuel is the number of clients, and \<open>unmanage\<close> is shown to remove one each time.
  The loops over bits (\<open>shiftviewclients\<close>) and links (\<open>PtrLists\<close>) are \<open>partial_function\<close>s, for which
  not returning is \<^term>\<open>None\<close>; that they return is proved. A loop that follows the mouse runs over
  the list of events the server will send, and is \<^term>\<open>None\<close> when the list has no release of the
  button. The event loop runs over a list of events; \<open>Waiting\<close> is its end without \<open>quit\<close>.

  Drawing. The requests of the bar to \<open>drw.c\<close> are recorded in the log, and the width of a text is a
  field of \<open>xenv\<close>; the operations of \<open>dwm.c\<close> are proved for all widths. That the width measured
  is the sum of the widths of the characters, and that a text drawn in it is drawn whole, is shown
  in \<open>Drw\<close>. Its loop may run for ever and is a \<open>partial_function\<close>: measuring is proved to end when
  the fonts are searched from the first, and not to end in a case where they are not.

  Not modelled. \<open>ecalloc\<close> never fails here, and \<open>drw_cur_create\<close> is a plain call of Xlib. Of
  signals, only those between two events are modelled. The other programs of the repository are
  tools the window manager starts or independent of it, most of them kept from elsewhere.
\<close>

section \<open>The program\<close>



text \<open>
  C2: Every state that the event loop reaches by events that can be handled, and by signals, is
  well-formed, with the bar height it started with.
\<close>

theorem reach_invariant:
  assumes "reach E s t" "wf (cfg E) s" "env_ok E"
  shows "wf (cfg E) t \<and> bh t = bh s"
  using reach_stays [OF assms] by (simp add: stays_def)

lemma reach_invariant_witness: "wf (cfg sample_env) (sighup sample_state) \<and> bh (sighup sample_state) = bh sample_state"
proof (rule reach_invariant)
  have "step sample_env sample_state Hangup (sighup sample_state)"
    by (simp add: sample_state_def)
  then show "reach sample_env sample_state (sighup sample_state)"
    by (rule reach.go [OF reach.start, rotated]) (simp add: label_ok_def)
qed (simp_all add: sample_wf sample_env_ok)





text \<open>
  C5: The start of the program, from no monitor and no client through the first scan of the
  windows, either ends with a message or establishes the invariant of the event loop.
\<close>

theorem launch_establishes:
  assumes "env_ok E" "display_ok E"
  shows "\<exists>r. launch E = Some r \<and> (\<forall>s. r = Inr s \<longrightarrow> wf (cfg E) s \<and> running s)"
  using launch_ready [OF assms] by (auto simp: res_iff ready_def)

lemma launch_establishes_witness:
  "\<exists>r. launch sample_env = Some r \<and> (\<forall>s. r = Inr s \<longrightarrow> wf (cfg sample_env) s \<and> running s)"
  by (rule launch_establishes [OF sample_env_ok sample_display_ok])

text \<open>C6: At the end of the program \<open>cleanup\<close> gives up every client and every monitor.\<close>

theorem cleanup_leaves_nothing:
  assumes "wf (cfg E) s" "config_ok (cfg E)" "\<not> running s"
  shows "\<exists>t. cleanup E s = Some t \<and> clis t = Map.empty \<and> mmem t = Map.empty \<and> mons t = []"
  using cleanup_all [OF assms] by (auto simp: res_iff)

lemma cleanup_leaves_nothing_witness:
  "\<exists>t. cleanup sample_env (quit 0 sample_state) = Some t \<and> clis t = Map.empty \<and> mmem t = Map.empty \<and> mons t = []"
  by (rule cleanup_leaves_nothing)
    (use quit_stays [OF sample_wf, of 0] in \<open>simp_all add: config_def_ok stays_def\<close>)

text \<open>
  C7: \<open>manage\<close> makes exactly one new client of a window, none if the window is the desktop; no
  client is lost and the invariant is kept.
\<close>

theorem manage_one:
  assumes "wf (cfg E) s" "env_ok E"
  shows "\<exists>t. manage E w wa s = Some t \<and> wf (cfg E) t
    \<and> dom (clis t) = (if is_desktop E s w then dom (clis s) else insert (nextaddr s) (dom (clis s)))"
  using manage_adds [OF assms, of w wa] by (auto simp: res_iff grows_def)

lemma manage_one_witness:
  "\<exists>t. manage sample_env 40 (garbage_attributes sample_env) sample_state = Some t \<and> wf (cfg sample_env) t
    \<and> dom (clis t) = (if is_desktop sample_env sample_state 40 then dom (clis sample_state)
                       else insert (nextaddr sample_state) (dom (clis sample_state)))"
  by (rule manage_one) (simp_all add: sample_wf sample_env_ok)

text \<open>
  C8: \<open>unmanage\<close> frees the client it is called for, and every other client stays on its monitor;
  the invariant is kept, so that no list of a monitor still has the client.
\<close>

theorem unmanage_one:
  assumes "wf (cfg E) s" "config_ok (cfg E)" "clis s c \<noteq> None"
  shows "\<exists>t. unmanage E c d s = Some t \<and> wf (cfg E) t \<and> clis t c = None
    \<and> (\<forall>b. b \<noteq> c \<longrightarrow> map_option c_mon (clis t b) = map_option c_mon (clis s b))"
  using unmanage_fr [OF assms, of d] by (fastforce simp: res_iff frx_def same_owners_def)

lemma unmanage_one_witness:
  "\<exists>t. unmanage sample_env 2 True sample_state = Some t \<and> wf (cfg sample_env) t \<and> clis t 2 = None
    \<and> (\<forall>b. b \<noteq> 2 \<longrightarrow> map_option c_mon (clis t b) = map_option c_mon (clis sample_state b))"
  by (rule unmanage_one) (simp_all add: sample_wf config_def_ok, simp add: sample_state_def)



section \<open>Focus\<close>



text \<open>
  C13: \<open>focus(NULL)\<close> stays on the selected monitor and selects a visible client of it; it leaves
  nothing selected only when no client of the monitor is visible.
\<close>

theorem focus_falls_back:
  assumes "wf (cfg E) s" "config_ok (cfg E)"
  shows "\<exists>t. focus E None s = Some t \<and> wf (cfg E) t \<and> keep s t \<and> selmon t = selmon s \<and> sel_visible t"
  using focus_here [OF assms] by (auto simp: res_iff settled_def)

lemma focus_falls_back_witness:
  "\<exists>t. focus sample_env None sample_state = Some t \<and> wf (cfg sample_env) t \<and> keep sample_state t
    \<and> selmon t = selmon sample_state \<and> sel_visible t"
  by (rule focus_falls_back) (simp_all add: sample_wf config_def_ok)

section \<open>Views and tags\<close>

text \<open>C14: After \<open>view\<close> the tags asked for are in view, and a client selected is one that is visible.\<close>

theorem view_shows:
  assumes "wf (cfg E) s" "config_ok (cfg E)" "selm s = Some m"
    "ui AND TAGMASK (cfg E) \<noteq> 0" "ui AND TAGMASK (cfg E) \<noteq> tagsel m"
  shows "\<exists>t k. view E ui s = Some t \<and> wf (cfg E) t \<and> selmon t = selmon s \<and> sel_visible t
    \<and> selm t = Some k \<and> tagsel k = ui AND TAGMASK (cfg E)"
proof -
  obtain m' where m': "view_mon (cfg E) ui m = Some m'"
    "res (settled (cfg E) (s\<lparr>mmem := (mmem s)(selmon s \<mapsto> m')\<rparr>)) (view E ui s)"
    by (rule view_effect [OF assms(1-3,5)])
  then obtain t where t: "view E ui s = Some t" "settled (cfg E) (s\<lparr>mmem := (mmem s)(selmon s \<mapsto> m')\<rparr>) t"
    by (auto simp: res_iff)
  obtain k where k: "selm t = Some k" "mcore k = mcore m'" by (rule settled_selm [OF t(2)])
  have "tagsel m' = ui AND TAGMASK (cfg E)"
    using view_mon_total [OF wfx_shape [OF assms(1)], of "selmon s" m ui] assms(3,4) m'(1) by (auto simp: selm_def)
  then show ?thesis using t k mcore_fields(1) [OF k(2)] by (auto simp: settled_def)
qed

lemma view_shows_witness:
  "\<exists>t k. view sample_env 2 sample_state = Some t \<and> wf (cfg sample_env) t \<and> selmon t = selmon sample_state
    \<and> sel_visible t \<and> selm t = Some k \<and> tagsel k = 2 AND TAGMASK (cfg sample_env)"
  by (rule view_shows [of _ _ sample_monitor])
    (simp_all add: sample_wf config_def_ok TAGMASK_config_def, simp_all add: sample_state_def selm_def sample_monitor_def tagsel_def)

text \<open>C15: \<open>view\<close> with the argument 0 goes back: the tags in view and the current tag are the old ones.\<close>

theorem view_back:
  assumes "wf (cfg E) s" "config_ok (cfg E)" "selm s = Some m"
    "ui AND TAGMASK (cfg E) \<noteq> 0" "ui AND TAGMASK (cfg E) \<noteq> tagsel m"
  shows "\<exists>t u k. view E ui s = Some t \<and> view E 0 t = Some u \<and> selmon u = selmon s
    \<and> selm u = Some k \<and> tagsel k = tagsel m \<and> curtag (m_pertag k) = curtag (m_pertag m)"
proof -
  have mm: "mmem s (selmon s) = Some m" using assms(3) by (simp add: selm_def)
  obtain m1 t where t: "view_mon (cfg E) ui m = Some m1" "view E ui s = Some t"
    "settled (cfg E) (s\<lparr>mmem := (mmem s)(selmon s \<mapsto> m1)\<rparr>) t"
    using view_effect [OF assms(1-3,5)] by (metis res_iff)
  obtain k where k: "selm t = Some k" "mcore k = mcore m1" by (rule settled_selm [OF t(3)])
  have W: "wf (cfg E) t" and st: "selmon t = selmon s" using t(3) by (simp_all add: settled_def)
  have "tagsel k \<noteq> 0" using tagsel_ok(1) [OF wfx_shape [OF W]] k(1) by (simp add: selm_def)
  then obtain m2 u where u: "view_mon (cfg E) 0 k = Some m2" "view E 0 t = Some u"
    "settled (cfg E) (t\<lparr>mmem := (mmem t)(selmon t \<mapsto> m2)\<rparr>) u"
    using view_effect [OF W assms(2) k(1), of 0] by (metis res_iff and_zero_eq and.commute)
  obtain k2 where k2: "selm u = Some k2" "mcore k2 = mcore m2" by (rule settled_selm [OF u(3)])
  note B = view_mon_back [OF wfx_shape [OF assms(1) mm] assms(4) t(1) k(2) u(1)]
  have "selmon u = selmon s" using u(3) st by (simp add: settled_def)
  then show ?thesis using t(2) u(2) k2 B mcore_fields(1,3) [OF k2(2)] by auto
qed

lemma view_back_witness:
  "\<exists>t u k. view sample_env 2 sample_state = Some t \<and> view sample_env 0 t = Some u \<and> selmon u = selmon sample_state
    \<and> selm u = Some k \<and> tagsel k = tagsel sample_monitor \<and> curtag (m_pertag k) = curtag (m_pertag sample_monitor)"
  by (rule view_back)
    (simp_all add: sample_wf config_def_ok TAGMASK_config_def, simp_all add: sample_state_def selm_def sample_monitor_def tagsel_def)





text \<open>
  C16: The loop of \<open>shiftviewclients\<close>, which has no bound, ends after single steps in either
  direction, on tags that have a client, when the clients have tags at all.
\<close>

theorem shift_loop_ends:
  assumes "i = 1 \<or> i = -1" "w AND tagmask n \<noteq> 0" "mk AND tagmask n \<noteq> 0" "n \<le> 31"
  shows "\<exists>u. shift_loop n i mk w = Some u \<and> u AND mk \<noteq> 0"
  using shift_loop_total [OF assms] .

lemma shift_loop_ends_witness: "\<exists>u. shift_loop 9 1 4 1 = Some u \<and> u AND 4 \<noteq> 0"
  by (rule shift_loop_ends) (simp_all add: tagmask_def)

section \<open>Missing checks\<close>

text \<open>
  C37: Without the option \<open>viewontag\<close>, moving the only visible client to tags that are not in view
  crashes: nothing is selected when \<open>tag\<close> publishes the desktop of the selected client.
\<close>

theorem tag_last_client_crash:
  assumes "wf (cfg E) s" "config_ok (cfg E)" "\<not> viewontag (cfg E)"
    "selm s = Some m" "m_sel m = Some c" "clis s c = Some k"
    "ui AND TAGMASK (cfg E) \<noteq> 0" "ui AND tagsel m = 0" "\<not> c_issticky k"
    "\<And>b. b \<in> set (m_clients m) \<Longrightarrow> b \<noteq> c \<Longrightarrow> ISVISIBLE s b = Some False"
  shows "tag E ui s = None"
  using tag_crash [OF assms] .

lemma tag_last_client_crash_witness: "tag hiding_env 2 sample_state2 = None"
  by (rule tag_last_client_crash [of _ _ sample_monitor 2 "sample_client 20"])
    (simp_all add: sample_wf2 config_def_ok TAGMASK_config_def, simp_all add: sample_state2_def sample_state_def
      selm_def sample_monitor_def tagsel_def sample_client_def zero_client_def ISVISIBLE_def ISVISIBLEONTAG_def)

text \<open>
  C38: A client that asks for the first desktop, number 0, by the message \<open>_NET_WM_DESKTOP\<close> gets no
  tag at all, although 0 is the number the window manager itself publishes for the first tag.
\<close>

theorem desktop_message_hides:
  assumes "wf (cfg E) s" "config_ok (cfg E)" "wintoclient s w = Some (Some c)" "clis s c = Some k"
    "netatom E NetWMDesktop \<noteq> netatom E NetWMState" "netatom E NetWMDesktop \<noteq> netatom E NetActiveWindow"
  shows "\<exists>t k'. clientmessage E w (netatom E NetWMDesktop) [0] s = Some t \<and> clis t c = Some k' \<and> c_tags k' = 0"
  using desktop_message [OF assms, of "[0]"] by (auto simp: res_iff data_def)

lemma desktop_message_hides_witness:
  "\<exists>t k'. clientmessage atoms_env 20 (netatom atoms_env NetWMDesktop) [0] sample_state = Some t
    \<and> clis t 2 = Some k' \<and> c_tags k' = 0"
  by (rule desktop_message_hides [of _ _ _ _ "sample_client 20"])
    (simp_all add: sample_wf config_def_ok, simp_all add: sample_state_def wintoclient_def atoms_env_def
      sample_client_def zero_client_def)

section \<open>Lists on pointers\<close>

text \<open>
  C18: \<open>detach\<close> on the links of the memory and \<open>detach\<close> of the model agree: both succeed for a client
  in the list of its monitor, and the memory then holds the lists of the monitor again.
\<close>

theorem detach_on_pointers:
  assumes "clis s c = Some k" "mmem s (c_mon k) = Some m" "holds A m" "c \<in> set (m_clients m)"
  shows "\<exists>B t m'. detach_ptr c A = Some B \<and> detach E c s = Some t \<and> mmem t (c_mon k) = Some m' \<and> holds B m'"
  using detach_agrees [OF assms] by (auto simp: agree_def)

lemma detach_on_pointers_witness:
  "\<exists>B t m'. detach_ptr 3 sample_arena = Some B \<and> detach sample_env 3 sample_state = Some t
    \<and> mmem t (c_mon (sample_client 30)) = Some m' \<and> holds B m'"
  by (rule detach_on_pointers [OF _ _ sample_holds]) (simp_all add: sample_state_def)

text \<open>
  C19: \<open>detachstack\<close> on the links agrees with \<open>detachstack\<close> of the model in every well-formed state.
\<close>

theorem detachstack_on_pointers:
  assumes "wf cf s" "clis s c = Some k" "mmem s (c_mon k) = Some m" "holds A m"
  shows "\<exists>B t m'. detachstack_ptr c A = Some B \<and> detachstack c s = Some t \<and> mmem t (c_mon k) = Some m' \<and> holds B m'"
proof -
  have c: "c \<in> set (m_stack m)"
    using wfx_listedD [OF assms(1,2)] assms(3) wfx_stack_clients [OF assms(1,3)] by simp
  have s: "s = s\<lparr>mmem := (mmem s)(c_mon k \<mapsto> m)\<rparr>" using assms(3) by (simp add: fun_upd_idem)
  have "detachstack c s \<noteq> None"
    by (rule detachstack_Some [OF assms(1) s assms(2,3) refl])
      (use wfx_stack_clients [OF assms(1,3)] wfx_clientD [OF assms(1,3)] in auto)
  then show ?thesis using detachstack_agrees [OF assms(2-4) c] by (auto simp: agree_def)
qed

lemma detachstack_on_pointers_witness:
  "\<exists>B t m'. detachstack_ptr 2 sample_arena = Some B \<and> detachstack 2 sample_state = Some t
    \<and> mmem t (c_mon (sample_client 20)) = Some m' \<and> holds B m'"
  by (rule detachstack_on_pointers [OF sample_wf _ _ sample_holds]) (simp_all add: sample_state_def)

text \<open>
  C20: \<open>attach\<close>, and \<open>enqueue\<close> with its loop to the last client, agree with those of the model for a
  client that is not in the list of its monitor; so do their versions for the focus list.
\<close>

theorem insertions_on_pointers:
  assumes "clis s c = Some k" "mmem s (c_mon k) = Some m" "holds A m" "c \<notin> set (m_clients m)" "c \<notin> set (m_stack m)"
  shows "agree (c_mon k) (Some (attach_ptr c A)) (attach c s) \<and> agree (c_mon k) (enqueue_ptr c A) (enqueue c s)
    \<and> agree (c_mon k) (Some (attachstack_ptr c A)) (attachstack c s)
    \<and> agree (c_mon k) (enqueuestack_ptr c A) (enqueuestack c s)"
  using attach_agrees [OF assms(1-4)] enqueue_agrees [OF assms(1-4)] attachstack_agrees [OF assms(1-3,5)]
    enqueuestack_agrees [OF assms(1-3,5)] by simp

lemma insertions_on_pointers_witness:
  "agree 1 (enqueue_ptr 5 sample_arena) (enqueue 5 (sample_state\<lparr>clis := [5 \<mapsto> sample_client 50]\<rparr>))"
  using insertions_on_pointers [of "sample_state\<lparr>clis := [5 \<mapsto> sample_client 50]\<rparr>" 5 "sample_client 50",
    OF _ _ sample_holds] by (simp add: sample_state_def)

section \<open>Geometry and monitors\<close>

text \<open>
  C21: A size adjusted to the hints of a client is within its limits, and between them it is the base
  size plus a multiple of the increment, in both directions.
\<close>

theorem hints_respected:
  assumes "apply_hints k w h = Some (w', h')" "c_maxw k = 0 \<or> c_minw k \<le> c_maxw k" "c_maxh k = 0 \<or> c_minh k \<le> c_maxh k"
  shows "c_minw k \<le> w' \<and> c_minh k \<le> h' \<and> (c_maxw k = 0 \<or> w' \<le> c_maxw k) \<and> (c_maxh k = 0 \<or> h' \<le> c_maxh k)
    \<and> (w' \<in> {c_minw k, c_maxw k} \<or> c_incw k = 0 \<or> c_incw k dvd w' - c_basew k)
    \<and> (h' \<in> {c_minh k, c_maxh k} \<or> c_inch k = 0 \<or> c_inch k dvd h' - c_baseh k)"
  using apply_hints_spec [OF assms(1)] assms(2,3) by auto

lemma hints_respected_witness: "c_inch sample_terminal = 0 \<or> c_inch sample_terminal dvd 50 - c_baseh sample_terminal"
proof -
  have "apply_hints sample_terminal 100 60 = Some (96, 50)"
    by (simp add: apply_hints_def aspect_limit_def cmod_def cdiv_def sample_terminal_def sample_client_def zero_client_def)
  from hints_respected [OF this] show ?thesis
    by (simp add: sample_terminal_def sample_client_def zero_client_def)
qed



text \<open>
  C23: \<open>recttomon\<close> yields the monitor whose area has the largest part of the rectangle, and the
  selected one when none has a part of it.
\<close>

theorem recttomon_maximal:
  assumes "wf cf s" "mmem s n = Some k"
  shows "\<exists>m j. recttomon x y w h s = Some m \<and> mmem s m = Some j \<and> INTERSECT x y w h k \<le> INTERSECT x y w h j
    \<and> ((\<forall>i j. mmem s i = Some j \<longrightarrow> INTERSECT x y w h j = 0) \<longrightarrow> m = selmon s)"
  using recttomon_total [OF assms(1)] recttomon_largest [OF assms(1) _ assms(2)] by metis

lemma recttomon_maximal_witness:
  "\<exists>m j. recttomon 10 10 5 5 sample_state = Some m \<and> mmem sample_state m = Some j
    \<and> INTERSECT 10 10 5 5 sample_monitor \<le> INTERSECT 10 10 5 5 j
    \<and> ((\<forall>i j. mmem sample_state i = Some j \<longrightarrow> INTERSECT 10 10 5 5 j = 0) \<longrightarrow> m = selmon sample_state)"
  by (rule recttomon_maximal [OF sample_wf, of 1]) (simp add: sample_state_def)

section \<open>Layouts\<close>

text \<open>
  C17: Arranging a monitor, whatever its layout, does not crash and moves windows only: no client
  changes its place in a list, its monitor or its tags.
\<close>

theorem arrangemon_appearance:
  assumes "wf (cfg E) s" "config_ok (cfg E)" "m \<in> set (mons s)"
  shows "\<exists>t. arrangemon E m s = Some t \<and> wf (cfg E) t \<and> skel t = skel s"
proof -
  have "mmem s m \<noteq> None" using assms(1,3) by (auto simp: wfx_def)
  then have "res (cosm s) (arrangemon E m s)" by (rule arrangemon_cosm [OF cosm_refl assms(1,2)])
  then show ?thesis using wfx_cosm [OF _ assms(1)] by (auto simp: res_iff cosm_def)
qed

lemma arrangemon_appearance_witness:
  "\<exists>t. arrangemon sample_env 1 sample_state = Some t \<and> wf (cfg sample_env) t \<and> skel t = skel sample_state"
  by (rule arrangemon_appearance) (simp_all add: sample_wf config_def_ok, simp add: sample_state_def)

text \<open>
  C25: The rows and columns of \<open>grid\<close> are enough for the clients, and no row and no column is left
  over; in particular the loop for the number of rows finds the square root, rounded up.
\<close>

theorem grid_dimensions:
  "n \<le> grid_rows n 0 * grid_rows n 0 \<and> (\<forall>q < grid_rows n 0. q * q < n)
   \<and> n \<le> grid_rows n 0 * grid_cols n (grid_rows n 0)
   \<and> (0 < n \<longrightarrow> (grid_rows n 0 - 1) * grid_cols n (grid_rows n 0) < n
                \<and> grid_rows n 0 * (grid_cols n (grid_rows n 0) - 1) < n)"
  using grid_rows_found [of 0 n] grid_fits [OF refl refl, of n] by simp

lemma grid_dimensions_witness: "grid_rows 5 0 * (grid_cols 5 (grid_rows 5 0) - 1) < 5"
  using grid_dimensions [of 5] by simp



section \<open>Clients, processes, input\<close>

text \<open>
  C26: Whatever the rules of the configuration say, a new client gets at least one tag, and only tags
  that exist.
\<close>

theorem rules_give_tags:
  assumes "wfx (cfg E) {c} s" "applyrules E c s = Some t" "clis t c = Some k"
  shows "c_tags k \<noteq> 0 \<and> c_tags k AND TAGMASK (cfg E) = c_tags k"
  using applyrules_tags [OF assms] .

lemma rules_give_tags_witness:
  "\<exists>t k. applyrules sample_env 4 (snd (alloc_client 40 sample_state)) = Some t \<and> clis t 4 = Some k
    \<and> c_tags k \<noteq> 0 \<and> c_tags k AND TAGMASK (cfg sample_env) = c_tags k"
proof -
  have a: "alloc_client 40 sample_state = (4, snd (alloc_client 40 sample_state))" (is "_ = (4, ?s)")
    by (simp add: alloc_client_def sample_state_def)
  have W: "wfx (cfg sample_env) {4} ?s" using wf_alloc(1) [OF sample_wf a] by simp
  obtain t where t: "applyrules sample_env 4 ?s = Some t" "frx (cfg sample_env) {4} ?s t"
    by (rule resE [OF applyrules_frx [OF fr_refl [OF W]]])
  obtain k where k: "clis t 4 = Some k" using wfx_alloc [OF fr_wf [OF t(2)], of 4] by auto
  show ?thesis using rules_give_tags [OF W t(1) k] t(1) k by blast
qed

text \<open>
  C29: The commands of the flat list \<open>autostart\<close>, each ended by a null pointer, are started in order,
  one process for each.
\<close>

theorem autostart_runs_commands:
  assumes "autostart (cfg E) = flatten_commands cmds" "[] \<notin> set cmds"
  shows "\<exists>pids. length pids = length cmds \<and> autostart_exec E s =
    Some (s\<lparr>autostart_pids := autostart_pids s @ pids, xlog := xlog s @ map ForkExec cmds\<rparr>)"
  using autostart_log [OF assms] .

lemma autostart_runs_commands_witness:
  "\<exists>pids. length pids = length [[''dwmstatus'']] \<and> autostart_exec sample_env sample_state =
    Some (sample_state\<lparr>autostart_pids := autostart_pids sample_state @ pids,
      xlog := xlog sample_state @ map ForkExec [[''dwmstatus'']]\<rparr>)"
  by (rule autostart_runs_commands) (simp_all add: flatten_commands_def)

text \<open>
  C27: Resizing with the mouse ends when the button is released, whatever other events arrive before;
  it leaves a well-formed state and loses no client.
\<close>

theorem resizemouse_ends:
  assumes "wf (cfg E) s" "env_ok E" "drag_ends E" "refreshrate (cfg E) \<noteq> 0"
  shows "\<exists>t. resizemouse E s = Some t \<and> wf (cfg E) t \<and> (\<forall>c. clis s c \<noteq> None \<longrightarrow> clis t c \<noteq> None)"
  using resizemouse_grows [OF grows_refl [OF assms(1)] assms(2-4)] by (auto simp: res_iff grows_def)

lemma resizemouse_ends_witness:
  "\<exists>t. resizemouse dragging_env sample_state = Some t \<and> wf (cfg dragging_env) t
    \<and> (\<forall>c. clis sample_state c \<noteq> None \<longrightarrow> clis t c \<noteq> None)"
  by (rule resizemouse_ends) (simp_all add: sample_wf dragging_env_ok dragging_env_ends)

text \<open>
  C28: Moving with the mouse, freely or from place to place among the tiled clients, ends in the same
  way, and loses no client either.
\<close>

theorem moveorplace_ends:
  assumes "wf (cfg E) s" "env_ok E" "drag_ends E" "refreshrate (cfg E) \<noteq> 0"
  shows "\<exists>t. moveorplace E i s = Some t \<and> wf (cfg E) t \<and> (\<forall>c. clis s c \<noteq> None \<longrightarrow> clis t c \<noteq> None)"
  using moveorplace_grows [OF grows_refl [OF assms(1)] assms(2-4), of i] by (auto simp: res_iff grows_def)

lemma moveorplace_ends_witness:
  "\<exists>t. moveorplace dragging_env 1 sample_state = Some t \<and> wf (cfg dragging_env) t
    \<and> (\<forall>c. clis sample_state c \<noteq> None \<longrightarrow> clis t c \<noteq> None)"
  by (rule moveorplace_ends) (simp_all add: sample_wf dragging_env_ok dragging_env_ends)

end
